(* ===== verification/LIJ_Prelude.thy ===== *)
theory LIJ_Prelude
  imports Main "HOL-Library.Word" "HOL-Library.Sublist" "HOL-Library.Multiset"
begin

text \<open>
  Shared ground of the development: the machine integers of the Rust sources, Rust's checked and
  saturating arithmetic, the result type, runs of step functions, and the two interfaces that
  several components implement (\<open>step_machine\<close>: an invariant kept by every step;
  \<open>ratchet_machine\<close>: an observable that no step lowers).
\<close>

section \<open>Types\<close>

type_synonym u8 = "8 word"
type_synonym u16 = "16 word"
type_synonym u32 = "32 word"
type_synonym u64 = "64 word"
type_synonym bytes = "8 word list"

text \<open>Transaction ids and block hashes are 32-byte values; scripts are byte strings.\<close>

type_synonym hash256 = "256 word"
type_synonym txid = hash256
type_synonym block_hash = hash256
type_synonym script_buf = bytes

text \<open>
  The engine's error type (\<open>lij-core/src/error.rs\<close>) and its results: \<open>Inl\<close> the error, \<open>Inr\<close> the
  value. Messages carry the fixed text of the source, without the values it formats in.
\<close>

datatype lij_error =
    KeyError string
  | StorageError string
  | LspError string
  | NodeError string
  | PaymentError string
  | InvoiceError string
  | BackupError string
  | NetworkError string
  | InvalidArgument string
  | NotInitialized
  | SyncStateNotReady string

text \<open>The \<open>Display\<close> text of an error.\<close>

fun display_error :: "lij_error \<Rightarrow> string" where
  "display_error (KeyError m) = ''Key error: '' @ m"
| "display_error (StorageError m) = ''Storage error: '' @ m"
| "display_error (LspError m) = ''LSP error: '' @ m"
| "display_error (NodeError m) = ''Node error: '' @ m"
| "display_error (PaymentError m) = ''Payment error: '' @ m"
| "display_error (InvoiceError m) = ''Invoice error: '' @ m"
| "display_error (BackupError m) = ''Backup error: '' @ m"
| "display_error (NetworkError m) = ''Network error: '' @ m"
| "display_error (InvalidArgument m) = ''Invalid argument: '' @ m"
| "display_error NotInitialized = ''Not initialized''"
| "display_error (SyncStateNotReady m) = ''Sync state not ready: '' @ m"

type_synonym 'a lij_result = "lij_error + 'a"

fun ok_value :: "'e + 'a \<Rightarrow> 'a option" where
  "ok_value (Inl e) = None"
| "ok_value (Inr v) = Some v"

definition is_ok :: "'e + 'a \<Rightarrow> bool" where
  "is_ok r = (ok_value r \<noteq> None)"

lemma is_ok_simps [simp]: "is_ok (Inl e) = False" "is_ok (Inr v) = True"
  by (simp_all add: is_ok_def)

named_theorems arith_defs \<open>definitions of the Rust integer operations\<close>

section \<open>Rust integer operations\<close>

definition u64_max :: nat where
  "u64_max = 18446744073709551615"

definition u32_max :: nat where
  "u32_max = 4294967295"

text \<open>
  Amounts (\<open>u64\<close> satoshis) are natural numbers with the width written out: the saturating
  operations stop at \<open>u64::MAX\<close>, the checked ones return \<open>None\<close> there, and the plain operators
  wrap, as they do in the release profile (no overflow checks).
\<close>

definition sat_add64 :: "nat \<Rightarrow> nat \<Rightarrow> nat" where
  [arith_defs]: "sat_add64 a b = min (a + b) u64_max"

definition sat_mul64 :: "nat \<Rightarrow> nat \<Rightarrow> nat" where
  [arith_defs]: "sat_mul64 a b = min (a * b) u64_max"

definition sat_mul32 :: "nat \<Rightarrow> nat \<Rightarrow> nat" where
  [arith_defs]: "sat_mul32 a b = min (a * b) u32_max"

definition sat_add32 :: "nat \<Rightarrow> nat \<Rightarrow> nat" where
  [arith_defs]: "sat_add32 a b = min (a + b) u32_max"

definition abs_diff :: "nat \<Rightarrow> nat \<Rightarrow> nat" where
  [arith_defs]: "abs_diff a b = (if a \<le> b then b - a else a - b)"

definition checked_add64 :: "nat \<Rightarrow> nat \<Rightarrow> nat option" where
  [arith_defs]: "checked_add64 a b = (if a + b \<le> u64_max then Some (a + b) else None)"

definition checked_sub64 :: "nat \<Rightarrow> nat \<Rightarrow> nat option" where
  [arith_defs]: "checked_sub64 a b = (if b \<le> a then Some (a - b) else None)"

definition checked_mul64 :: "nat \<Rightarrow> nat \<Rightarrow> nat option" where
  [arith_defs]: "checked_mul64 a b = (if a * b \<le> u64_max then Some (a * b) else None)"

definition wrap_add64 :: "nat \<Rightarrow> nat \<Rightarrow> nat" where
  [arith_defs]: "wrap_add64 a b = (a + b) mod (u64_max + 1)"

definition wrap_mul64 :: "nat \<Rightarrow> nat \<Rightarrow> nat" where
  [arith_defs]: "wrap_mul64 a b = (a * b) mod (u64_max + 1)"

definition wrap_sub64 :: "nat \<Rightarrow> nat \<Rightarrow> nat" where
  [arith_defs]: "wrap_sub64 a b = (a + (u64_max + 1) - b mod (u64_max + 1)) mod (u64_max + 1)"

definition div_ceil :: "nat \<Rightarrow> nat \<Rightarrow> nat" where
  [arith_defs]: "div_ceil a b = (a + b - 1) div b"

lemma sat_add64_le: "sat_add64 a b \<le> a + b"
  by (simp add: sat_add64_def)

lemma sat_add64_le_max: "sat_add64 a b \<le> u64_max"
  by (simp add: sat_add64_def)

lemma sat_add64_exact: "a + b \<le> u64_max \<Longrightarrow> sat_add64 a b = a + b"
  by (simp add: sat_add64_def)

lemma sat_add64_ge: "c \<le> u64_max \<Longrightarrow> (c \<le> sat_add64 a b) = (c \<le> a + b)"
  by (simp add: sat_add64_def)

lemma wrap_add64_exact: "a + b \<le> u64_max \<Longrightarrow> wrap_add64 a b = a + b"
  by (simp add: wrap_add64_def)

lemma wrap_mul64_exact: "a * b \<le> u64_max \<Longrightarrow> wrap_mul64 a b = a * b"
  by (simp add: wrap_mul64_def)

lemma wrap_sub64_exact: "b \<le> a \<Longrightarrow> a \<le> u64_max \<Longrightarrow> wrap_sub64 a b = a - b"
proof -
  assume le: "b \<le> a" and max: "a \<le> u64_max"
  then have eq: "a + (u64_max + 1) - b = (a - b) + (u64_max + 1)" by simp
  from le max have b: "b mod (u64_max + 1) = b" by simp
  have "wrap_sub64 a b = ((a - b) + (u64_max + 1)) mod (u64_max + 1)"
    unfolding wrap_sub64_def b eq ..
  also have "\<dots> = (a - b) mod (u64_max + 1)" by (rule mod_add_self2)
  also have "\<dots> = a - b" using max by simp
  finally show ?thesis .
qed

lemma checked_add64_Some [simp]:
  "checked_add64 a b = Some c \<longleftrightarrow> c = a + b \<and> a + b \<le> u64_max"
  by (auto simp: checked_add64_def)

lemma checked_sub64_Some [simp]:
  "checked_sub64 a b = Some c \<longleftrightarrow> b \<le> a \<and> c = a - b"
  by (auto simp: checked_sub64_def)

lemma checked_mul64_Some [simp]:
  "checked_mul64 a b = Some c \<longleftrightarrow> c = a * b \<and> a * b \<le> u64_max"
  by (auto simp: checked_mul64_def)

lemma div_ceil_bounds:
  assumes "0 < b"
  shows "a \<le> div_ceil a b * b" and "div_ceil a b * b < a + b"
proof -
  have eq: "(a + b - 1) div b * b + (a + b - 1) mod b = a + b - 1"
    by (rule div_mult_mod_eq)
  have lt: "(a + b - 1) mod b < b" using assms by simp
  show "a \<le> div_ceil a b * b"
    unfolding div_ceil_def using eq lt assms by linarith
  show "div_ceil a b * b < a + b"
    unfolding div_ceil_def using eq assms by linarith
qed

lemma unat_less_pow: "unat w < 2 ^ LENGTH('a)" for w :: "'a::len word"
  by (rule unsigned_less)

section \<open>Lists\<close>

text \<open>The last \<open>n\<close> elements of a list: what a bounded ring buffer keeps of its history.\<close>

definition last_n :: "nat \<Rightarrow> 'a list \<Rightarrow> 'a list" where
  "last_n n xs = drop (length xs - n) xs"

lemma length_last_n [simp]: "length (last_n n xs) = min n (length xs)"
  by (simp add: last_n_def)

lemma last_n_snoc:
  "0 < n \<Longrightarrow> last_n n (xs @ [x]) =
     (if length (last_n n xs) = n then tl (last_n n xs) else last_n n xs) @ [x]"
proof (cases "length xs < n")
  case True
  then show ?thesis by (auto simp: last_n_def)
next
  case False
  assume "0 < n"
  with False have "length (xs @ [x]) - n = Suc (length xs - n)" by simp
  with False \<open>0 < n\<close> show ?thesis
    by (simp add: last_n_def drop_Suc tl_drop)
qed

lemma find_SomeD: "List.find P xs = Some x \<Longrightarrow> x \<in> set xs \<and> P x"
  by (metis find_Some_iff nth_mem)

lemma find_NoneD: "List.find P xs = None \<Longrightarrow> x \<in> set xs \<Longrightarrow> \<not> P x"
  by (simp add: find_None_iff)

text \<open>\<open>iter_mut().find(p)\<close> followed by an update of what it found.\<close>

fun update_first :: "('a \<Rightarrow> bool) \<Rightarrow> ('a \<Rightarrow> 'a) \<Rightarrow> 'a list \<Rightarrow> 'a list" where
  "update_first p f [] = []"
| "update_first p f (x # xs) = (if p x then f x # xs else x # update_first p f xs)"

lemma length_update_first [simp]: "length (update_first p f xs) = length xs"
  by (induction xs) auto

lemma map_update_first: "(\<And>x. g (f x) = g x) \<Longrightarrow> map g (update_first p f xs) = map g xs"
  by (induction xs) auto

lemma set_update_first: "x \<in> set (update_first p f xs) \<Longrightarrow> x \<in> set xs \<or> (\<exists>y\<in>set xs. x = f y)"
  by (induction xs) (auto split: if_splits)

section \<open>Strings\<close>

text \<open>\<open>str::trim\<close> on ASCII text, and \<open>str::parse::<u32>\<close>: an optional plus sign, then one or more
  decimal digits whose value fits.\<close>

definition is_ws :: "char \<Rightarrow> bool" where
  "is_ws ch = (let n = of_char ch :: nat in n = 32 \<or> 9 \<le> n \<and> n \<le> 13)"

definition trim :: "string \<Rightarrow> string" where
  "trim s = rev (dropWhile is_ws (rev (dropWhile is_ws s)))"

definition is_digit :: "char \<Rightarrow> bool" where
  "is_digit ch = (let n = of_char ch :: nat in 48 \<le> n \<and> n \<le> 57)"

definition digits_value :: "string \<Rightarrow> nat" where
  "digits_value s = foldl (\<lambda>acc ch. acc * 10 + (of_char ch - 48)) 0 s"

definition parse_u32 :: "string \<Rightarrow> u32 option" where
  "parse_u32 s =
     (let d = (case s of ch # rest \<Rightarrow> if ch = CHR ''+'' then rest else s | [] \<Rightarrow> s)
      in if d \<noteq> [] \<and> list_all is_digit d \<and> digits_value d \<le> u32_max then Some (of_nat (digits_value d)) else None)"

text \<open>\<open>to_lowercase\<close> on ASCII text, \<open>contains\<close>, the decimal \<open>Display\<close> of an unsigned integer, and
  \<open>join\<close>.\<close>

definition to_lower :: "char \<Rightarrow> char" where
  "to_lower ch = (let n = of_char ch :: nat in if 65 \<le> n \<and> n \<le> 90 then char_of (n + 32) else ch)"

primrec str_contains :: "string \<Rightarrow> string \<Rightarrow> bool" where
  "str_contains [] pat = (pat = [])"
| "str_contains (ch # cs) pat = (take (length pat) (ch # cs) = pat \<or> str_contains cs pat)"

fun show_nat :: "nat \<Rightarrow> string" where
  "show_nat n = (if n < 10 then [char_of (48 + n)] else show_nat (n div 10) @ [char_of (48 + n mod 10)])"

declare show_nat.simps [simp del]

fun str_join :: "string \<Rightarrow> string list \<Rightarrow> string" where
  "str_join sep [] = []"
| "str_join sep [s] = s"
| "str_join sep (s # ss) = s @ sep @ str_join sep ss"

lemma str_contains_append: "str_contains s pat \<Longrightarrow> str_contains (p @ s) pat"
  by (induction p) auto

section \<open>Runs of a step function\<close>

text \<open>
  Components are called in any order by the event loop; a run is a sequence of calls, and the
  outputs are what the calls return, in order.
\<close>

fun run_steps :: "('s \<Rightarrow> 'e \<Rightarrow> 's \<times> 'o) \<Rightarrow> 's \<Rightarrow> 'e list \<Rightarrow> 's \<times> 'o list" where
  "run_steps step s [] = (s, [])"
| "run_steps step s (e # es) =
     (let (s', out) = step s e; (s'', outs) = run_steps step s' es in (s'', out # outs))"

abbreviation final_state :: "('s \<Rightarrow> 'e \<Rightarrow> 's \<times> 'o) \<Rightarrow> 's \<Rightarrow> 'e list \<Rightarrow> 's" where
  "final_state step s es \<equiv> fst (run_steps step s es)"

abbreviation outputs :: "('s \<Rightarrow> 'e \<Rightarrow> 's \<times> 'o) \<Rightarrow> 's \<Rightarrow> 'e list \<Rightarrow> 'o list" where
  "outputs step s es \<equiv> snd (run_steps step s es)"

lemma final_state_Cons [simp]: "final_state step s (e # es) = final_state step (fst (step s e)) es"
  by (simp add: case_prod_beta Let_def)

lemma outputs_Cons [simp]:
  "outputs step s (e # es) = snd (step s e) # outputs step (fst (step s e)) es"
  by (simp add: case_prod_beta Let_def)

declare run_steps.simps(2) [simp del]

lemma final_state_append [simp]:
  "final_state step s (es @ fs) = final_state step (final_state step s es) fs"
  by (induction es arbitrary: s) simp_all

lemma outputs_append [simp]:
  "outputs step s (es @ fs) = outputs step s es @ outputs step (final_state step s es) fs"
  by (induction es arbitrary: s) simp_all

lemma length_outputs [simp]: "length (outputs step s es) = length es"
  by (induction es arbitrary: s) simp_all

text \<open>An invariant that every step keeps holds after every run.\<close>

locale step_machine =
  fixes step :: "'s \<Rightarrow> 'e \<Rightarrow> 's \<times> 'o" and ok :: "'e \<Rightarrow> bool" and inv :: "'s \<Rightarrow> bool"
  assumes step_inv: "inv s \<Longrightarrow> ok e \<Longrightarrow> inv (fst (step s e))"
begin

lemma run_inv: "inv s \<Longrightarrow> list_all ok es \<Longrightarrow> inv (final_state step s es)"
  by (induction es arbitrary: s) (auto intro: step_inv)

end

text \<open>
  A ratchet: a level that no step lowers, and outputs that carry a level between the one before
  and the one after the step. Whatever the interleaving, the levels put out are sorted.
\<close>

locale ratchet_machine =
  fixes step :: "'s \<Rightarrow> 'e \<Rightarrow> 's \<times> 'o" and level :: "'s \<Rightarrow> 'a::linorder" and emits :: "'o \<Rightarrow> 'a option"
  assumes level_mono: "level s \<le> level (fst (step s e))"
    and emits_above: "emits (snd (step s e)) = Some a \<Longrightarrow> level s \<le> a"
    and emits_below: "emits (snd (step s e)) = Some a \<Longrightarrow> a \<le> level (fst (step s e))"
begin

lemma run_level_mono: "level s \<le> level (final_state step s es)"
proof (induction es arbitrary: s)
  case Nil
  then show ?case by simp
next
  case (Cons e es)
  have "level s \<le> level (fst (step s e))" by (rule level_mono)
  also have "\<dots> \<le> level (final_state step (fst (step s e)) es)" by (rule Cons.IH)
  finally show ?case by simp
qed

lemma run_emits_above:
  "a \<in> set (List.map_filter emits (outputs step s es)) \<Longrightarrow> level s \<le> a"
proof (induction es arbitrary: s)
  case Nil
  then show ?case by simp
next
  case (Cons e es)
  show ?case
  proof (cases "emits (snd (step s e)) = Some a")
    case True
    then show ?thesis by (rule emits_above)
  next
    case False
    with Cons.prems have "a \<in> set (List.map_filter emits (outputs step (fst (step s e)) es))"
      by (auto simp: map_filter_simps split: option.splits)
    then have "level (fst (step s e)) \<le> a" by (rule Cons.IH)
    with level_mono [of s e] show ?thesis by simp
  qed
qed

lemma run_emits_sorted: "sorted (List.map_filter emits (outputs step s es))"
proof (induction es arbitrary: s)
  case Nil
  then show ?case by simp
next
  case (Cons e es)
  show ?case
  proof (cases "emits (snd (step s e))")
    case None
    with Cons.IH show ?thesis by (simp add: map_filter_simps)
  next
    case (Some a)
    have "a \<le> b" if "b \<in> set (List.map_filter emits (outputs step (fst (step s e)) es))" for b
      using run_emits_above [OF that] emits_below [OF Some] by simp
    with Some Cons.IH show ?thesis by (simp add: map_filter_simps)
  qed
qed

end

text \<open>
  A delivery: things the state has taken on, those of them still due, and the things an output
  delivers. If every step only lets go of what it delivers, then after any run everything taken on
  is still due or was delivered during the run.
\<close>

locale delivery_machine =
  fixes step :: "'s \<Rightarrow> 'e \<Rightarrow> 's \<times> 'o" and taken :: "'s \<Rightarrow> 'a set" and due :: "'s \<Rightarrow> 'a set"
    and delivers :: "'o \<Rightarrow> 'a set"
  assumes lets_go: "taken (fst (step s e)) - due (fst (step s e)) \<subseteq> (taken s - due s) \<union> delivers (snd (step s e))"
begin

lemma run_delivers:
  "taken (final_state step s es) - due (final_state step s es) \<subseteq>
     (taken s - due s) \<union> (\<Union>out\<in>set (outputs step s es). delivers out)"
proof (induction es arbitrary: s)
  case (Cons e es)
  have "taken (final_state step (fst (step s e)) es) - due (final_state step (fst (step s e)) es) \<subseteq>
      (taken (fst (step s e)) - due (fst (step s e))) \<union>
      (\<Union>out\<in>set (outputs step (fst (step s e)) es). delivers out)"
    by (rule Cons.IH)
  with lets_go [of s e] show ?case by (simp add: Un_assoc) blast
qed simp

end

text \<open>
  A machine that hands out numbers: the level never falls, and a number handed out is at least the
  level before the step and below the level after it. No run then hands out a number twice, or a
  lower one after a higher one.
\<close>

locale issuing_machine = step_machine +
  fixes level :: "'a \<Rightarrow> 'd::linorder" and issues :: "'c \<Rightarrow> 'd option"
  assumes level_mono: "inv s \<Longrightarrow> ok e \<Longrightarrow> level s \<le> level (fst (step s e))"
    and issues_between: "inv s \<Longrightarrow> ok e \<Longrightarrow> issues (snd (step s e)) = Some n \<Longrightarrow> level s \<le> n \<and> n < level (fst (step s e))"
begin

lemma run_issues_above:
  "inv s \<Longrightarrow> list_all ok es \<Longrightarrow> n \<in> set (List.map_filter issues (outputs step s es)) \<Longrightarrow> level s \<le> n"
proof (induction es arbitrary: s)
  case (Cons e es)
  have inv: "inv (fst (step s e))" using Cons.prems by (auto intro: step_inv)
  show ?case
  proof (cases "issues (snd (step s e)) = Some n")
    case True
    with Cons.prems issues_between [of s e n] show ?thesis by simp
  next
    case False
    with Cons.prems have "n \<in> set (List.map_filter issues (outputs step (fst (step s e)) es))"
      by (auto simp: map_filter_simps split: option.splits)
    with Cons.IH [OF inv] Cons.prems level_mono [of s e] show ?thesis by force
  qed
qed simp

lemma run_issues_increasing:
  "inv s \<Longrightarrow> list_all ok es \<Longrightarrow> sorted_wrt (<) (List.map_filter issues (outputs step s es))"
proof (induction es arbitrary: s)
  case (Cons e es)
  have inv: "inv (fst (step s e))" using Cons.prems by (auto intro: step_inv)
  show ?case
  proof (cases "issues (snd (step s e))")
    case None
    with Cons.IH [OF inv] Cons.prems show ?thesis by (simp add: map_filter_simps)
  next
    case (Some n)
    have "n < k" if "k \<in> set (List.map_filter issues (outputs step (fst (step s e)) es))" for k
      using run_issues_above [OF inv _ that] issues_between [of s e n] Some Cons.prems by force
    with Some Cons.IH [OF inv] Cons.prems show ?thesis by (simp add: map_filter_simps)
  qed
qed simp

end

end
