(* ===== verification/Chain_Coordinator.thy ===== *)
theory Chain_Coordinator
  imports LIJ_Prelude
begin

text \<open>
  The single router of chain data into LDK (\<open>lij-core/src/chain_coordinator.rs\<close>). Every operation
  is a function from the coordinator's state to its new state and the action the caller applies to
  LDK after dropping the mutex; \<open>coord_step\<close> is one call, so a run is any interleaving of the
  bridge, the independent monitor, the boot path and the recovery callers. Logging is left out; the
  clock reading each call makes (\<open>now_ms\<close>, whole milliseconds) is an argument; transaction
  decoding and header hashing (the \<open>bitcoin\<close> crate) are the parameters \<open>deser\<close> and \<open>hdr_hash\<close>.
\<close>

section \<open>Data\<close>

datatype chain_source = CooperativeBridge | IndependentEsplora | Local | Hydrated

record block_header =
  hdr_version :: u32
  hdr_prev_blockhash :: block_hash
  hdr_merkle_root :: hash256
  hdr_time :: u32
  hdr_bits :: u32
  hdr_nonce :: u32

record confirmation_data =
  cd_txid :: txid
  cd_height :: u32
  cd_block_hash :: block_hash
  cd_tx_index :: u32
  cd_raw_tx :: bytes
  cd_source :: chain_source

record bridge_confirmation =
  bc_txid :: txid
  bc_height :: u32
  bc_block_hash :: block_hash
  bc_tx_index :: u32
  bc_raw_tx :: bytes
  bc_block_header :: block_header
  bc_confirmations :: u32

record independent_confirmation =
  ic_txid :: txid
  ic_height :: u32
  ic_block_hash :: block_hash
  ic_tx_index :: u32
  ic_raw_tx :: bytes
  ic_block_header :: block_header
  ic_reason :: string

datatype tx_status = Confirmed u32 | Unconfirmed | NotFound

datatype chain_event =
    EvBestBlockRatchetDropped string u32 u32
  | EvHydrated nat
  | EvBridgeTipAdvanced u32 u32 block_hash
  | EvBridgeTipStaleDropped u32 u32
  | EvBridgeConfirmation txid u32 u32
  | EvBridgeBlockHeader u32
  | EvIndependentTipObserved u32 block_hash bool
  | EvIndependentTxStatusObserved txid tx_status bool
  | EvIndependentConfirmation txid u32 string
  | EvAdminForceUnconfirm txid string
  | EvWatchTxRegistered txid
  | EvWatchOutputRegistered txid u32

datatype 'tx pending_ldk_action =
    NoAction
  | TransactionsConfirmed block_header "(u32 \<times> 'tx) list" u32
  | BestBlockUpdated block_header u32
  | TransactionUnconfirmed txid

record coordinator =
  tip_height :: u32
  tip_hash :: block_hash
  confirmed_txs :: "txid \<rightharpoonup> confirmation_data"
  watched_txs :: "txid \<rightharpoonup> script_buf"
  watched_outputs :: "txid \<times> u32 \<rightharpoonup> script_buf"
  last_bridge_update :: "int option"
  last_independent_update :: "int option"
  bridge_observed_tip :: "(u32 \<times> block_hash) option"
  ldk_best_floor :: "u32 option"
  event_log :: "chain_event list"

section \<open>Applying an action to LDK\<close>

datatype ldk_target = ChainMonitor | ChannelManager | OutputSweeper

text \<open>The calls of the \<open>Confirm\<close> trait, one per target, in the order \<open>apply\<close> makes them.\<close>

definition apply_targets :: "bool \<Rightarrow> ldk_target list" where
  "apply_targets has_sweeper = [ChainMonitor, ChannelManager] @ (if has_sweeper then [OutputSweeper] else [])"

fun apply_action :: "'tx pending_ldk_action \<Rightarrow> bool \<Rightarrow> (ldk_target \<times> 'tx pending_ldk_action) list" where
  "apply_action NoAction has_sweeper = []"
| "apply_action (TransactionsConfirmed hdr txdata h) has_sweeper =
     map (\<lambda>t. (t, TransactionsConfirmed hdr txdata h)) (apply_targets has_sweeper)"
| "apply_action (BestBlockUpdated hdr h) has_sweeper =
     map (\<lambda>t. (t, BestBlockUpdated hdr h)) (apply_targets has_sweeper)"
| "apply_action (TransactionUnconfirmed txid) has_sweeper =
     map (\<lambda>t. (t, TransactionUnconfirmed txid)) (apply_targets has_sweeper)"

fun action_is_none :: "'tx pending_ldk_action \<Rightarrow> bool" where
  "action_is_none NoAction = True"
| "action_is_none _ = False"

section \<open>Operations\<close>

definition MAX_EVENT_LOG_SIZE :: nat where
  "MAX_EVENT_LOG_SIZE = 256"

definition new_coordinator :: "u32 \<Rightarrow> block_hash \<Rightarrow> coordinator" where
  "new_coordinator h hash =
     \<lparr>tip_height = h, tip_hash = hash, confirmed_txs = Map.empty, watched_txs = Map.empty,
      watched_outputs = Map.empty, last_bridge_update = None, last_independent_update = None,
      bridge_observed_tip = None, ldk_best_floor = None, event_log = []\<rparr>"

definition push_event :: "chain_event \<Rightarrow> coordinator \<Rightarrow> coordinator" where
  "push_event ev c =
     (let log = (if length (event_log c) = MAX_EVENT_LOG_SIZE then tl (event_log c) else event_log c)
      in c\<lparr>event_log := log @ [ev]\<rparr>)"

definition hydrated_data :: "txid \<times> u32 \<times> u32 \<Rightarrow> confirmation_data" where
  "hydrated_data ch = (case ch of (txid, height, tx_index) \<Rightarrow>
     \<lparr>cd_txid = txid, cd_height = height, cd_block_hash = 0, cd_tx_index = tx_index,
      cd_raw_tx = [], cd_source = Hydrated\<rparr>)"

definition hydrate_from_channels :: "coordinator \<Rightarrow> (txid \<times> u32 \<times> u32) list \<Rightarrow> coordinator" where
  "hydrate_from_channels c channels =
     push_event (EvHydrated (length channels))
       (c\<lparr>confirmed_txs := foldl (\<lambda>m ch. m(fst ch \<mapsto> hydrated_data ch)) (confirmed_txs c) channels\<rparr>)"

definition emit_best_block ::
  "coordinator \<Rightarrow> string \<Rightarrow> block_header \<Rightarrow> u32 \<Rightarrow> coordinator \<times> 'tx pending_ldk_action" where
  "emit_best_block c source header height =
     (let floor = (case ldk_best_floor c of None \<Rightarrow> 0 | Some f \<Rightarrow> f)
      in if height < floor
         then (push_event (EvBestBlockRatchetDropped source height floor) c, NoAction)
         else (c\<lparr>ldk_best_floor := Some height\<rparr>, BestBlockUpdated header height))"

definition ingest_bridge_tip ::
  "int \<Rightarrow> coordinator \<Rightarrow> u32 \<Rightarrow> block_hash \<Rightarrow> block_header \<Rightarrow> coordinator \<times> 'tx pending_ldk_action" where
  "ingest_bridge_tip now c height hash header =
     (let c = c\<lparr>last_bridge_update := Some now\<rparr>
      in if height \<le> tip_height c
         then (push_event (EvBridgeTipStaleDropped height (tip_height c)) c, NoAction)
         else let from_height = tip_height c;
                  c = c\<lparr>tip_height := height, tip_hash := hash\<rparr>;
                  c = push_event (EvBridgeTipAdvanced from_height height hash) c
              in emit_best_block c ''bridge_tip'' header height)"

definition ingest_bridge_conf ::
  "(bytes \<Rightarrow> 'tx option) \<Rightarrow> int \<Rightarrow> coordinator \<Rightarrow> bridge_confirmation \<Rightarrow> coordinator \<times> 'tx pending_ldk_action" where
  "ingest_bridge_conf deser now c conf =
     (let c = c\<lparr>last_bridge_update := Some now\<rparr>;
          data = \<lparr>cd_txid = bc_txid conf, cd_height = bc_height conf, cd_block_hash = bc_block_hash conf,
                  cd_tx_index = bc_tx_index conf, cd_raw_tx = bc_raw_tx conf, cd_source = CooperativeBridge\<rparr>;
          c = c\<lparr>confirmed_txs := (confirmed_txs c)(bc_txid conf \<mapsto> data)\<rparr>;
          c = push_event (EvBridgeConfirmation (bc_txid conf) (bc_height conf) (bc_tx_index conf)) c
      in case deser (bc_raw_tx conf) of
           None \<Rightarrow> (c, NoAction)
         | Some tx \<Rightarrow> (c, TransactionsConfirmed (bc_block_header conf) [(bc_tx_index conf, tx)] (bc_height conf)))"

definition ingest_bridge_block_header ::
  "(block_header \<Rightarrow> block_hash) \<Rightarrow> int \<Rightarrow> coordinator \<Rightarrow> block_header \<Rightarrow> u32 \<Rightarrow> coordinator \<times> 'tx pending_ldk_action" where
  "ingest_bridge_block_header hdr_hash now c header height =
     (let c = push_event (EvBridgeBlockHeader height) (c\<lparr>last_bridge_update := Some now\<rparr>)
      in if height \<le> tip_height c then (c, NoAction)
         else emit_best_block (c\<lparr>tip_height := height, tip_hash := hdr_hash header\<rparr>)
                ''bridge_header'' header height)"

definition ingest_bridge_tip_observed :: "int \<Rightarrow> coordinator \<Rightarrow> u32 \<Rightarrow> block_hash \<Rightarrow> coordinator" where
  "ingest_bridge_tip_observed now c height hash =
     (let c = c\<lparr>last_bridge_update := Some now\<rparr>;
          prior_height = (case bridge_observed_tip c of None \<Rightarrow> 0 | Some (h, _) \<Rightarrow> h)
      in if height < prior_height then c else c\<lparr>bridge_observed_tip := Some (height, hash)\<rparr>)"

definition ingest_independent_tip :: "int \<Rightarrow> coordinator \<Rightarrow> u32 \<Rightarrow> block_hash \<Rightarrow> coordinator" where
  "ingest_independent_tip now c height hash =
     (let c = c\<lparr>last_independent_update := Some now\<rparr>;
          agrees = (case bridge_observed_tip c of
                      Some (bh, bhash) \<Rightarrow> height = bh \<and> hash = bhash | None \<Rightarrow> True)
      in push_event (EvIndependentTipObserved height hash agrees) c)"

definition seed_floor :: "coordinator \<Rightarrow> u32 \<Rightarrow> block_hash \<Rightarrow> coordinator" where
  "seed_floor c height hash =
     (let prior = (case bridge_observed_tip c of None \<Rightarrow> 0 | Some (h, _) \<Rightarrow> h);
          c = (if prior < height then c\<lparr>bridge_observed_tip := Some (height, hash)\<rparr> else c)
      in if (case ldk_best_floor c of None \<Rightarrow> True | Some f \<Rightarrow> f < height)
         then c\<lparr>ldk_best_floor := Some height\<rparr> else c)"

definition status_conflicts :: "confirmation_data option \<Rightarrow> tx_status \<Rightarrow> bool" where
  "status_conflicts known status =
     (case (known, status) of
        (Some _, Unconfirmed) \<Rightarrow> True
      | (Some _, NotFound) \<Rightarrow> True
      | (Some d, Confirmed h) \<Rightarrow> h \<noteq> cd_height d
      | _ \<Rightarrow> False)"

definition ingest_independent_tx_status :: "int \<Rightarrow> coordinator \<Rightarrow> txid \<Rightarrow> tx_status \<Rightarrow> coordinator" where
  "ingest_independent_tx_status now c txid status =
     (let c = c\<lparr>last_independent_update := Some now\<rparr>
      in push_event (EvIndependentTxStatusObserved txid status
           (status_conflicts (confirmed_txs c txid) status)) c)"

definition ingest_independent_confirmation ::
  "(bytes \<Rightarrow> 'tx option) \<Rightarrow> int \<Rightarrow> coordinator \<Rightarrow> independent_confirmation \<Rightarrow>
     coordinator \<times> 'tx pending_ldk_action" where
  "ingest_independent_confirmation deser now c conf =
     (let c = c\<lparr>last_independent_update := Some now\<rparr>
      in if (case confirmed_txs c (ic_txid conf) of
               Some existing \<Rightarrow> cd_height existing = ic_height conf | None \<Rightarrow> False)
         then (c, NoAction)
         else let data = \<lparr>cd_txid = ic_txid conf, cd_height = ic_height conf,
                          cd_block_hash = ic_block_hash conf, cd_tx_index = ic_tx_index conf,
                          cd_raw_tx = ic_raw_tx conf, cd_source = IndependentEsplora\<rparr>;
                  c = c\<lparr>confirmed_txs := (confirmed_txs c)(ic_txid conf \<mapsto> data)\<rparr>;
                  c = push_event (EvIndependentConfirmation (ic_txid conf) (ic_height conf) (ic_reason conf)) c
              in case deser (ic_raw_tx conf) of
                   None \<Rightarrow> (c, NoAction)
                 | Some tx \<Rightarrow> (c, TransactionsConfirmed (ic_block_header conf)
                                    [(ic_tx_index conf, tx)] (ic_height conf)))"

definition register_tx :: "coordinator \<Rightarrow> txid \<Rightarrow> script_buf \<Rightarrow> coordinator" where
  "register_tx c txid script =
     push_event (EvWatchTxRegistered txid) (c\<lparr>watched_txs := (watched_txs c)(txid \<mapsto> script)\<rparr>)"

definition register_output :: "coordinator \<Rightarrow> txid \<Rightarrow> u32 \<Rightarrow> script_buf \<Rightarrow> coordinator" where
  "register_output c txid vout script =
     push_event (EvWatchOutputRegistered txid vout)
       (c\<lparr>watched_outputs := (watched_outputs c)((txid, vout) \<mapsto> script)\<rparr>)"

definition force_unconfirm :: "coordinator \<Rightarrow> txid \<Rightarrow> string \<Rightarrow> coordinator \<times> 'tx pending_ldk_action" where
  "force_unconfirm c txid reason =
     (push_event (EvAdminForceUnconfirm txid reason)
        (c\<lparr>confirmed_txs := (confirmed_txs c)(txid := None)\<rparr>),
      TransactionUnconfirmed txid)"

section \<open>Diagnostics\<close>

record chain_state_snapshot =
  sn_tip_height :: u32
  sn_tip_hash :: block_hash
  sn_confirmed_tx_count :: nat
  sn_watched_tx_count :: nat
  sn_watched_output_count :: nat
  sn_last_bridge_update_secs_ago :: "nat option"
  sn_last_independent_update_secs_ago :: "nat option"
  sn_bridge_observed_tip :: "(u32 \<times> block_hash) option"

definition secs_ago :: "int \<Rightarrow> int \<Rightarrow> nat" where
  "secs_ago now t = nat (max 0 (now - t) div 1000)"

definition snapshot_state :: "int \<Rightarrow> coordinator \<Rightarrow> chain_state_snapshot" where
  "snapshot_state now c =
     \<lparr>sn_tip_height = tip_height c, sn_tip_hash = tip_hash c,
      sn_confirmed_tx_count = card (dom (confirmed_txs c)),
      sn_watched_tx_count = card (dom (watched_txs c)),
      sn_watched_output_count = card (dom (watched_outputs c)),
      sn_last_bridge_update_secs_ago = map_option (secs_ago now) (last_bridge_update c),
      sn_last_independent_update_secs_ago = map_option (secs_ago now) (last_independent_update c),
      sn_bridge_observed_tip = bridge_observed_tip c\<rparr>"

definition recent_events :: "coordinator \<Rightarrow> nat \<Rightarrow> chain_event list" where
  "recent_events c n = take (min n (length (event_log c))) (rev (event_log c))"

definition is_confirmed :: "coordinator \<Rightarrow> txid \<Rightarrow> bool" where
  "is_confirmed c txid = (confirmed_txs c txid \<noteq> None)"

section \<open>One call\<close>

text \<open>Every public method that changes the coordinator, with the clock reading it makes.\<close>

datatype coord_call =
    BridgeTip int u32 block_hash block_header
  | BridgeConf int bridge_confirmation
  | BridgeBlockHeader int block_header u32
  | BridgeTipObserved int u32 block_hash
  | IndependentTip int u32 block_hash
  | SeedFloor u32 block_hash
  | IndependentTxStatus int txid tx_status
  | IndependentConf int independent_confirmation
  | RegisterTx txid script_buf
  | RegisterOutput txid u32 script_buf
  | ForceUnconfirm txid string
  | HydrateFromChannels "(txid \<times> u32 \<times> u32) list"

fun coord_step ::
  "(bytes \<Rightarrow> 'tx option) \<Rightarrow> (block_header \<Rightarrow> block_hash) \<Rightarrow> coordinator \<Rightarrow> coord_call \<Rightarrow>
     coordinator \<times> 'tx pending_ldk_action" where
  "coord_step deser hh c (BridgeTip now h hash hdr) = ingest_bridge_tip now c h hash hdr"
| "coord_step deser hh c (BridgeConf now conf) = ingest_bridge_conf deser now c conf"
| "coord_step deser hh c (BridgeBlockHeader now hdr h) = ingest_bridge_block_header hh now c hdr h"
| "coord_step deser hh c (BridgeTipObserved now h hash) = (ingest_bridge_tip_observed now c h hash, NoAction)"
| "coord_step deser hh c (IndependentTip now h hash) = (ingest_independent_tip now c h hash, NoAction)"
| "coord_step deser hh c (SeedFloor h hash) = (seed_floor c h hash, NoAction)"
| "coord_step deser hh c (IndependentTxStatus now txid st) = (ingest_independent_tx_status now c txid st, NoAction)"
| "coord_step deser hh c (IndependentConf now conf) = ingest_independent_confirmation deser now c conf"
| "coord_step deser hh c (RegisterTx txid s) = (register_tx c txid s, NoAction)"
| "coord_step deser hh c (RegisterOutput txid v s) = (register_output c txid v s, NoAction)"
| "coord_step deser hh c (ForceUnconfirm txid r) = force_unconfirm c txid r"
| "coord_step deser hh c (HydrateFromChannels chs) = (hydrate_from_channels c chs, NoAction)"

section \<open>What the properties speak about\<close>

text \<open>The effective floor of the ratchet, and the height a best-block action carries.\<close>

definition best_floor :: "coordinator \<Rightarrow> u32" where
  "best_floor c = (case ldk_best_floor c of None \<Rightarrow> 0 | Some f \<Rightarrow> f)"

fun best_block_height :: "'tx pending_ldk_action \<Rightarrow> u32 option" where
  "best_block_height (BestBlockUpdated hdr h) = Some h"
| "best_block_height _ = None"

fun verify_only :: "coord_call \<Rightarrow> bool" where
  "verify_only (BridgeTipObserved now h hash) = True"
| "verify_only (IndependentTip now h hash) = True"
| "verify_only (IndependentTxStatus now txid st) = True"
| "verify_only _ = False"

text \<open>
  The events each call records, as a specification of the flight recorder: what an unbounded log
  would append.
\<close>

definition ratchet_events :: "coordinator \<Rightarrow> string \<Rightarrow> u32 \<Rightarrow> chain_event list" where
  "ratchet_events c source h =
     (if h < best_floor c then [EvBestBlockRatchetDropped source h (best_floor c)] else [])"

fun events_of :: "coordinator \<Rightarrow> coord_call \<Rightarrow> chain_event list" where
  "events_of c (BridgeTip now h hash hdr) =
     (if h \<le> tip_height c then [EvBridgeTipStaleDropped h (tip_height c)]
      else EvBridgeTipAdvanced (tip_height c) h hash # ratchet_events c ''bridge_tip'' h)"
| "events_of c (BridgeConf now conf) =
     [EvBridgeConfirmation (bc_txid conf) (bc_height conf) (bc_tx_index conf)]"
| "events_of c (BridgeBlockHeader now hdr h) =
     EvBridgeBlockHeader h # (if h \<le> tip_height c then [] else ratchet_events c ''bridge_header'' h)"
| "events_of c (BridgeTipObserved now h hash) = []"
| "events_of c (IndependentTip now h hash) =
     [EvIndependentTipObserved h hash
        (bridge_observed_tip c = None \<or> Some (h, hash) = bridge_observed_tip c)]"
| "events_of c (SeedFloor h hash) = []"
| "events_of c (IndependentTxStatus now txid st) =
     [EvIndependentTxStatusObserved txid st (status_conflicts (confirmed_txs c txid) st)]"
| "events_of c (IndependentConf now conf) =
     (if map_option cd_height (confirmed_txs c (ic_txid conf)) = Some (ic_height conf) then []
      else [EvIndependentConfirmation (ic_txid conf) (ic_height conf) (ic_reason conf)])"
| "events_of c (RegisterTx txid s) = [EvWatchTxRegistered txid]"
| "events_of c (RegisterOutput txid v s) = [EvWatchOutputRegistered txid v]"
| "events_of c (ForceUnconfirm txid r) = [EvAdminForceUnconfirm txid r]"
| "events_of c (HydrateFromChannels chs) = [EvHydrated (length chs)]"

fun history :: "(bytes \<Rightarrow> 'tx option) \<Rightarrow> (block_header \<Rightarrow> block_hash) \<Rightarrow> coordinator \<Rightarrow> coord_call list \<Rightarrow>
     chain_event list" where
  "history deser hh c [] = []"
| "history deser hh c (e # es) = events_of c e @ history deser hh (fst (coord_step deser hh c e)) es"

section \<open>Lemmas\<close>

lemmas coord_defs = ingest_bridge_tip_def ingest_bridge_conf_def ingest_bridge_block_header_def
  ingest_bridge_tip_observed_def ingest_independent_tip_def seed_floor_def
  ingest_independent_tx_status_def ingest_independent_confirmation_def register_tx_def
  register_output_def force_unconfirm_def hydrate_from_channels_def emit_best_block_def

lemma push_event_frame [simp]:
  "tip_height (push_event ev c) = tip_height c"
  "tip_hash (push_event ev c) = tip_hash c"
  "confirmed_txs (push_event ev c) = confirmed_txs c"
  "watched_txs (push_event ev c) = watched_txs c"
  "watched_outputs (push_event ev c) = watched_outputs c"
  "bridge_observed_tip (push_event ev c) = bridge_observed_tip c"
  "ldk_best_floor (push_event ev c) = ldk_best_floor c"
  by (simp_all add: push_event_def Let_def)

lemma best_floor_frame [simp]:
  "best_floor (push_event ev c) = best_floor c"
  "best_floor (c\<lparr>tip_height := h\<rparr>) = best_floor c"
  "best_floor (c\<lparr>tip_hash := hash\<rparr>) = best_floor c"
  "best_floor (c\<lparr>confirmed_txs := m\<rparr>) = best_floor c"
  "best_floor (c\<lparr>watched_txs := w\<rparr>) = best_floor c"
  "best_floor (c\<lparr>watched_outputs := wo\<rparr>) = best_floor c"
  "best_floor (c\<lparr>last_bridge_update := b\<rparr>) = best_floor c"
  "best_floor (c\<lparr>last_independent_update := i\<rparr>) = best_floor c"
  "best_floor (c\<lparr>bridge_observed_tip := t\<rparr>) = best_floor c"
  "best_floor (c\<lparr>ldk_best_floor := Some h\<rparr>) = h"
  by (simp_all add: best_floor_def)

lemma emit_best_block_eq:
  "emit_best_block c source header h =
     (if h < best_floor c
      then (push_event (EvBestBlockRatchetDropped source h (best_floor c)) c, NoAction)
      else (c\<lparr>ldk_best_floor := Some h\<rparr>, BestBlockUpdated header h))"
  by (simp add: emit_best_block_def best_floor_def Let_def)

text \<open>
  The two lanes that mint best-block actions, characterised: the action is minted exactly for a
  height above the lane's tip and not below the floor.
\<close>

lemma bridge_tip_emits:
  "snd (ingest_bridge_tip now c h hash hdr) =
     (if tip_height c < h \<and> best_floor c \<le> h then BestBlockUpdated hdr h else NoAction)"
  by (auto simp: ingest_bridge_tip_def Let_def emit_best_block_eq)

lemma bridge_header_emits:
  "snd (ingest_bridge_block_header hh now c hdr h) =
     (if tip_height c < h \<and> best_floor c \<le> h then BestBlockUpdated hdr h else NoAction)"
  by (auto simp: ingest_bridge_block_header_def Let_def emit_best_block_eq)

lemma bridge_tip_state [simp]:
  "tip_height (fst (ingest_bridge_tip now c h hash hdr)) = max (tip_height c) h"
  "confirmed_txs (fst (ingest_bridge_tip now c h hash hdr)) = confirmed_txs c"
  "best_floor (fst (ingest_bridge_tip now c h hash hdr)) =
     (if tip_height c < h then max (best_floor c) h else best_floor c)"
  by (auto simp: ingest_bridge_tip_def Let_def emit_best_block_eq max_def)

lemma bridge_header_state [simp]:
  "tip_height (fst (ingest_bridge_block_header hh now c hdr h)) = max (tip_height c) h"
  "confirmed_txs (fst (ingest_bridge_block_header hh now c hdr h)) = confirmed_txs c"
  "best_floor (fst (ingest_bridge_block_header hh now c hdr h)) =
     (if tip_height c < h then max (best_floor c) h else best_floor c)"
  by (auto simp: ingest_bridge_block_header_def Let_def emit_best_block_eq max_def)

lemma bridge_conf_state [simp]:
  "best_floor (fst (ingest_bridge_conf deser now c conf)) = best_floor c"
  "dom (confirmed_txs (fst (ingest_bridge_conf deser now c conf))) =
     insert (bc_txid conf) (dom (confirmed_txs c))"
  by (auto simp: ingest_bridge_conf_def Let_def split: option.splits)

lemma independent_conf_state [simp]:
  "best_floor (fst (ingest_independent_confirmation deser now c conf)) = best_floor c"
  "dom (confirmed_txs (fst (ingest_independent_confirmation deser now c conf))) =
     insert (ic_txid conf) (dom (confirmed_txs c))"
  by (auto simp: ingest_independent_confirmation_def Let_def split: option.splits if_splits)

lemma best_floor_seed [simp]: "best_floor (seed_floor c h hash) = max (best_floor c) h"
  by (auto simp: seed_floor_def Let_def best_floor_def max_def split: option.splits)

lemma dom_hydrate_fold:
  "dom (foldl (\<lambda>m ch. m(fst ch \<mapsto> hydrated_data ch)) m chs) = dom m \<union> fst ` set chs"
  by (induction chs arbitrary: m) auto

lemma coord_step_floor_mono: "best_floor c \<le> best_floor (fst (coord_step deser hh c e))"
  by (cases e)
     (simp_all add: ingest_bridge_tip_observed_def ingest_independent_tip_def
        ingest_independent_tx_status_def register_tx_def register_output_def force_unconfirm_def
        hydrate_from_channels_def Let_def)

lemma coord_step_best_block:
  "best_block_height (snd (coord_step deser hh c e)) = Some h \<Longrightarrow>
     best_floor c \<le> h \<and> h \<le> best_floor (fst (coord_step deser hh c e))"
  by (cases e)
     (auto simp: bridge_tip_emits bridge_header_emits ingest_bridge_conf_def
        ingest_independent_confirmation_def force_unconfirm_def Let_def
        split: if_splits option.splits)

text \<open>The ratchet contract, discharged for the coordinator.\<close>

interpretation ratchet: ratchet_machine "coord_step deser hh" best_floor best_block_height
  for deser :: "bytes \<Rightarrow> 'tx option" and hh
  by unfold_locales (auto intro: coord_step_floor_mono dest: coord_step_best_block)

lemma coord_step_unconfirms:
  "snd (coord_step deser hh c e) = TransactionUnconfirmed txid \<Longrightarrow> \<exists>r. e = ForceUnconfirm txid r"
  by (cases e)
     (auto simp: bridge_tip_emits bridge_header_emits ingest_bridge_conf_def
        ingest_independent_confirmation_def force_unconfirm_def Let_def
        split: if_splits option.splits)

text \<open>The confirmed set after one call: it grows, except for the one txid an admin call names.\<close>

fun unconfirms :: "txid \<Rightarrow> coord_call \<Rightarrow> bool" where
  "unconfirms txid (ForceUnconfirm t r) = (t = txid)"
| "unconfirms txid _ = False"

lemma is_confirmed_dom: "is_confirmed c txid = (txid \<in> dom (confirmed_txs c))"
  by (auto simp: is_confirmed_def)

lemma coord_step_confirmed:
  "is_confirmed c txid \<Longrightarrow> \<not> unconfirms txid e \<Longrightarrow> is_confirmed (fst (coord_step deser hh c e)) txid"
  unfolding is_confirmed_dom
  by (cases e)
     (auto simp del: domIff simp: ingest_bridge_tip_observed_def ingest_independent_tip_def
        ingest_independent_tx_status_def register_tx_def register_output_def force_unconfirm_def
        hydrate_from_channels_def dom_hydrate_fold seed_floor_def Let_def)

interpretation stays: step_machine "coord_step deser hh" "\<lambda>e. \<not> unconfirms txid e" "\<lambda>c. is_confirmed c txid"
  for deser :: "bytes \<Rightarrow> 'tx option" and hh txid
  by unfold_locales (rule coord_step_confirmed)

text \<open>The ring buffer: one push keeps the last \<open>MAX_EVENT_LOG_SIZE\<close> events.\<close>

lemma push_event_log:
  "event_log c = last_n MAX_EVENT_LOG_SIZE evs \<Longrightarrow>
     event_log (push_event ev c) = last_n MAX_EVENT_LOG_SIZE (evs @ [ev])"
  by (simp add: push_event_def Let_def last_n_snoc MAX_EVENT_LOG_SIZE_def)

lemma coord_step_log:
  assumes "event_log c = last_n MAX_EVENT_LOG_SIZE evs"
  shows "event_log (fst (coord_step deser hh c e)) = last_n MAX_EVENT_LOG_SIZE (evs @ events_of c e)"
proof -
  have two: "event_log (push_event ev' (push_event ev c')) = last_n MAX_EVENT_LOG_SIZE (evs @ [ev, ev'])"
    if "event_log c' = last_n MAX_EVENT_LOG_SIZE evs" for c' ev ev'
    using push_event_log [OF push_event_log [OF that]] by simp
  show ?thesis
    using assms
    by (cases e)
       (auto simp: coord_defs Let_def push_event_log best_floor_def ratchet_events_def
          two [unfolded best_floor_def] split: option.splits if_splits intro!: push_event_log two)
qed

lemma run_log:
  "event_log c = last_n MAX_EVENT_LOG_SIZE evs \<Longrightarrow>
     event_log (final_state (coord_step deser hh) c es) =
       last_n MAX_EVENT_LOG_SIZE (evs @ history deser hh c es)"
proof (induction es arbitrary: c evs)
  case Nil
  then show ?case by simp
next
  case (Cons e es)
  from Cons.IH [OF coord_step_log [OF Cons.prems, of deser hh e]] show ?case by simp
qed

section \<open>Properties\<close>

text \<open>C14: whatever the interleaving of the tip lane, the header lane, boot seeding and every other
  call, the heights of the best-block actions handed to LDK never go down and none is below the
  floor the run started from (module invariant 3).\<close>

theorem best_block_ratchet:
  "sorted (List.map_filter best_block_height (outputs (coord_step deser hh) c calls)) \<and>
   list_all (\<lambda>h. best_floor c \<le> h)
     (List.map_filter best_block_height (outputs (coord_step deser hh) c calls)) \<and>
   best_floor c \<le> best_floor (final_state (coord_step deser hh) c calls)"
  using ratchet.run_emits_sorted ratchet.run_emits_above ratchet.run_level_mono
  by (auto simp: list_all_iff)

text \<open>C15: LDK is told to unconfirm a transaction only as the answer to an explicit
  \<open>force_unconfirm\<close> of that transaction (module invariant 2).\<close>

theorem unconfirm_only_by_admin:
  assumes "TransactionUnconfirmed txid \<in> set (outputs (coord_step deser hh) c calls)"
  shows "\<exists>r. ForceUnconfirm txid r \<in> set calls"
  using assms
proof (induction calls arbitrary: c)
  case Nil
  then show ?case by simp
next
  case (Cons e es)
  then show ?case by (auto dest: coord_step_unconfirms [OF sym])
qed

theorem unconfirm_only_by_admin_witness:
  "\<exists>r. ForceUnconfirm 7 r \<in> set [RegisterTx 7 [], ForceUnconfirm 7 ''reorg'']"
  by (rule unconfirm_only_by_admin [of 7 "\<lambda>b. Some b" "\<lambda>h. 0" "new_coordinator 0 0"])
     (simp add: force_unconfirm_def)

text \<open>C16: a transaction that is confirmed stays confirmed through any sequence of calls that does
  not force-unconfirm it; in particular no independent observation removes it (module invariant 4).\<close>

theorem confirmed_until_admin:
  assumes "is_confirmed c txid" and "list_all (\<lambda>e. \<not> unconfirms txid e) calls"
  shows "is_confirmed (final_state (coord_step deser hh) c calls) txid"
  using assms by (rule stays.run_inv)

theorem confirmed_until_admin_witness:
  "is_confirmed (final_state (coord_step (\<lambda>b. Some b) (\<lambda>h. 0))
     (hydrate_from_channels (new_coordinator 0 0) [(7, 100, 1)])
     [IndependentTxStatus 5 7 NotFound, ForceUnconfirm 8 ''other'', IndependentTxStatus 6 7 Unconfirmed]) 7"
  by (rule confirmed_until_admin)
     (simp_all add: is_confirmed_def hydrate_from_channels_def)

text \<open>C17: the verify-only entry points (an observed tip of either path, an observed transaction
  status) hand nothing to LDK and change neither the tip, the confirmed set, the watch lists nor
  the ratchet floor (module invariants 1 and 5).\<close>

theorem verify_only_never_acts:
  assumes "verify_only e"
  shows "snd (coord_step deser hh c e) = NoAction \<and>
    (let c' = fst (coord_step deser hh c e)
     in tip_height c' = tip_height c \<and> tip_hash c' = tip_hash c \<and> confirmed_txs c' = confirmed_txs c \<and>
        watched_txs c' = watched_txs c \<and> watched_outputs c' = watched_outputs c \<and>
        ldk_best_floor c' = ldk_best_floor c)"
  using assms
  by (cases e) (simp_all add: ingest_bridge_tip_observed_def ingest_independent_tip_def
      ingest_independent_tx_status_def Let_def)

theorem verify_only_never_acts_witness:
  "snd (coord_step (\<lambda>b. Some b) (\<lambda>h. 0) (new_coordinator 3 4) (IndependentTxStatus 1 7 NotFound)) = NoAction"
  using verify_only_never_acts [of "IndependentTxStatus 1 7 NotFound" "\<lambda>b. Some b" "\<lambda>h. 0" "new_coordinator 3 4"]
  by simp

text \<open>The flight recorder holds exactly the most recent 256 events of the whole history, in
  order, whatever the calls.\<close>

theorem event_log_is_recent_history:
  "event_log (final_state (coord_step deser hh) (new_coordinator h hash) calls) =
     last_n MAX_EVENT_LOG_SIZE (history deser hh (new_coordinator h hash) calls)"
  using run_log [of "new_coordinator h hash" "[]"] by (simp add: new_coordinator_def last_n_def)

text \<open>Once a lane has handed LDK a best block at some height, no later tip or header at that
  same height reaches LDK, so the replacement block of a same-height reorganisation is not
  propagated by either lane.\<close>

theorem same_height_tip_not_forwarded:
  assumes "snd (ingest_bridge_tip now c h hash hdr) = BestBlockUpdated hdr h"
  shows "snd (ingest_bridge_tip now' (fst (ingest_bridge_tip now c h hash hdr)) h hash' hdr') = NoAction \<and>
    snd (ingest_bridge_block_header hh now' (fst (ingest_bridge_tip now c h hash hdr)) hdr' h) = NoAction"
  by (simp add: bridge_tip_emits bridge_header_emits)

theorem same_height_tip_not_forwarded_witness:
  "\<exists>hdr c'. c' = fst (ingest_bridge_tip 0 (new_coordinator 99 1) 100 2 hdr) \<and>
     snd (ingest_bridge_tip 0 (new_coordinator 99 1) 100 2 hdr) = BestBlockUpdated hdr 100 \<and>
     snd (ingest_bridge_tip 1 c' 100 3 hdr) = NoAction"
proof -
  have e: "snd (ingest_bridge_tip 0 (new_coordinator 99 1) 100 2 hdr) = BestBlockUpdated hdr 100" for hdr
    by (simp add: bridge_tip_emits new_coordinator_def best_floor_def)
  show ?thesis using same_height_tip_not_forwarded [OF e] e by blast
qed



end
