(* ===== verification/Coin_Select.thy ===== *)
theory Coin_Select
  imports LIJ_Prelude "HOL-Library.Product_Lexorder"
begin

text \<open>
  The coin-picking rule of plain sends and self-funded channel opens (\<open>lij-core/src/coin_select.rs\<close>).
  \<open>need n\<close> is the total a transaction with \<open>n\<close> inputs must carry. Besides soundness, the lemmas show
  that largest-first is complete and picks the fewest inputs any covering choice could have.
\<close>

section \<open>The rule\<close>

text \<open>The comparators: value then index; and value descending then index.\<close>

definition asc_order :: "nat list \<Rightarrow> nat list \<Rightarrow> nat list" where
  "asc_order vals idx = sort_key (\<lambda>i. (vals ! i, i)) idx"

definition desc_order :: "nat list \<Rightarrow> nat list \<Rightarrow> nat list" where
  "desc_order vals idx = sort_key (\<lambda>i. (- int (vals ! i), i)) idx"

text \<open>The loop shared by both routines: push the next coin, stop when the total covers.\<close>

fun take_until_covered :: "nat list \<Rightarrow> (nat \<Rightarrow> nat) \<Rightarrow> nat list \<Rightarrow> nat list \<Rightarrow> nat \<Rightarrow> nat list option" where
  "take_until_covered vals need [] chosen tot = None"
| "take_until_covered vals need (i # order) chosen tot =
     (let chosen = chosen @ [i]; tot = sat_add64 tot (vals ! i)
      in if tot \<ge> need (length chosen) then Some chosen
         else take_until_covered vals need order chosen tot)"

definition pick :: "nat list \<Rightarrow> (nat \<Rightarrow> nat) \<Rightarrow> nat list option" where
  "pick vals need =
     (if vals = [] then None
      else let one = need 1; asc = asc_order vals [0..<length vals]
           in case List.find (\<lambda>i. vals ! i \<ge> one) asc of
                Some i \<Rightarrow> Some [i]
              | None \<Rightarrow> take_until_covered vals need (desc_order vals [0..<length vals]) [] 0)"

definition is_mixed :: "bool list \<Rightarrow> nat \<Rightarrow> bool" where
  "is_mixed mixed i = (i < length mixed \<and> mixed ! i)"

definition pick_mixed_last :: "nat list \<Rightarrow> bool list \<Rightarrow> (nat \<Rightarrow> nat) \<Rightarrow> nat list option" where
  "pick_mixed_last vals mixed need =
     (let plain = filter (\<lambda>i. \<not> is_mixed mixed i) [0..<length vals];
          plain_vals = map (\<lambda>i. vals ! i) plain
      in case pick plain_vals need of
           Some idx \<Rightarrow> Some (map (\<lambda>j. plain ! j) idx)
         | None \<Rightarrow>
             let mixed_asc = asc_order vals (filter (is_mixed mixed) [0..<length vals]);
                 one = need 1
             in case List.find (\<lambda>i. vals ! i \<ge> one) mixed_asc of
                  Some i \<Rightarrow> Some [i]
                | None \<Rightarrow> take_until_covered vals need
                            (desc_order vals plain @ desc_order vals mixed_asc) [] 0)"

section \<open>What the properties speak about\<close>

definition coin_sum :: "nat list \<Rightarrow> nat list \<Rightarrow> nat" where
  "coin_sum vals idx = sum_list (map (\<lambda>i. vals ! i) idx)"

text \<open>A choice of coins of \<open>allowed\<close> that a transaction could be built from.\<close>

definition covering :: "nat list \<Rightarrow> (nat \<Rightarrow> nat) \<Rightarrow> nat set \<Rightarrow> nat list \<Rightarrow> bool" where
  "covering vals need allowed idx \<longleftrightarrow>
     idx \<noteq> [] \<and> distinct idx \<and> set idx \<subseteq> allowed \<and> need (length idx) \<le> coin_sum vals idx"

section \<open>Lemmas\<close>

lemma set_asc_order [simp]: "set (asc_order vals idx) = set idx"
  by (simp add: asc_order_def)

lemma set_desc_order [simp]: "set (desc_order vals idx) = set idx"
  by (simp add: desc_order_def)

lemma distinct_desc_order [simp]: "distinct (desc_order vals idx) = distinct idx"
  by (simp add: desc_order_def)

lemma desc_order_sorted: "sorted_wrt (\<lambda>i j. vals ! j \<le> vals ! i) (desc_order vals idx)"
proof -
  have "sorted (map (\<lambda>i. (- int (vals ! i), i)) (desc_order vals idx))"
    by (simp add: desc_order_def)
  then have "sorted_wrt (\<lambda>i j. (- int (vals ! i), i) \<le> (- int (vals ! j), j)) (desc_order vals idx)"
    by (simp add: sorted_map)
  then show ?thesis
    by (rule sorted_wrt_mono_rel [rotated]) (auto simp: less_eq_prod_def)
qed

text \<open>Of a list in descending order, no \<open>k\<close> distinct coins are worth more than the first \<open>k\<close>.\<close>

lemma first_k_heaviest:
  assumes "sorted_wrt (\<lambda>i j. f j \<le> (f i :: nat)) order" and "distinct order" and "S \<subseteq> set order"
  shows "sum f S \<le> sum_list (map f (take (card S) order))"
  using assms
proof (induction order arbitrary: S)
  case Nil
  then show ?case by simp
next
  case (Cons x order)
  have fin: "finite S" using Cons.prems(3) finite_subset by blast
  show ?case
  proof (cases "S = {}")
    case True
    then show ?thesis by simp
  next
    case False
    define y where "y = (if x \<in> S then x else (SOME y. y \<in> S))"
    have yS: "y \<in> S" using False by (auto simp: y_def some_in_eq)
    have "y \<in> set (x # order)" using yS Cons.prems(3) by blast
    then have "f y \<le> f x" using Cons.prems(1) by auto
    have sub: "S - {y} \<subseteq> set order"
      using Cons.prems(3) by (auto simp: y_def)
    have "sum f (S - {y}) \<le> sum_list (map f (take (card (S - {y})) order))"
      using Cons.prems(1,2) sub by (intro Cons.IH) auto
    moreover have "card S = Suc (card (S - {y}))"
      using fin yS by (metis card_Suc_Diff1)
    moreover have "sum f S = f y + sum f (S - {y})"
      using fin yS by (simp add: sum.remove)
    ultimately show ?thesis using \<open>f y \<le> f x\<close> by simp
  qed
qed

text \<open>The loop's result is a prefix of the order that covers; \<open>None\<close> means no prefix does.\<close>

lemma take_until_covered_Some:
  assumes "take_until_covered vals need order chosen tot = Some idx"
    and "tot \<le> coin_sum vals chosen"
  shows "\<exists>k. 0 < k \<and> k \<le> length order \<and> idx = chosen @ take k order \<and>
    need (length idx) \<le> coin_sum vals idx"
  using assms
proof (induction order arbitrary: chosen tot)
  case Nil
  then show ?case by simp
next
  case (Cons i order)
  let ?c = "chosen @ [i]" and ?t = "sat_add64 tot (vals ! i)"
  have t: "?t \<le> coin_sum vals ?c"
    using Cons.prems(2) sat_add64_le [of tot "vals ! i"] by (simp add: coin_sum_def)
  show ?case
  proof (cases "need (length ?c) \<le> ?t")
    case True
    with Cons.prems(1) have "idx = chosen @ take 1 (i # order)" by (simp add: Let_def)
    moreover from True t have "need (length ?c) \<le> coin_sum vals ?c" by simp
    ultimately show ?thesis by (intro exI [of _ 1]) simp
  next
    case False
    with Cons.prems(1) have "take_until_covered vals need order ?c ?t = Some idx"
      by (simp add: Let_def)
    from Cons.IH [OF this t] obtain k where "0 < k" "k \<le> length order" "idx = ?c @ take k order"
      "need (length idx) \<le> coin_sum vals idx" by blast
    then show ?thesis by (intro exI [of _ "Suc k"]) simp
  qed
qed

text \<open>The total the loop has reached is the saturated sum of what it has chosen.\<close>

lemma take_until_covered_step:
  assumes "tot = min (coin_sum vals chosen) u64_max"
  shows "sat_add64 tot (vals ! i) = min (coin_sum vals (chosen @ [i])) u64_max"
  using assms by (auto simp: sat_add64_def coin_sum_def min_def)

lemma take_until_covered_first:
  assumes "tot = min (coin_sum vals chosen) u64_max" and "\<And>n. need n \<le> u64_max"
    and "0 < k" and "k \<le> length order"
    and "need (length chosen + k) \<le> coin_sum vals (chosen @ take k order)"
  shows "\<exists>idx. take_until_covered vals need order chosen tot = Some idx \<and> length idx \<le> length chosen + k"
  using assms
proof (induction order arbitrary: chosen tot k)
  case Nil
  then show ?case by simp
next
  case (Cons i order)
  let ?c = "chosen @ [i]" and ?t = "sat_add64 tot (vals ! i)"
  note t = take_until_covered_step [OF Cons.prems(1), of i]
  show ?case
  proof (cases "need (length ?c) \<le> ?t")
    case True
    with \<open>0 < k\<close> show ?thesis by (simp add: Let_def)
  next
    case False
    have "k \<noteq> 1"
    proof
      assume "k = 1"
      with Cons.prems(5) have "need (length ?c) \<le> coin_sum vals ?c" by simp
      with t Cons.prems(2) [of "length ?c"] False show False by simp
    qed
    with \<open>0 < k\<close> obtain k' where k': "k = Suc k'" "0 < k'" by (cases k) auto
    have "\<exists>idx. take_until_covered vals need order ?c ?t = Some idx \<and> length idx \<le> length ?c + k'"
      using Cons.prems k' by (intro Cons.IH [OF t]) auto
    with False k' show ?thesis by (simp add: Let_def)
  qed
qed

text \<open>
  Largest-first over a set of coins is complete and minimal: whatever covers, the loop returns a
  choice with at most as many inputs.
\<close>

lemma desc_loop_minimal:
  assumes "\<And>n. need n \<le> u64_max" and "distinct idx" and "covering vals need (set idx) S"
  shows "\<exists>r. take_until_covered vals need (desc_order vals idx) [] 0 = Some r \<and> length r \<le> length S"
proof -
  let ?o = "desc_order vals idx" and ?f = "\<lambda>i. vals ! i"
  from assms(3) have S: "S \<noteq> []" "distinct S" "set S \<subseteq> set idx" "need (length S) \<le> coin_sum vals S"
    by (auto simp: covering_def)
  have card: "card (set S) = length S" using S(2) by (rule distinct_card)
  have "sum ?f (set S) \<le> sum_list (map ?f (take (card (set S)) ?o))"
    using S(3) assms(2) by (intro first_k_heaviest desc_order_sorted) auto
  then have "coin_sum vals S \<le> coin_sum vals (take (length S) ?o)"
    using S(2) by (simp add: coin_sum_def sum_list_distinct_conv_sum_set card)
  with S(4) have "need (length [] + length S) \<le> coin_sum vals ([] @ take (length S) ?o)" by simp
  moreover have "length S \<le> length ?o"
  proof -
    have "length S \<le> card (set idx)" using S(3) card by (metis card_mono List.finite_set)
    also have "\<dots> \<le> length ?o" using assms(2) by (simp add: desc_order_def distinct_card)
    finally show ?thesis .
  qed
  ultimately show ?thesis
    using take_until_covered_first [of 0 vals "[]" need "length S" ?o] assms(1) S(1)
    by (auto simp: coin_sum_def)
qed

lemma desc_loop_sound:
  assumes "take_until_covered vals need order [] 0 = Some r" and "distinct order"
  shows "covering vals need (set order) r"
proof -
  from take_until_covered_Some [OF assms(1)] obtain k where
    "0 < k" "k \<le> length order" "r = take k order" "need (length r) \<le> coin_sum vals r"
    by (auto simp: coin_sum_def)
  then show ?thesis using assms(2) set_take_subset [of k order]
    by (auto simp: covering_def)
qed

lemma find_asc_smallest:
  assumes "List.find (\<lambda>i. one \<le> vals ! i) (asc_order vals idx) = Some i"
  shows "i \<in> set idx \<and> one \<le> vals ! i \<and>
    (\<forall>j\<in>set idx. one \<le> vals ! j \<longrightarrow> (vals ! i, i) \<le> (vals ! j, j))"
proof -
  let ?a = "asc_order vals idx"
  from assms obtain n where n: "n < length ?a" "one \<le> vals ! (?a ! n)" "i = ?a ! n"
    "\<forall>m<n. \<not> one \<le> vals ! (?a ! m)"
    by (auto simp: find_Some_iff)
  have "(vals ! i, i) \<le> (vals ! j, j)" if j: "j \<in> set idx" "one \<le> vals ! j" for j
  proof -
    from j(1) obtain m where m: "m < length ?a" "?a ! m = j"
      by (metis in_set_conv_nth set_asc_order)
    with n(4) j(2) have "n \<le> m" by (metis leI)
    have "sorted (map (\<lambda>i. (vals ! i, i)) ?a)" by (simp add: asc_order_def)
    from sorted_nth_mono [OF this \<open>n \<le> m\<close>] m n show ?thesis by simp
  qed
  moreover have "i \<in> set idx" using n by (metis nth_mem set_asc_order)
  ultimately show ?thesis using n by auto
qed

lemma coin_sum_singleton [simp]: "coin_sum vals [i] = vals ! i"
  by (simp add: coin_sum_def)

lemma covering_allowed_mono: "covering vals need A S \<Longrightarrow> A \<subseteq> B \<Longrightarrow> covering vals need B S"
  by (auto simp: covering_def)

lemma covering_length_pos: "covering vals need A S \<Longrightarrow> 1 \<le> length S"
  by (cases S) (auto simp: covering_def)

text \<open>\<open>pick\<close> decides whether some choice covers, and returns one with the fewest inputs.\<close>

lemma pick_Some_covering:
  "pick vals need = Some idx \<Longrightarrow> covering vals need {..<length vals} idx"
proof -
  assume a: "pick vals need = Some idx"
  show ?thesis
  proof (cases "List.find (\<lambda>i. need 1 \<le> vals ! i) (asc_order vals [0..<length vals])")
    case None
    with a have "take_until_covered vals need (desc_order vals [0..<length vals]) [] 0 = Some idx"
      by (simp add: pick_def Let_def split: if_splits)
    from desc_loop_sound [OF this] show ?thesis by (simp add: atLeast0LessThan)
  next
    case (Some i)
    with a find_asc_smallest [OF Some] show ?thesis
      by (auto simp: pick_def Let_def covering_def split: if_splits)
  qed
qed

lemma pick_minimal:
  assumes "\<And>n. need n \<le> u64_max" and "covering vals need {..<length vals} S"
  shows "\<exists>idx. pick vals need = Some idx \<and> length idx \<le> length S"
proof (cases "List.find (\<lambda>i. need 1 \<le> vals ! i) (asc_order vals [0..<length vals])")
  case None
  have "covering vals need (set [0..<length vals]) S" using assms(2) by (simp add: atLeast0LessThan)
  from desc_loop_minimal [OF assms(1) _ this] None assms(2) show ?thesis
    by (auto simp: pick_def Let_def covering_def)
next
  case (Some i)
  have "vals \<noteq> []" using assms(2) by (cases S) (auto simp: covering_def)
  with Some covering_length_pos [OF assms(2)] show ?thesis
    by (simp add: pick_def Let_def)
qed

text \<open>Picking among a sublist of the coins, seen from the whole list.\<close>

lemma coin_sum_via:
  "set js \<subseteq> {..<length plain} \<Longrightarrow>
     coin_sum (map (\<lambda>i. vals ! i) plain) js = coin_sum vals (map (\<lambda>j. plain ! j) js)"
  by (induction js) (auto simp: coin_sum_def)

lemma covering_via:
  assumes "distinct plain" and "covering (map (\<lambda>i. vals ! i) plain) need {..<length plain} js"
  shows "covering vals need (set plain) (map (\<lambda>j. plain ! j) js)"
  using assms
  by (auto simp: covering_def coin_sum_via distinct_map inj_on_def nth_eq_iff_index_eq subset_iff)

lemma covering_pull:
  assumes "covering vals need (set plain) S"
  shows "\<exists>js. covering (map (\<lambda>i. vals ! i) plain) need {..<length plain} js \<and> length js = length S"
proof -
  have "\<forall>x\<in>set S. \<exists>j. j < length plain \<and> plain ! j = x"
    using assms by (auto simp: covering_def subset_iff in_set_conv_nth)
  then obtain g where g: "\<And>x. x \<in> set S \<Longrightarrow> g x < length plain \<and> plain ! g x = x"
    by metis
  let ?js = "map g S"
  have img: "map (\<lambda>j. plain ! j) ?js = S" using g by (simp add: map_idI)
  have sub: "set ?js \<subseteq> {..<length plain}" using g by auto
  have "distinct ?js"
    using assms g by (auto simp: covering_def distinct_map intro!: inj_onI) metis
  with assms sub img coin_sum_via [OF sub, of vals] show ?thesis
    by (intro exI [of _ ?js]) (auto simp: covering_def)
qed

definition plain_coins :: "nat list \<Rightarrow> bool list \<Rightarrow> nat list" where
  "plain_coins vals mixed = filter (\<lambda>i. \<not> is_mixed mixed i) [0..<length vals]"

lemma set_plain_coins: "set (plain_coins vals mixed) = {i. i < length vals \<and> \<not> is_mixed mixed i}"
  by (auto simp: plain_coins_def)

lemma pick_plain_None:
  assumes "\<And>n. need n \<le> u64_max" and "pick (map (\<lambda>i. vals ! i) (plain_coins vals mixed)) need = None"
  shows "\<not> covering vals need (set (plain_coins vals mixed)) S"
proof
  assume "covering vals need (set (plain_coins vals mixed)) S"
  from covering_pull [OF this] obtain js where
    "covering (map (\<lambda>i. vals ! i) (plain_coins vals mixed)) need {..<length (plain_coins vals mixed)} js"
    by blast
  with pick_minimal [of need "map (\<lambda>i. vals ! i) (plain_coins vals mixed)" js] assms show False by auto
qed

lemma pick_mixed_last_cases:
  assumes "pick_mixed_last vals mixed need = Some idx"
  obtains (plain) js where "pick (map (\<lambda>i. vals ! i) (plain_coins vals mixed)) need = Some js"
      "idx = map (\<lambda>j. plain_coins vals mixed ! j) js"
  | (single) i where "pick (map (\<lambda>i. vals ! i) (plain_coins vals mixed)) need = None"
      "idx = [i]" "i < length vals" "is_mixed mixed i" "need 1 \<le> vals ! i"
  | (joint) "pick (map (\<lambda>i. vals ! i) (plain_coins vals mixed)) need = None"
      "\<forall>i<length vals. is_mixed mixed i \<longrightarrow> vals ! i < need 1"
      "take_until_covered vals need (desc_order vals (plain_coins vals mixed) @
         desc_order vals (asc_order vals (filter (is_mixed mixed) [0..<length vals]))) [] 0 = Some idx"
proof (cases "pick (map (\<lambda>i. vals ! i) (plain_coins vals mixed)) need")
  case (Some js)
  with assms that(1) show ?thesis by (simp add: pick_mixed_last_def plain_coins_def Let_def)
next
  case None
  let ?m = "filter (is_mixed mixed) [0..<length vals]"
  show ?thesis
  proof (cases "List.find (\<lambda>i. need 1 \<le> vals ! i) (asc_order vals ?m)")
    case (Some i)
    with assms None have "idx = [i]" by (simp add: pick_mixed_last_def plain_coins_def Let_def)
    with None find_asc_smallest [OF Some] that(2) show ?thesis by auto
  next
    case n2: None
    then have "\<forall>i<length vals. is_mixed mixed i \<longrightarrow> vals ! i < need 1"
      by (auto simp: find_None_iff)
    with assms None n2 that(3) show ?thesis by (simp add: pick_mixed_last_def plain_coins_def Let_def)
  qed
qed

lemma distinct_joint_order:
  "distinct (desc_order vals (plain_coins vals mixed) @
     desc_order vals (asc_order vals (filter (is_mixed mixed) [0..<length vals])))"
  by (auto simp: set_plain_coins plain_coins_def asc_order_def)

lemmas pick_eval = pick_mixed_last_def pick_def asc_order_def desc_order_def sat_add64_def
  u64_max_def is_mixed_def

section \<open>Properties\<close>

text \<open>C18: \<open>pick\<close> returns a choice of distinct coins that carries the amount and the fee for its own
  number of inputs, no covering choice has fewer inputs, and it returns nothing only when no choice
  of coins covers at all.\<close>

theorem pick_fewest_inputs:
  assumes "\<And>n. need n \<le> u64_max"
  shows "case pick vals need of
      Some idx \<Rightarrow> covering vals need {..<length vals} idx \<and>
        (\<forall>S. covering vals need {..<length vals} S \<longrightarrow> length idx \<le> length S)
    | None \<Rightarrow> (\<forall>S. \<not> covering vals need {..<length vals} S)"
proof (cases "pick vals need")
  case None
  then show ?thesis using pick_minimal [of need vals, OF assms] by auto
next
  case (Some idx)
  then show ?thesis using pick_minimal [of need vals, OF assms] pick_Some_covering [OF Some] by fastforce
qed

theorem pick_fewest_inputs_witness:
  "pick [8000, 5000, 2000] (\<lambda>n. min (12900 + 100 * n) u64_max) = Some [0, 1, 2] \<and>
   \<not> covering [8000, 5000, 2000] (\<lambda>n. min (12900 + 100 * n) u64_max)
      {..<length [8000, 5000, 2000 :: nat]} [1, 0]"
proof -
  have e: "pick [8000, 5000, 2000] (\<lambda>n. min (12900 + 100 * n) u64_max) = Some [0, 1, 2]"
    by (simp add: pick_eval)
  have "case pick [8000, 5000, 2000] (\<lambda>n. min (12900 + 100 * n) u64_max) of
      Some idx \<Rightarrow> covering [8000, 5000, 2000] (\<lambda>n. min (12900 + 100 * n) u64_max)
          {..<length [8000, 5000, 2000 :: nat]} idx \<and>
        (\<forall>S. covering [8000, 5000, 2000] (\<lambda>n. min (12900 + 100 * n) u64_max)
          {..<length [8000, 5000, 2000 :: nat]} S \<longrightarrow> length idx \<le> length S)
    | None \<Rightarrow> (\<forall>S. \<not> covering [8000, 5000, 2000] (\<lambda>n. min (12900 + 100 * n) u64_max)
          {..<length [8000, 5000, 2000 :: nat]} S)"
    by (rule pick_fewest_inputs) simp
  then show ?thesis unfolding e option.case by fastforce
qed

text \<open>When some coin covers the one-input target alone, \<open>pick\<close> returns exactly one coin: the
  smallest that covers, and among equal values the first in the caller's order.\<close>

theorem pick_smallest_single:
  assumes "j < length vals" and "need 1 \<le> vals ! j"
  shows "\<exists>i. pick vals need = Some [i] \<and> i < length vals \<and> need 1 \<le> vals ! i \<and>
    (\<forall>m<length vals. need 1 \<le> vals ! m \<longrightarrow> vals ! i < vals ! m \<or> vals ! i = vals ! m \<and> i \<le> m)"
proof -
  have "List.find (\<lambda>i. need 1 \<le> vals ! i) (asc_order vals [0..<length vals]) \<noteq> None"
    using assms by (auto simp: find_None_iff)
  then obtain i where i: "List.find (\<lambda>i. need 1 \<le> vals ! i) (asc_order vals [0..<length vals]) = Some i"
    by blast
  from find_asc_smallest [OF i] i assms(1) show ?thesis
    by (intro exI [of _ i]) (auto simp: pick_def Let_def less_eq_prod_def le_less)
qed

theorem pick_smallest_single_witness:
  "\<exists>i. pick [50000, 2000, 5000, 8000] (\<lambda>n. 3000 + 100 * n) = Some [i] \<and> 3100 \<le> [50000, 2000, 5000, 8000 :: nat] ! i"
  using pick_smallest_single [of 2 "[50000, 2000, 5000, 8000]" "\<lambda>n. 3000 + 100 * n"] by auto

text \<open>C19: the automatic pick spends a mixed coin only when the other coins cannot cover by
  themselves; a mixed coin that covers is spent alone; and when mixed coins are joined with others,
  every other coin is already in. The choice always covers.\<close>

theorem mixed_coins_last:
  assumes "\<And>n. need n \<le> u64_max" and "pick_mixed_last vals mixed need = Some idx"
  shows "covering vals need {..<length vals} idx \<and>
    ((\<exists>i\<in>set idx. is_mixed mixed i) \<longrightarrow>
       (\<forall>S. \<not> covering vals need {i. i < length vals \<and> \<not> is_mixed mixed i} S) \<and>
       ((\<exists>i. idx = [i]) \<or>
        {i. i < length vals \<and> \<not> is_mixed mixed i} \<subseteq> set idx \<and>
        (\<forall>i<length vals. is_mixed mixed i \<longrightarrow> vals ! i < need 1)))"
  using assms(2)
proof (cases rule: pick_mixed_last_cases)
  case (plain js)
  then have "covering vals need (set (plain_coins vals mixed)) idx"
    using covering_via [OF _ pick_Some_covering [of "map (\<lambda>i. vals ! i) (plain_coins vals mixed)" need js, simplified]]
    by (simp add: plain_coins_def)
  then show ?thesis
    by (auto simp: covering_def set_plain_coins)
next
  case (single i)
  then show ?thesis
    using pick_plain_None [OF assms(1) single(1)] by (auto simp: covering_def set_plain_coins)
next
  case joint
  let ?p = "desc_order vals (plain_coins vals mixed)"
  let ?m = "desc_order vals (asc_order vals (filter (is_mixed mixed) [0..<length vals]))"
  have cov: "covering vals need (set (?p @ ?m)) idx"
    using desc_loop_sound [OF joint(3) distinct_joint_order] .
  from take_until_covered_Some [OF joint(3)] obtain k where k: "idx = take k (?p @ ?m)"
    by (auto simp: coin_sum_def)
  have "set (plain_coins vals mixed) \<subseteq> set idx" if "i \<in> set idx" "is_mixed mixed i" for i
  proof -
    have "i \<notin> set ?p" using that(2) by (simp add: set_plain_coins)
    with that(1) k have "length ?p < k"
      by (metis append.right_neutral diff_is_0_eq in_set_takeD leI take_append take_eq_Nil)
    with k show ?thesis by simp
  qed
  moreover have "covering vals need {..<length vals} idx"
    using cov by (rule covering_allowed_mono) (auto simp: set_plain_coins)
  ultimately show ?thesis
    using joint(2) pick_plain_None [OF assms(1) joint(1)] by (auto simp: set_plain_coins)
qed

theorem mixed_coins_last_witness:
  "pick_mixed_last [50000, 2000, 5000, 80000, 30000] [False, False, False, True, True]
     (\<lambda>n. min (100000 + 100 * n) u64_max) = Some [0, 2, 1, 3] \<and>
   (\<forall>S. \<not> covering [50000, 2000, 5000, 80000, 30000] (\<lambda>n. min (100000 + 100 * n) u64_max)
      {i. i < length [50000, 2000, 5000, 80000, 30000 :: nat] \<and>
          \<not> is_mixed [False, False, False, True, True] i} S)"
proof -
  have e: "pick_mixed_last [50000, 2000, 5000, 80000, 30000] [False, False, False, True, True]
     (\<lambda>n. min (100000 + 100 * n) u64_max) = Some [0, 2, 1, 3]" by (simp add: pick_eval)
  have m: "is_mixed [False, False, False, True, True] 3" by (simp add: is_mixed_def)
  show ?thesis using mixed_coins_last [OF _ e] e m by simp
qed

text \<open>The mixed-last pick is not complete: because it puts every other coin in first, dust
  that costs more in fees than it is worth can make it give up although two mixed coins cover.\<close>

theorem mixed_last_gives_up_on_dust:
  "\<exists>vals mixed amount S. pick_mixed_last vals mixed (\<lambda>n. amount + 100 * n) = None \<and>
     covering vals (\<lambda>n. amount + 100 * n) {..<length vals} S"
proof -
  let ?v = "[1, 1, 1, 1, 5000, 5000]" and ?m = "[False, False, False, False, True, True]"
  have "pick_mixed_last ?v ?m (\<lambda>n. 9500 + 100 * n) = None" by (simp add: pick_eval)
  moreover have "covering ?v (\<lambda>n. 9500 + 100 * n) {..<length ?v} [4, 5]"
    by (simp add: covering_def coin_sum_def)
  ultimately show ?thesis
    by (intro exI [of _ ?v] exI [of _ ?m] exI [of _ 9500] exI [of _ "[4, 5]"]) simp
qed

end
