(* ===== verification/Fee_Estimator.thy ===== *)
theory Fee_Estimator
  imports LIJ_Prelude
begin

text \<open>
  The fee estimator LDK reads (\<open>lij-core/src/fee_estimator.rs\<close>): the quote schedule built from one fast
  rate, the cache of the cooperative, independent and persisted quotes, and the soft escalation flag.
  Rates are \<open>u32\<close> satoshis per 1000 weight as natural numbers. A source is \<open>None\<close> when it is not
  wired, else whether it is available and what its fetch answers.
\<close>

section \<open>Quotes\<close>

definition FEE_FLOOR_SAT_PER_KW :: nat where "FEE_FLOOR_SAT_PER_KW = 253"
definition COOP_CLOSE_ACCEPT_FLOOR_SAT_PER_KW :: nat where "COOP_CLOSE_ACCEPT_FLOOR_SAT_PER_KW = 25"
definition ESCALATION_THRESHOLD_PCT :: nat where "ESCALATION_THRESHOLD_PCT = 25"

record fee_quote =
  min_allowed_anchor_channel_remote :: nat
  min_allowed_non_anchor_channel_remote :: nat
  anchor_channel :: nat
  non_anchor_channel :: nat
  channel_close_minimum :: nat
  on_chain_sweep :: nat
  output_spending :: nat

datatype confirmation_target =
    MinAllowedAnchorChannelRemoteFee
  | MinAllowedNonAnchorChannelRemoteFee
  | AnchorChannelFee
  | NonAnchorChannelFee
  | ChannelCloseMinimum
  | UrgentOnChainSweep
  | MaximumFeeEstimate
  | OutputSpendingFee

definition kw :: "nat \<Rightarrow> nat" where
  "kw sat_per_vb = sat_mul32 sat_per_vb 250"

definition from_fast_sat_per_vb :: "nat \<Rightarrow> fee_quote" where
  "from_fast_sat_per_vb fast_sat_per_vb =
     (let fast_kw = kw fast_sat_per_vb
      in \<lparr>min_allowed_anchor_channel_remote = FEE_FLOOR_SAT_PER_KW,
          min_allowed_non_anchor_channel_remote = FEE_FLOOR_SAT_PER_KW,
          anchor_channel = max (kw (fast_sat_per_vb div 4)) FEE_FLOOR_SAT_PER_KW,
          non_anchor_channel = max (kw fast_sat_per_vb) FEE_FLOOR_SAT_PER_KW,
          channel_close_minimum = COOP_CLOSE_ACCEPT_FLOOR_SAT_PER_KW,
          on_chain_sweep = max fast_kw FEE_FLOOR_SAT_PER_KW,
          output_spending = max (sat_mul32 fast_kw 3) FEE_FLOOR_SAT_PER_KW\<rparr>)"

definition from_fast_sat_per_kw :: "nat \<Rightarrow> fee_quote" where
  "from_fast_sat_per_kw fast_kw =
     (let fast_kw = max fast_kw FEE_FLOOR_SAT_PER_KW
      in \<lparr>min_allowed_anchor_channel_remote = FEE_FLOOR_SAT_PER_KW,
          min_allowed_non_anchor_channel_remote = FEE_FLOOR_SAT_PER_KW,
          anchor_channel = max (fast_kw div 4) FEE_FLOOR_SAT_PER_KW,
          non_anchor_channel = fast_kw,
          channel_close_minimum = COOP_CLOSE_ACCEPT_FLOOR_SAT_PER_KW,
          on_chain_sweep = fast_kw,
          output_spending = sat_mul32 fast_kw 3\<rparr>)"

definition floor_quote :: fee_quote where
  "floor_quote =
     \<lparr>min_allowed_anchor_channel_remote = FEE_FLOOR_SAT_PER_KW,
      min_allowed_non_anchor_channel_remote = FEE_FLOOR_SAT_PER_KW,
      anchor_channel = FEE_FLOOR_SAT_PER_KW,
      non_anchor_channel = FEE_FLOOR_SAT_PER_KW,
      channel_close_minimum = COOP_CLOSE_ACCEPT_FLOOR_SAT_PER_KW,
      on_chain_sweep = FEE_FLOOR_SAT_PER_KW,
      output_spending = FEE_FLOOR_SAT_PER_KW\<rparr>"

fun quote_get :: "fee_quote \<Rightarrow> confirmation_target \<Rightarrow> nat" where
  "quote_get q MinAllowedAnchorChannelRemoteFee = min_allowed_anchor_channel_remote q"
| "quote_get q MinAllowedNonAnchorChannelRemoteFee = min_allowed_non_anchor_channel_remote q"
| "quote_get q AnchorChannelFee = anchor_channel q"
| "quote_get q NonAnchorChannelFee = non_anchor_channel q"
| "quote_get q ChannelCloseMinimum = channel_close_minimum q"
| "quote_get q UrgentOnChainSweep = on_chain_sweep q"
| "quote_get q MaximumFeeEstimate = on_chain_sweep q"
| "quote_get q OutputSpendingFee = output_spending q"

section \<open>The cache\<close>

record cached_quotes =
  cq_cooperative :: "fee_quote option"
  cq_independent :: "fee_quote option"
  cooperative_refreshed_at_tick :: "nat option"
  independent_refreshed_at_tick :: "nat option"
  cq_persisted :: "fee_quote option"
  last_persist_snapshot :: "fee_quote option"
  soft_escalation_active :: bool

definition new_cached_quotes :: cached_quotes where
  "new_cached_quotes =
     \<lparr>cq_cooperative = None, cq_independent = None, cooperative_refreshed_at_tick = None,
      independent_refreshed_at_tick = None, cq_persisted = None, last_persist_snapshot = None,
      soft_escalation_active = False\<rparr>"

definition reevaluate_escalation :: "cached_quotes \<Rightarrow> cached_quotes" where
  "reevaluate_escalation cache =
     (case (cq_cooperative cache, cq_independent cache) of
        (Some coop, Some indep) \<Rightarrow>
          let coop_rate = non_anchor_channel coop; indep_rate = non_anchor_channel indep
          in if coop_rate = 0 then cache\<lparr>soft_escalation_active := False\<rparr>
             else if coop_rate > indep_rate
             then let pct_above = ((coop_rate - indep_rate) * 100) div coop_rate
                  in cache\<lparr>soft_escalation_active := (pct_above \<ge> ESCALATION_THRESHOLD_PCT)\<rparr>
             else cache\<lparr>soft_escalation_active := False\<rparr>
      | _ \<Rightarrow> cache\<lparr>soft_escalation_active := False\<rparr>)"

type_synonym fee_source = "(bool \<times> fee_quote lij_result) option"

definition refresh_cooperative :: "cached_quotes \<Rightarrow> fee_source \<Rightarrow> nat \<Rightarrow> cached_quotes \<times> unit lij_result" where
  "refresh_cooperative cache src current_tick =
     (case src of
        Some (True, Inr quote) \<Rightarrow>
          (reevaluate_escalation
             (cache\<lparr>cq_cooperative := Some quote, cooperative_refreshed_at_tick := Some current_tick\<rparr>), Inr ())
      | Some (True, Inl e) \<Rightarrow> (cache, Inl e)
      | _ \<Rightarrow> (cache, Inr ()))"

definition refresh_independent :: "cached_quotes \<Rightarrow> fee_source \<Rightarrow> nat \<Rightarrow> cached_quotes \<times> unit lij_result" where
  "refresh_independent cache src current_tick =
     (case src of
        Some (True, Inr quote) \<Rightarrow>
          (reevaluate_escalation
             (cache\<lparr>cq_independent := Some quote, independent_refreshed_at_tick := Some current_tick\<rparr>), Inr ())
      | Some (True, Inl e) \<Rightarrow> (cache, Inl e)
      | _ \<Rightarrow> (cache, Inr ()))"

definition force_refresh_independent :: "cached_quotes \<Rightarrow> fee_source \<Rightarrow> nat \<Rightarrow> cached_quotes \<times> unit lij_result" where
  "force_refresh_independent = refresh_independent"

definition seed_persisted :: "cached_quotes \<Rightarrow> fee_quote \<Rightarrow> cached_quotes" where
  "seed_persisted cache quote = cache\<lparr>cq_persisted := Some quote\<rparr>"

definition snapshot_if_changed :: "cached_quotes \<Rightarrow> cached_quotes \<times> fee_quote option" where
  "snapshot_if_changed cache =
     (case (case cq_cooperative cache of Some c \<Rightarrow> Some c | None \<Rightarrow> cq_independent cache) of
        None \<Rightarrow> (cache, None)
      | Some cur \<Rightarrow>
          if last_persist_snapshot cache = Some cur then (cache, None)
          else (cache\<lparr>last_persist_snapshot := Some cur\<rparr>, Some cur))"

definition fee_cooperative_age_ticks :: "cached_quotes \<Rightarrow> nat \<Rightarrow> nat option" where
  "fee_cooperative_age_ticks cache current_tick =
     map_option (\<lambda>t. current_tick - t) (cooperative_refreshed_at_tick cache)"

definition picker_summary :: "cached_quotes \<Rightarrow> nat \<times> string \<times> bool" where
  "picker_summary cache =
     (let (rate, src) =
        (case cq_cooperative cache of
           Some c \<Rightarrow> (quote_get c NonAnchorChannelFee, ''lsp'')
         | None \<Rightarrow>
             (case cq_independent cache of
                Some i \<Rightarrow> (quote_get i NonAnchorChannelFee, ''esplora'')
              | None \<Rightarrow>
                  (case cq_persisted cache of
                     Some s \<Rightarrow> (quote_get s NonAnchorChannelFee, ''seed'')
                   | None \<Rightarrow> (quote_get floor_quote NonAnchorChannelFee, ''floor''))))
      in (rate, src, soft_escalation_active cache))"

definition get_est_sat_per_1000_weight :: "cached_quotes \<Rightarrow> confirmation_target \<Rightarrow> nat" where
  "get_est_sat_per_1000_weight cache target =
     (case cq_cooperative cache of
        Some coop \<Rightarrow> quote_get coop target
      | None \<Rightarrow>
          (case cq_independent cache of
             Some indep \<Rightarrow> quote_get indep target
           | None \<Rightarrow>
               (case cq_persisted cache of
                  Some seed \<Rightarrow> quote_get seed target
                | None \<Rightarrow> quote_get floor_quote target)))"

section \<open>Calls\<close>

datatype fee_call =
    RefreshCooperative fee_source nat
  | RefreshIndependent fee_source nat
  | ForceRefreshIndependent fee_source nat
  | SeedPersisted fee_quote
  | SnapshotIfChanged

datatype fee_answer = RefreshResult "unit lij_result" | Persist "fee_quote option" | Done

fun fee_step :: "cached_quotes \<Rightarrow> fee_call \<Rightarrow> cached_quotes \<times> fee_answer" where
  "fee_step c (RefreshCooperative s t) = map_prod id RefreshResult (refresh_cooperative c s t)"
| "fee_step c (RefreshIndependent s t) = map_prod id RefreshResult (refresh_independent c s t)"
| "fee_step c (ForceRefreshIndependent s t) = map_prod id RefreshResult (force_refresh_independent c s t)"
| "fee_step c (SeedPersisted q) = (seed_persisted c q, Done)"
| "fee_step c SnapshotIfChanged = map_prod id Persist (snapshot_if_changed c)"

section \<open>What the properties speak about\<close>

text \<open>
  A quote in the range the schedule builders produce: everything LDK pays with is at least the relay
  floor and fits \<open>u32\<close>; the close floor is the accept floor.
\<close>

definition quote_ok :: "fee_quote \<Rightarrow> bool" where
  "quote_ok q \<longleftrightarrow>
     (\<forall>t. t \<noteq> ChannelCloseMinimum \<longrightarrow> FEE_FLOOR_SAT_PER_KW \<le> quote_get q t) \<and>
     channel_close_minimum q = COOP_CLOSE_ACCEPT_FLOOR_SAT_PER_KW \<and>
     (\<forall>t. quote_get q t \<le> u32_max)"

fun source_ok :: "fee_source \<Rightarrow> bool" where
  "source_ok (Some (av, Inr q)) = quote_ok q"
| "source_ok _ = True"

fun call_ok :: "fee_call \<Rightarrow> bool" where
  "call_ok (RefreshCooperative s t) = source_ok s"
| "call_ok (RefreshIndependent s t) = source_ok s"
| "call_ok (ForceRefreshIndependent s t) = source_ok s"
| "call_ok (SeedPersisted q) = quote_ok q"
| "call_ok SnapshotIfChanged = True"

definition cache_ok :: "cached_quotes \<Rightarrow> bool" where
  "cache_ok c \<longleftrightarrow> pred_option quote_ok (cq_cooperative c) \<and> pred_option quote_ok (cq_independent c) \<and>
     pred_option quote_ok (cq_persisted c)"

text \<open>The flag as a specification: both sources present and the independent rate at least 25% of the
  cooperative rate below it.\<close>

definition escalated :: "cached_quotes \<Rightarrow> bool" where
  "escalated c \<longleftrightarrow> (\<exists>q i. cq_cooperative c = Some q \<and> cq_independent c = Some i \<and>
     0 < non_anchor_channel q \<and> 4 * non_anchor_channel i \<le> 3 * non_anchor_channel q)"

definition flag_current :: "cached_quotes \<Rightarrow> bool" where
  "flag_current c \<longleftrightarrow> soft_escalation_active c = escalated c"

section \<open>Lemmas\<close>

lemmas fee_consts = FEE_FLOOR_SAT_PER_KW_def COOP_CLOSE_ACCEPT_FLOOR_SAT_PER_KW_def
  ESCALATION_THRESHOLD_PCT_def u32_max_def

lemma all_targets:
  "(\<forall>t. Q t) \<longleftrightarrow>
     Q MinAllowedAnchorChannelRemoteFee \<and> Q MinAllowedNonAnchorChannelRemoteFee \<and>
     Q AnchorChannelFee \<and> Q NonAnchorChannelFee \<and> Q ChannelCloseMinimum \<and>
     Q UrgentOnChainSweep \<and> Q MaximumFeeEstimate \<and> Q OutputSpendingFee" (is "?l = ?r")
proof
  assume ?r
  show ?l
  proof
    fix t
    from \<open>?r\<close> show "Q t" by (cases t) simp_all
  qed
qed simp

lemma quote_ok_iff:
  "quote_ok q \<longleftrightarrow>
     channel_close_minimum q = COOP_CLOSE_ACCEPT_FLOOR_SAT_PER_KW \<and>
     (\<forall>r\<in>{min_allowed_anchor_channel_remote q, min_allowed_non_anchor_channel_remote q,
           anchor_channel q, non_anchor_channel q, on_chain_sweep q, output_spending q}.
        FEE_FLOOR_SAT_PER_KW \<le> r \<and> r \<le> u32_max)"
  unfolding quote_ok_def all_targets by (auto simp: fee_consts)

lemma quote_ok_from_vb: "quote_ok (from_fast_sat_per_vb r)"
  by (simp add: quote_ok_iff from_fast_sat_per_vb_def Let_def kw_def sat_mul32_def fee_consts)

lemma quote_ok_from_kw: "r \<le> u32_max \<Longrightarrow> quote_ok (from_fast_sat_per_kw r)"
  by (auto simp: quote_ok_iff from_fast_sat_per_kw_def Let_def sat_mul32_def fee_consts)

lemma quote_ok_floor: "quote_ok floor_quote"
  by (simp add: quote_ok_iff floor_quote_def fee_consts)

lemma pct_at_least_quarter:
  "0 < (c::nat) \<Longrightarrow> i < c \<Longrightarrow> (25 \<le> (c - i) * 100 div c) = (4 * i \<le> 3 * c)"
  by (simp add: less_eq_div_iff_mult_less_eq) linarith

lemma reevaluate_fields [simp]:
  "cq_cooperative (reevaluate_escalation c) = cq_cooperative c"
  "cq_independent (reevaluate_escalation c) = cq_independent c"
  "cq_persisted (reevaluate_escalation c) = cq_persisted c"
  "last_persist_snapshot (reevaluate_escalation c) = last_persist_snapshot c"
  by (simp_all add: reevaluate_escalation_def Let_def split: option.splits)

lemma reevaluate_flag: "flag_current (reevaluate_escalation c)"
  unfolding flag_current_def escalated_def reevaluate_fields
  by (auto simp: reevaluate_escalation_def Let_def ESCALATION_THRESHOLD_PCT_def pct_at_least_quarter
      split: option.splits)

lemma flag_current_frame [simp]:
  "flag_current (c\<lparr>cq_persisted := q\<rparr>) = flag_current c"
  "flag_current (c\<lparr>last_persist_snapshot := q\<rparr>) = flag_current c"
  by (simp_all add: flag_current_def escalated_def)

lemma fee_step_flag: "flag_current c \<Longrightarrow> flag_current (fst (fee_step c e))"
  by (cases e)
     (auto simp: refresh_cooperative_def refresh_independent_def force_refresh_independent_def
        seed_persisted_def snapshot_if_changed_def reevaluate_flag
        split: option.splits prod.splits bool.splits sum.splits)

lemma fee_step_cache_ok: "cache_ok c \<Longrightarrow> call_ok e \<Longrightarrow> cache_ok (fst (fee_step c e))"
  by (cases e)
     (auto simp: cache_ok_def refresh_cooperative_def refresh_independent_def
        force_refresh_independent_def seed_persisted_def snapshot_if_changed_def
        split: option.splits prod.splits bool.splits sum.splits)

interpretation flag: step_machine fee_step "\<lambda>_. True" flag_current
  by unfold_locales (rule fee_step_flag)

interpretation floors: step_machine fee_step call_ok cache_ok
  by unfold_locales (rule fee_step_cache_ok)

text \<open>The quotes handed to the persister over a run.\<close>

fun persisted_quote :: "fee_answer \<Rightarrow> fee_quote option" where
  "persisted_quote (Persist (Some q)) = Some q"
| "persisted_quote _ = None"

lemma fee_step_snapshot:
  "(case persisted_quote (snd (fee_step c e)) of
      None \<Rightarrow> last_persist_snapshot (fst (fee_step c e)) = last_persist_snapshot c
    | Some q \<Rightarrow> last_persist_snapshot (fst (fee_step c e)) = Some q \<and> last_persist_snapshot c \<noteq> Some q)"
  by (cases e)
     (auto simp: refresh_cooperative_def refresh_independent_def force_refresh_independent_def
        seed_persisted_def snapshot_if_changed_def
        split: option.splits prod.splits bool.splits sum.splits)

lemma run_snapshots:
  "successively (\<noteq>) (case last_persist_snapshot c of
       None \<Rightarrow> List.map_filter persisted_quote (outputs fee_step c es)
     | Some q \<Rightarrow> q # List.map_filter persisted_quote (outputs fee_step c es))"
proof (induction es arbitrary: c)
  case Nil
  then show ?case by (simp split: option.splits)
next
  case (Cons e es)
  show ?case
    using Cons.IH [of "fst (fee_step c e)"] fee_step_snapshot [of c e]
    by (auto split: option.splits)
qed

lemma get_est_floor:
  "cache_ok c \<Longrightarrow> \<exists>q. quote_ok q \<and> (\<forall>t. get_est_sat_per_1000_weight c t = quote_get q t)"
  using quote_ok_floor
  by (cases "cq_cooperative c"; cases "cq_independent c"; cases "cq_persisted c")
     (auto simp: cache_ok_def get_est_sat_per_1000_weight_def)

lemma cache_ok_new: "cache_ok new_cached_quotes"
  by (simp add: cache_ok_def new_cached_quotes_def)

lemma run_flag:
  "soft_escalation_active (final_state fee_step new_cached_quotes calls) =
     escalated (final_state fee_step new_cached_quotes calls)"
proof -
  have "flag_current new_cached_quotes" by (simp add: flag_current_def escalated_def new_cached_quotes_def)
  from flag.run_inv [OF this, of calls] show ?thesis by (simp add: flag_current_def list_all_iff)
qed

section \<open>Properties\<close>




text \<open>An LSP quote 30 percent above the independent median does not set the flag, although the
  field's comment and the fee picker's say it is set above 25 percent.\<close>

theorem escalation_misses_thirty_percent:
  "\<exists>coop indep. 100 * non_anchor_channel coop = 130 * non_anchor_channel indep \<and>
     quote_ok coop \<and> quote_ok indep \<and>
     \<not> soft_escalation_active (final_state fee_step new_cached_quotes
         [RefreshIndependent (Some (True, Inr indep)) 0, RefreshCooperative (Some (True, Inr coop)) 1])"
proof -
  let ?c = "from_fast_sat_per_kw 1300" and ?i = "from_fast_sat_per_kw 1000"
  have "\<not> soft_escalation_active (final_state fee_step new_cached_quotes
         [RefreshIndependent (Some (True, Inr ?i)) 0, RefreshCooperative (Some (True, Inr ?c)) 1])"
    unfolding run_flag
    by (simp add: refresh_cooperative_def refresh_independent_def escalated_def from_fast_sat_per_kw_def fee_consts)
  then show ?thesis
    using quote_ok_from_kw [of 1300] quote_ok_from_kw [of 1000]
    by (intro exI [of _ ?c] exI [of _ ?i]) (simp add: from_fast_sat_per_kw_def fee_consts)
qed

text \<open>The rate reported as LDK's ceiling is below the rate reported for spending outputs, for
  every fast rate a source can send short of saturation.\<close>

theorem output_spending_above_maximum:
  assumes "r < u32_max"
  shows "quote_get (from_fast_sat_per_kw r) MaximumFeeEstimate < quote_get (from_fast_sat_per_kw r) OutputSpendingFee"
  using assms by (auto simp: from_fast_sat_per_kw_def Let_def sat_mul32_def fee_consts min_def max_def)

theorem output_spending_above_maximum_witness:
  "quote_get (from_fast_sat_per_kw 1000) MaximumFeeEstimate < quote_get (from_fast_sat_per_kw 1000) OutputSpendingFee"
  by (rule output_spending_above_maximum) (simp add: u32_max_def)

text \<open>The quotes handed to the persister never repeat: whatever happens in between, a quote is
  stored only when it differs from the last one stored; and the fee picker always shows exactly the
  rate LDK reads.\<close>

theorem fee_snapshots_never_repeat:
  "successively (\<noteq>) (List.map_filter persisted_quote (outputs fee_step new_cached_quotes calls)) \<and>
   fst (picker_summary c) = get_est_sat_per_1000_weight c NonAnchorChannelFee"
  using run_snapshots [of new_cached_quotes calls]
  by (auto simp: new_cached_quotes_def picker_summary_def get_est_sat_per_1000_weight_def split: option.splits)

end
