(* ===== verification/Independent_Quorum.thy ===== *)
theory Independent_Quorum
  imports Fee_Estimator
begin

text \<open>
  The wallet's own view of the chain through several Esplora explorers
  (\<open>lij-core/src/independent.rs\<close>): endpoint health, the rounds that ask every usable endpoint, the
  strict-majority tip height, the two-explorer coin check, fee quotes, broadcast, and the receive
  watch. An HTTP exchange is a function from the full address to its outcome; a round's schedule
  lists the endpoints in the order they answer, with the clock readings at the start and the end of
  each exchange. JSON decoding is a parameter.
\<close>

section \<open>Endpoint health\<close>

definition MAX_CONSECUTIVE_FAILURES :: u32 where "MAX_CONSECUTIVE_FAILURES = 3"
definition DEMOTED_RETRY_MS :: nat where "DEMOTED_RETRY_MS = 60000"
definition MAX_QUORUM_SIZE :: nat where "MAX_QUORUM_SIZE = 7"
definition FEE_TOLERANCE_PCT :: nat where "FEE_TOLERANCE_PCT = 25"
definition LATENCY_SAMPLE_COUNT :: nat where "LATENCY_SAMPLE_COUNT = 8"
definition OWN_WATCH_REST_MS :: nat where "OWN_WATCH_REST_MS = 60000"

record endpoint_health =
  ep_url :: string
  consecutive_failures :: u32
  ep_is_healthy :: bool
  ep_probed :: bool
  latency_samples :: "nat list"
  last_failure_ms :: nat

definition new_endpoint :: "string \<Rightarrow> endpoint_health" where
  "new_endpoint url =
     \<lparr>ep_url = url, consecutive_failures = 0, ep_is_healthy = True, ep_probed = False,
      latency_samples = [], last_failure_ms = 0\<rparr>"

definition record_success :: "endpoint_health \<Rightarrow> endpoint_health" where
  "record_success ep = ep\<lparr>consecutive_failures := 0, ep_is_healthy := True, ep_probed := True\<rparr>"

definition record_failure :: "nat \<Rightarrow> endpoint_health \<Rightarrow> endpoint_health" where
  "record_failure now ep =
     (let ep = ep\<lparr>consecutive_failures := consecutive_failures ep + 1, ep_probed := True,
                 last_failure_ms := now\<rparr>
      in if MAX_CONSECUTIVE_FAILURES \<le> consecutive_failures ep \<and> ep_is_healthy ep
         then ep\<lparr>ep_is_healthy := False\<rparr> else ep)"

fun pop_while_over :: "nat list \<Rightarrow> nat list" where
  "pop_while_over [] = []"
| "pop_while_over (x # xs) = (if LATENCY_SAMPLE_COUNT < length (x # xs) then pop_while_over xs else x # xs)"

definition record_latency_ms :: "nat \<Rightarrow> endpoint_health \<Rightarrow> endpoint_health" where
  "record_latency_ms ms ep = ep\<lparr>latency_samples := pop_while_over (latency_samples ep @ [ms])\<rparr>"

definition median_latency_ms :: "endpoint_health \<Rightarrow> nat option" where
  "median_latency_ms ep =
     (if latency_samples ep = [] then None
      else let samples = sort (latency_samples ep) in Some (samples ! (length samples div 2)))"

section \<open>The client\<close>

datatype quorum_state =
  Healthy | SlightDisagreement | SingleSource | NoQuorum | TotalDisagreement | InsufficientEndpoints

record watch_report =
  answered_by :: string
  own_set :: bool
  own_error :: "string option"
  own_resting :: bool
  at_ms :: nat

definition default_watch_report :: watch_report where
  "default_watch_report = \<lparr>answered_by = [], own_set = False, own_error = None, own_resting = False, at_ms = 0\<rparr>"

record client =
  endpoints :: "endpoint_health list"
  last_quorum_state :: quorum_state
  last_consensus_height :: "u32 option"
  next_watch :: u32
  own_watch_rest :: "string \<times> nat"
  last_watch :: watch_report

definition new_client :: "string list \<Rightarrow> client" where
  "new_client urls =
     \<lparr>endpoints = map new_endpoint urls, last_quorum_state = InsufficientEndpoints,
      last_consensus_height = None, next_watch = 0, own_watch_rest = ([], 0),
      last_watch = default_watch_report\<rparr>"

definition default_endpoints :: "string list" where
  "default_endpoints = [''https://blockstream.info/api'', ''https://mempool.space/api'',
     ''https://btcscan.org/api'', ''https://mempool.emzy.de/api'']"

definition add_endpoint :: "client \<Rightarrow> string \<Rightarrow> client \<times> unit lij_result" where
  "add_endpoint c url =
     (if list_ex (\<lambda>e. ep_url e = url) (endpoints c) then (c, Inr ())
      else if MAX_QUORUM_SIZE \<le> length (endpoints c)
      then (c, Inl (InvalidArgument ''endpoint count would exceed max''))
      else (c\<lparr>endpoints := endpoints c @ [new_endpoint url]\<rparr>, Inr ()))"

definition remove_endpoint :: "client \<Rightarrow> string \<Rightarrow> client" where
  "remove_endpoint c url = c\<lparr>endpoints := filter (\<lambda>e. ep_url e \<noteq> url) (endpoints c)\<rparr>"

definition endpoint_status :: "client \<Rightarrow> (string \<times> bool \<times> u32 \<times> nat option) list" where
  "endpoint_status c =
     map (\<lambda>e. (ep_url e, ep_is_healthy e, consecutive_failures e, median_latency_ms e)) (endpoints c)"

definition record_endpoint_latency :: "client \<Rightarrow> string \<Rightarrow> nat \<Rightarrow> client" where
  "record_endpoint_latency c url ms =
     c\<lparr>endpoints := update_first (\<lambda>e. ep_url e = url) (record_latency_ms ms) (endpoints c)\<rparr>"

definition healthy_count :: "client \<Rightarrow> nat" where
  "healthy_count c = length (filter (\<lambda>e. ep_is_healthy e \<and> ep_probed e) (endpoints c))"

definition set_endpoints :: "client \<Rightarrow> string list \<Rightarrow> client" where
  "set_endpoints c urls = (if urls = [] then c else c\<lparr>endpoints := map new_endpoint urls\<rparr>)"

definition set_quorum_state :: "client \<Rightarrow> quorum_state \<Rightarrow> client" where
  "set_quorum_state c st = (if last_quorum_state c \<noteq> st then c\<lparr>last_quorum_state := st\<rparr> else c)"

definition record_endpoint_result :: "nat \<Rightarrow> client \<Rightarrow> string \<Rightarrow> bool \<Rightarrow> client" where
  "record_endpoint_result now c url succeeded =
     (let c = c\<lparr>endpoints := update_first (\<lambda>e. ep_url e = url)
                  (\<lambda>e. if succeeded then record_success e else record_failure now e) (endpoints c)\<rparr>
      in if healthy_count c = 0 then set_quorum_state c InsufficientEndpoints else c)"

definition urls_to_ask :: "nat \<Rightarrow> client \<Rightarrow> string list" where
  "urls_to_ask now c =
     (let urls = map ep_url (filter (\<lambda>e. ep_is_healthy e \<or> DEMOTED_RETRY_MS \<le> now - last_failure_ms e)
                   (endpoints c))
      in if urls = [] then map ep_url (endpoints c) else urls)"

section \<open>A round\<close>

text \<open>One entry per endpoint asked: its base, and the clock before and after the exchange.\<close>

type_synonym schedule = "(string \<times> nat \<times> nat) list"

fun query_all_each ::
  "(string \<Rightarrow> 't lij_result) \<Rightarrow> (client \<Rightarrow> 'a \<Rightarrow> 't lij_result \<Rightarrow> client \<times> 'a) \<Rightarrow> client \<Rightarrow> 'a \<Rightarrow> schedule \<Rightarrow>
     client \<times> 'a \<times> (string \<times> 't lij_result) list" where
  "query_all_each mk on_each c a [] = (c, a, [])"
| "query_all_each mk on_each c a ((url, start_ms, end_ms) # sched) =
     (let res = mk url;
          elapsed_ms = end_ms - start_ms;
          c = record_endpoint_result end_ms c url (is_ok res);
          c = (if is_ok res then record_endpoint_latency c url elapsed_ms else c);
          (c, a) = on_each c a res;
          (c, a, results) = query_all_each mk on_each c a sched
      in (c, a, (url, res) # results))"

definition query_all ::
  "(string \<Rightarrow> 't lij_result) \<Rightarrow> client \<Rightarrow> schedule \<Rightarrow> client \<times> (string \<times> 't lij_result) list" where
  "query_all mk c sched =
     (let (c, _, results) = query_all_each mk (\<lambda>c a r. (c, a)) c () sched in (c, results))"

definition ok_values :: "(string \<times> 't lij_result) list \<Rightarrow> 't list" where
  "ok_values results = List.map_filter (\<lambda>(_, r). ok_value r) results"

section \<open>Majorities\<close>

datatype 't majority_result = Clear 't | EvenSplit | AllDifferent

definition strict_majority :: "'t list \<Rightarrow> 't majority_result" where
  "strict_majority vals =
     (if vals = [] then EvenSplit
      else let counts = map (\<lambda>v. (v, count_list vals v)) (remdups vals);
               (top, top_count) = foldl (\<lambda>best vc. if snd best < snd vc then vc else best) (hd counts) (tl counts)
           in if length vals < top_count * 2 then Clear top
              else if length counts = length vals then AllDifferent else EvenSplit)"

section \<open>The tip height and hash\<close>

datatype http_result = HttpErr string | HttpResp nat string

fun tip_height_answer :: "http_result \<Rightarrow> u32 lij_result" where
  "tip_height_answer (HttpErr e) = Inl (NetworkError e)"
| "tip_height_answer (HttpResp status body) =
     (if status \<noteq> 200 then Inl (LspError ''tip/height status'')
      else case parse_u32 (trim body) of
             None \<Rightarrow> Inl (LspError ''tip/height parse'') | Some h \<Rightarrow> Inr h)"

text \<open>The callback of a tip round: the first answer is reported early. The accumulator is the height
  reported to the cold-start hook, if any.\<close>

definition first_answer :: "client \<Rightarrow> u32 option \<Rightarrow> u32 lij_result \<Rightarrow> client \<times> u32 option" where
  "first_answer c reported res =
     (if reported \<noteq> None then (c, reported)
      else case res of
             Inl e \<Rightarrow> (c, reported)
           | Inr h \<Rightarrow>
               let c = (if last_quorum_state c \<in> {Healthy, SlightDisagreement, SingleSource} then c
                        else set_quorum_state c SingleSource);
                   c = (if last_consensus_height c = None then c\<lparr>last_consensus_height := Some h\<rparr> else c)
               in (c, Some h))"

definition dissenters :: "'t \<Rightarrow> (string \<times> 't lij_result) list \<Rightarrow> string list" where
  "dissenters v results = map fst (filter (\<lambda>(_, r). case r of Inr x \<Rightarrow> x \<noteq> v | Inl _ \<Rightarrow> False) results)"

definition tip_verdict ::
  "nat \<Rightarrow> client \<Rightarrow> (string \<times> u32 lij_result) list \<Rightarrow> client \<times> u32 lij_result" where
  "tip_verdict now c results =
     (let heights = ok_values results
      in if heights = []
         then (set_quorum_state c InsufficientEndpoints, Inl (LspError ''independent quorum: no successful responses''))
         else if length heights = 1
         then ((set_quorum_state c SingleSource)\<lparr>last_consensus_height := Some (hd heights)\<rparr>, Inr (hd heights))
         else case strict_majority heights of
                Clear v \<Rightarrow>
                  let ds = dissenters v results;
                      c = (if ds = [] then set_quorum_state c Healthy
                           else set_quorum_state
                                  (foldl (\<lambda>c url. record_endpoint_result now c url False) c ds) SlightDisagreement)
                  in (c\<lparr>last_consensus_height := Some v\<rparr>, Inr v)
              | EvenSplit \<Rightarrow> (set_quorum_state c NoQuorum, Inl (LspError ''independent quorum: no majority''))
              | AllDifferent \<Rightarrow>
                  (set_quorum_state c TotalDisagreement, Inl (LspError ''independent quorum: total disagreement'')))"

definition fetch_tip_height ::
  "(string \<Rightarrow> http_result) \<Rightarrow> nat \<Rightarrow> client \<Rightarrow> schedule \<Rightarrow> client \<times> u32 option \<times> u32 lij_result" where
  "fetch_tip_height http now c sched =
     (let (c, early, results) =
            query_all_each (\<lambda>url. tip_height_answer (http (url @ ''/blocks/tip/height''))) first_answer c None sched;
          (c, r) = tip_verdict now c results
      in (c, early, r))"

definition fetch_tip_hash ::
  "(string \<Rightarrow> block_hash lij_result) \<Rightarrow> client \<Rightarrow> schedule \<Rightarrow> client \<times> block_hash lij_result" where
  "fetch_tip_hash ask c sched =
     (let (c, results) = query_all ask c sched; hashes = ok_values results
      in if length hashes < 2 then (c, Inl (LspError ''independent quorum: tip-hash responses, need >=2''))
         else case strict_majority hashes of
                Clear v \<Rightarrow> (c, Inr v)
              | EvenSplit \<Rightarrow> (c, Inl (LspError ''independent quorum: no majority on tip hash''))
              | AllDifferent \<Rightarrow> (c, Inl (LspError ''independent quorum: total disagreement on tip hash'')))"

section \<open>Lookups\<close>

text \<open>First non-empty answer wins; empty when every answer is empty; an error when no one answers
  (\<open>fetch_tx_outspends\<close>, \<open>fetch_address_utxos\<close>).\<close>

fun first_non_empty :: "(string \<times> 'x list lij_result) list \<Rightarrow> 'x list option" where
  "first_non_empty [] = None"
| "first_non_empty ((_, r) # rs) =
     (case r of Inr xs \<Rightarrow> if xs \<noteq> [] then Some xs else first_non_empty rs | Inl _ \<Rightarrow> first_non_empty rs)"

definition lookup_list ::
  "string \<Rightarrow> (string \<Rightarrow> 'x list lij_result) \<Rightarrow> client \<Rightarrow> schedule \<Rightarrow> client \<times> 'x list lij_result" where
  "lookup_list what ask c sched =
     (if healthy_count c = 0 then (c, Inl (LspError ''independent quorum: no healthy endpoints''))
      else let (c, results) = query_all ask c sched
           in case first_non_empty results of
                Some xs \<Rightarrow> (c, Inr xs)
              | None \<Rightarrow>
                  if list_ex (\<lambda>(_, r). is_ok r) results then (c, Inr [])
                  else (c, Inl (LspError (what @ '': all endpoints failed''))))"

fun list_answer :: "(string \<Rightarrow> 'x list option) \<Rightarrow> http_result \<Rightarrow> 'x list lij_result" where
  "list_answer parse (HttpErr e) = Inl (NetworkError e)"
| "list_answer parse (HttpResp status body) =
     (if status = 404 then Inr []
      else if status \<noteq> 200 then Inl (LspError ''status'')
      else case parse body of None \<Rightarrow> Inl (LspError ''parse'') | Some xs \<Rightarrow> Inr xs)"

definition fetch_tx_outspends ::
  "(string \<Rightarrow> 'o list option) \<Rightarrow> (string \<Rightarrow> http_result) \<Rightarrow> string \<Rightarrow> client \<Rightarrow> schedule \<Rightarrow> client \<times> 'o list lij_result" where
  "fetch_tx_outspends parse http txid =
     lookup_list ''fetch_tx_outspends'' (\<lambda>url. list_answer parse (http (url @ ''/tx/'' @ txid @ ''/outspends'')))"

definition fetch_address_utxos ::
  "(string \<Rightarrow> 'u list option) \<Rightarrow> (string \<Rightarrow> http_result) \<Rightarrow> string \<Rightarrow> client \<Rightarrow> schedule \<Rightarrow> client \<times> 'u list lij_result" where
  "fetch_address_utxos parse http address =
     lookup_list ''address utxo'' (\<lambda>url. list_answer parse (http (url @ ''/address/'' @ address @ ''/utxo'')))"

text \<open>First answer wins (\<open>fetch_tx\<close>, \<open>fetch_tx_merkle_pos\<close>, \<open>fetch_tx_hex\<close>).\<close>

definition lookup_first ::
  "string \<Rightarrow> (string \<Rightarrow> 'x lij_result) \<Rightarrow> client \<Rightarrow> schedule \<Rightarrow> client \<times> 'x lij_result" where
  "lookup_first what ask c sched =
     (if healthy_count c = 0 then (c, Inl (LspError ''independent quorum: no healthy endpoints''))
      else let (c, results) = query_all ask c sched
           in case ok_values results of
                x # _ \<Rightarrow> (c, Inr x)
              | [] \<Rightarrow> (c, Inl (LspError (what @ '': all endpoints failed''))))"

fun parsed_answer :: "string \<Rightarrow> (string \<Rightarrow> 'x option) \<Rightarrow> http_result \<Rightarrow> 'x lij_result" where
  "parsed_answer what parse (HttpErr e) = Inl (NetworkError e)"
| "parsed_answer what parse (HttpResp status body) =
     (if status \<noteq> 200 then Inl (LspError (what @ '' status''))
      else case parse body of None \<Rightarrow> Inl (LspError (what @ '' parse'')) | Some x \<Rightarrow> Inr x)"

definition fetch_tx ::
  "(string \<Rightarrow> 'tx option) \<Rightarrow> (string \<Rightarrow> http_result) \<Rightarrow> string \<Rightarrow> client \<Rightarrow> schedule \<Rightarrow> client \<times> 'tx lij_result" where
  "fetch_tx parse http txid =
     lookup_first ''fetch_tx'' (\<lambda>url. parsed_answer ''tx'' parse (http (url @ ''/tx/'' @ txid)))"

definition fetch_tx_merkle_pos ::
  "(string \<Rightarrow> (u32 \<times> u32) option) \<Rightarrow> (string \<Rightarrow> http_result) \<Rightarrow> string \<Rightarrow> client \<Rightarrow> schedule \<Rightarrow>
     client \<times> (u32 \<times> u32) lij_result" where
  "fetch_tx_merkle_pos parse http txid =
     lookup_first ''fetch_tx_merkle_pos''
       (\<lambda>url. parsed_answer ''merkle-proof'' parse (http (url @ ''/tx/'' @ txid @ ''/merkle-proof'')))"

definition fetch_tx_hex ::
  "(string \<Rightarrow> bytes option) \<Rightarrow> (string \<Rightarrow> http_result) \<Rightarrow> string \<Rightarrow> client \<Rightarrow> schedule \<Rightarrow> client \<times> bytes lij_result" where
  "fetch_tx_hex hex_decode http txid =
     lookup_first ''fetch_tx_hex''
       (\<lambda>url. parsed_answer ''tx/hex'' (\<lambda>body. hex_decode (trim body)) (http (url @ ''/tx/'' @ txid @ ''/hex'')))"

section \<open>The two-explorer coin check and the known-transaction check\<close>

record esplora_vout =
  vo_value :: nat
  vo_scriptpubkey :: string

record esplora_tx =
  et_confirmed :: bool
  et_vouts :: "esplora_vout list"

text \<open>ASCII case folding of hex text.\<close>

definition eq_ignore_case :: "string \<Rightarrow> string \<Rightarrow> bool" where
  "eq_ignore_case a b = (map to_lower a = map to_lower b)"

text \<open>One explorer's verdict; \<open>spent\<close> is the list of the outputs' spent flags it answers.\<close>

definition coin_verdict ::
  "(string \<Rightarrow> esplora_tx option) \<Rightarrow> (string \<Rightarrow> bool list option) \<Rightarrow> (string \<Rightarrow> http_result) \<Rightarrow>
     string \<Rightarrow> nat \<Rightarrow> nat \<Rightarrow> string \<Rightarrow> string \<Rightarrow> bool lij_result" where
  "coin_verdict parse_tx parse_spent http txid vout value_sats spk url =
     (case http (url @ ''/tx/'' @ txid) of
        HttpErr e \<Rightarrow> Inl (NetworkError e)
      | HttpResp status body \<Rightarrow>
          if status = 404 then Inr False
          else if status \<noteq> 200 then Inl (LspError ''tx status'')
          else case parse_tx body of
                 None \<Rightarrow> Inl (LspError ''tx parse'')
               | Some tx \<Rightarrow>
                   if \<not> (et_confirmed tx \<and> vout < length (et_vouts tx) \<and>
                          vo_value (et_vouts tx ! vout) = value_sats \<and>
                          eq_ignore_case (vo_scriptpubkey (et_vouts tx ! vout)) spk)
                   then Inr False
                   else case http (url @ ''/tx/'' @ txid @ ''/outspends'') of
                          HttpErr e \<Rightarrow> Inl (NetworkError e)
                        | HttpResp status body \<Rightarrow>
                            if status \<noteq> 200 then Inl (LspError ''outspends status'')
                            else case parse_spent body of
                                   None \<Rightarrow> Inl (LspError ''outspends parse'')
                                 | Some sp \<Rightarrow> Inr (vout < length sp \<and> \<not> sp ! vout))"

definition coin_check_agreed ::
  "(string \<Rightarrow> bool lij_result) \<Rightarrow> client \<Rightarrow> schedule \<Rightarrow> client \<times> bool option" where
  "coin_check_agreed verdict c sched =
     (let (c, results) = query_all verdict c sched;
          yes = length (filter (\<lambda>(_, r). r = Inr True) results);
          no = length (filter (\<lambda>(_, r). r = Inr False) results)
      in (c, if 2 \<le> yes \<and> no = 0 then Some True
             else if 2 \<le> no \<and> yes = 0 then Some False else None))"

fun known_answer :: "http_result \<Rightarrow> bool lij_result" where
  "known_answer (HttpErr e) = Inl (NetworkError e)"
| "known_answer (HttpResp status body) =
     (if status = 200 then Inr True else if status = 404 then Inr False else Inl (LspError ''tx status''))"

fun known_verdict :: "bool \<Rightarrow> (string \<times> bool lij_result) list \<Rightarrow> bool option" where
  "known_verdict definitive_no [] = (if definitive_no then Some False else None)"
| "known_verdict definitive_no ((_, r) # rs) =
     (case r of Inr True \<Rightarrow> Some True | Inr False \<Rightarrow> known_verdict True rs | Inl _ \<Rightarrow> known_verdict definitive_no rs)"

definition tx_known ::
  "(string \<Rightarrow> http_result) \<Rightarrow> string \<Rightarrow> client \<Rightarrow> schedule \<Rightarrow> client \<times> bool option" where
  "tx_known http txid c sched =
     (if healthy_count c = 0 then (c, None)
      else let (c, results) = query_all (\<lambda>url. known_answer (http (url @ ''/tx/'' @ txid))) c sched
           in (c, known_verdict False results))"

section \<open>Fees and broadcast\<close>

definition fee_verdict :: "client \<Rightarrow> (string \<times> nat lij_result) list \<Rightarrow> client \<times> fee_quote lij_result" where
  "fee_verdict c results =
     (let rates = sort (ok_values results)
      in if rates = []
         then (set_quorum_state c InsufficientEndpoints, Inl (LspError ''all endpoints failed for fees''))
         else let median = rates ! (length rates div 2);
                  max_dev = Max (set (map (\<lambda>r. abs_diff r median * 100 div max median 1) rates));
                  c = (if FEE_TOLERANCE_PCT < max_dev then c else set_quorum_state c Healthy)
              in (c, Inr (from_fast_sat_per_vb median)))"

definition fetch_fee_quote ::
  "(string \<Rightarrow> nat lij_result) \<Rightarrow> client \<Rightarrow> schedule \<Rightarrow> client \<times> fee_quote lij_result" where
  "fetch_fee_quote ask c sched = (let (c, results) = query_all ask c sched in fee_verdict c results)"

text \<open>The posts are made one after another, at the clock reading \<open>now\<close>; the answer also lists the
  endpoints that saw the transaction, in order. \<open>chars().take(160)\<close> is \<open>take\<close>.\<close>

fun broadcast_loop ::
  "(string \<Rightarrow> http_result) \<Rightarrow> nat \<Rightarrow> bool \<Rightarrow> client \<Rightarrow> string list \<Rightarrow> bool \<Rightarrow> string list \<Rightarrow>
     client \<times> bool \<times> string list \<times> string list" where
  "broadcast_loop post now one_mode c [] any_success bodies = (c, any_success, [], bodies)"
| "broadcast_loop post now one_mode c (url # urls) any_success bodies =
     (case post (url @ ''/tx'') of
        HttpResp status body \<Rightarrow>
          if 200 \<le> status \<and> status < 300
          then let c = record_endpoint_result now c url True
               in if one_mode then (c, True, [url], bodies)
                  else let (c, s, seen, bodies) = broadcast_loop post now one_mode c urls True bodies
                       in (c, s, url # seen, bodies)
          else let c = record_endpoint_result now c url True;
                   (c, s, seen, bodies) = broadcast_loop post now one_mode c urls any_success (bodies @ [take 160 body])
               in (c, s, url # seen, bodies)
      | HttpErr e \<Rightarrow>
          let c = record_endpoint_result now c url False;
              (c, s, seen, bodies) = broadcast_loop post now one_mode c urls any_success bodies
          in (c, s, url # seen, bodies))"

definition broadcast_to_quorum ::
  "(string \<Rightarrow> http_result) \<Rightarrow> nat \<Rightarrow> bool \<Rightarrow> client \<Rightarrow> bytes \<Rightarrow> client \<times> unit lij_result \<times> string list" where
  "broadcast_to_quorum post now one_mode c raw_tx =
     (let urls = urls_to_ask now c
      in if urls = [] then (c, Inl (LspError ''no healthy endpoints for broadcast''), [])
         else let first = (case raw_tx of b # _ \<Rightarrow> unat b | [] \<Rightarrow> 0);
                  urls = (if one_mode \<and> 1 < length urls then rotate (first mod length urls) urls else urls);
                  (c, any_success, seen, bodies) = broadcast_loop post now one_mode c urls False []
              in (c, if any_success then Inr ()
                     else Inl (LspError (''broadcast: no endpoint accepted (tried '' @ show_nat (length urls) @ ''): '' @
                                 str_join '' | '' bodies)), seen))"

definition broadcaster_is_available :: "client \<Rightarrow> bool" where
  "broadcaster_is_available c = (1 \<le> healthy_count c)"

definition fee_source_is_available :: "client \<Rightarrow> bool" where
  "fee_source_is_available c = (2 \<le> healthy_count c)"

section \<open>The receive watch\<close>

definition ask_one_for_utxos ::
  "(string \<Rightarrow> 'u list option) \<Rightarrow> (string \<Rightarrow> http_result) \<Rightarrow> string \<Rightarrow> string \<Rightarrow> string + 'u list" where
  "ask_one_for_utxos parse http base address =
     (case http (base @ ''/address/'' @ address @ ''/utxo'') of
        HttpResp status body \<Rightarrow>
          if status = 200
          then (case parse body of Some u \<Rightarrow> Inr u | None \<Rightarrow> Inl (base @ '': unreadable answer''))
          else Inl (base @ '': answered'')
      | HttpErr e \<Rightarrow> Inl (base @ '': '' @ e))"

text \<open>Both watches also answer the servers they asked, in order.\<close>

fun watch_loop ::
  "(string \<Rightarrow> string + 'u list) \<Rightarrow> string list \<Rightarrow> (unit + 'u list) \<times> string list" where
  "watch_loop ask [] = (Inl (), [])"
| "watch_loop ask (url # urls) =
     (case ask url of
        Inr utxos \<Rightarrow> (Inr utxos, [url])
      | Inl e \<Rightarrow> let (r, asked) = watch_loop ask urls in (r, url # asked))"

definition fetch_address_utxos_watch ::
  "(string \<Rightarrow> string + 'u list) \<Rightarrow> nat \<Rightarrow> client \<Rightarrow> client \<times> 'u list lij_result \<times> string list" where
  "fetch_address_utxos_watch ask now c =
     (let urls = urls_to_ask now c
      in if urls = [] then (c, Inl (LspError ''address watch: no explorers configured''), [])
         else let start = unat (next_watch c) mod length urls;
                  c = c\<lparr>next_watch := next_watch c + 1\<rparr>;
                  (r, asked) = watch_loop ask (map (\<lambda>k. urls ! ((start + k) mod length urls)) [0..<length urls])
              in (c, case r of Inr u \<Rightarrow> Inr u | Inl _ \<Rightarrow> Inl (LspError ''address watch: no explorer answered''), asked))"

text \<open>A server address as the engine will use it (\<open>tier2_sync.rs\<close>).\<close>

definition is_alnum :: "char \<Rightarrow> bool" where
  "is_alnum ch = (let n = of_char ch :: nat
     in 48 \<le> n \<and> n \<le> 57 \<or> 65 \<le> n \<and> n \<le> 90 \<or> 97 \<le> n \<and> n \<le> 122)"

definition strip_prefix :: "string \<Rightarrow> string \<Rightarrow> string option" where
  "strip_prefix p s = (if take (length p) s = p then Some (drop (length p) s) else None)"

definition trim_end_slashes :: "string \<Rightarrow> string" where
  "trim_end_slashes s = rev (dropWhile (\<lambda>ch. ch = CHR ''/'') (rev s))"

definition clean_filter_base :: "string \<Rightarrow> string option" where
  "clean_filter_base s =
     (let t = trim_end_slashes (trim s)
      in if t = [] \<or> 200 < length t then None
         else case strip_prefix ''https://'' t of
                None \<Rightarrow> None
              | Some rest \<Rightarrow>
                  let hostport = takeWhile (\<lambda>ch. ch \<noteq> CHR ''/'') rest;
                      path = dropWhile (\<lambda>ch. ch \<noteq> CHR ''/'') rest;
                      host = takeWhile (\<lambda>ch. ch \<noteq> CHR '':'') hostport;
                      port = (case dropWhile (\<lambda>ch. ch \<noteq> CHR '':'') hostport of [] \<Rightarrow> None | _ # p \<Rightarrow> Some p);
                      host_ok = (host \<noteq> [] \<and>
                        list_all (\<lambda>ch. is_alnum ch \<or> ch = CHR ''.'' \<or> ch = CHR ''-'') host \<and> is_alnum (hd host));
                      port_ok = (case port of None \<Rightarrow> True
                        | Some p \<Rightarrow> p \<noteq> [] \<and> length p \<le> 5 \<and> list_all is_digit p);
                      path_ok = list_all (\<lambda>ch. is_alnum ch \<or> ch \<in> set ''._~/-'') path
                  in if host_ok \<and> port_ok \<and> path_ok then Some t else None)"

definition fetch_address_utxos_watch_via ::
  "(string \<Rightarrow> string + 'u list) \<Rightarrow> nat \<Rightarrow> nat \<Rightarrow> client \<Rightarrow> string option \<Rightarrow> bool \<Rightarrow>
     client \<times> 'u list lij_result \<times> string list" where
  "fetch_address_utxos_watch_via ask now after c own own_only =
     (let own = (case own of None \<Rightarrow> None | Some s \<Rightarrow> clean_filter_base s);
          report = default_watch_report\<lparr>own_set := (own \<noteq> None), at_ms := now\<rparr>;
          public = (\<lambda>c report asked0.
            let (c, r, asked) = fetch_address_utxos_watch ask now c;
                report = report\<lparr>answered_by := (if is_ok r then ''public'' else [])\<rparr>;
                c = c\<lparr>last_watch := report\<rparr>
            in (c, (case r of Inr u \<Rightarrow> Inr u
                    | Inl e \<Rightarrow> (case own_error report of
                        Some oe \<Rightarrow> Inl (LspError ''address watch: your server did not answer'')
                      | None \<Rightarrow> Inl e)), asked0 @ asked))
      in case own of
           None \<Rightarrow> public c report []
         | Some base \<Rightarrow>
             let resting = (fst (own_watch_rest c) = base \<and> now < snd (own_watch_rest c))
             in if resting
                then let report = report\<lparr>own_resting := True\<rparr>
                     in if own_only
                        then (c\<lparr>last_watch := report\<rparr>,
                              Inl (LspError ''address watch (only your server): your server is resting after a failed check''), [])
                        else public c report []
                else case ask base of
                       Inr utxos \<Rightarrow>
                         (c\<lparr>own_watch_rest := ([], 0), last_watch := report\<lparr>answered_by := ''own''\<rparr>\<rparr>, Inr utxos, [base])
                     | Inl e \<Rightarrow>
                         let c = c\<lparr>own_watch_rest := (base, after + OWN_WATCH_REST_MS)\<rparr>;
                             report = report\<lparr>own_error := Some e\<rparr>
                         in if own_only
                            then (c\<lparr>last_watch := report\<rparr>,
                                  Inl (LspError ''address watch (only your server): your server did not answer''), [base])
                            else public c report [base])"

section \<open>Lemmas\<close>

subsection \<open>Majorities\<close>

lemma foldl_best:
  "let r = foldl (\<lambda>best vc. if snd best < snd vc then vc else best) x xs
   in r \<in> set (x # xs) \<and> (\<forall>y\<in>set (x # xs). snd y \<le> (snd r :: nat))"
proof (induction xs arbitrary: x)
  case Nil
  then show ?case by (simp add: Let_def)
next
  case (Cons y xs)
  from Cons.IH [of "if snd x < snd y then y else x"] show ?case
    by (auto simp: Let_def split: if_splits)
qed

lemma count_list_two: "a \<noteq> b \<Longrightarrow> count_list xs a + count_list xs b \<le> length xs"
  by (induction xs) auto

lemma majority_unique:
  "length xs < 2 * count_list xs a \<Longrightarrow> length xs < 2 * count_list xs b \<Longrightarrow> a = b"
  using count_list_two [of a b xs] by force

text \<open>The most frequent answer the scan of the counts ends with.\<close>

lemma strict_majority_top:
  assumes "vals \<noteq> []"
  obtains top where "top \<in> set vals" "\<And>v. count_list vals v \<le> count_list vals top"
    "strict_majority vals = (if length vals < 2 * count_list vals top then Clear top
       else if distinct vals then AllDifferent else EvenSplit)"
proof -
  let ?c = "map (\<lambda>v. (v, count_list vals v)) (remdups vals)"
  let ?r = "foldl (\<lambda>best vc. if snd best < snd vc then vc else best) (hd ?c) (tl ?c)"
  have ne: "?c \<noteq> []" using assms by simp
  have r: "?r \<in> set ?c \<and> (\<forall>y\<in>set ?c. snd y \<le> snd ?r)"
    using foldl_best [of "hd ?c" "tl ?c"] unfolding Let_def list.collapse [OF ne] .
  then have top: "fst ?r \<in> set vals" "snd ?r = count_list vals (fst ?r)" by auto
  have le: "count_list vals v \<le> count_list vals (fst ?r)" for v
  proof (cases "v \<in> set vals")
    case True
    with r top(2) show ?thesis by auto
  next
    case False
    then show ?thesis by simp
  qed
  have len: "(length (remdups vals) = length vals) = distinct vals"
    by (metis distinct_remdups distinct_card length_remdups_card_conv card_distinct)
  have "strict_majority vals = (if length vals < 2 * count_list vals (fst ?r) then Clear (fst ?r)
       else if distinct vals then AllDifferent else EvenSplit)"
    unfolding strict_majority_def Let_def using assms top(2) len
    by (simp add: case_prod_beta mult.commute)
  with top(1) le that show ?thesis by blast
qed

lemma strict_majority_Clear: "strict_majority vals = Clear v \<longleftrightarrow> length vals < 2 * count_list vals v"
proof (cases "vals = []")
  case True
  then show ?thesis by (simp add: strict_majority_def)
next
  case False
  then obtain top where top: "\<And>v. count_list vals v \<le> count_list vals top"
    "strict_majority vals = (if length vals < 2 * count_list vals top then Clear top
       else if distinct vals then AllDifferent else EvenSplit)"
    by (rule strict_majority_top) blast
  show ?thesis
  proof
    assume "strict_majority vals = Clear v"
    with top(2) show "length vals < 2 * count_list vals v" by (auto split: if_splits)
  next
    assume v: "length vals < 2 * count_list vals v"
    with top(1) [of v] have "length vals < 2 * count_list vals top" by simp
    with v top(2) majority_unique show "strict_majority vals = Clear v" by fastforce
  qed
qed

lemma strict_majority_AllDifferent:
  assumes "2 \<le> length vals"
  shows "strict_majority vals = AllDifferent \<longleftrightarrow> distinct vals"
proof -
  have "vals \<noteq> []" using assms by auto
  then obtain top where top: "top \<in> set vals" "\<And>v. count_list vals v \<le> count_list vals top"
    "strict_majority vals = (if length vals < 2 * count_list vals top then Clear top
       else if distinct vals then AllDifferent else EvenSplit)"
    by (rule strict_majority_top) blast
  have "count_list vals top = 1" if "distinct vals"
    using that top(1) by (induction vals) auto
  with top(3) assms show ?thesis by (auto split: if_splits)
qed

subsection \<open>Rounds\<close>

lemma query_all_each_results:
  "snd (snd (query_all_each mk on_each c a sched)) = map (\<lambda>(url, _, _). (url, mk url)) sched"
  by (induction mk on_each c a sched rule: query_all_each.induct)
     (simp_all add: Let_def case_prod_beta)

lemma query_all_results: "snd (query_all mk c sched) = map (\<lambda>(url, _, _). (url, mk url)) sched"
  using query_all_each_results [of mk "\<lambda>c a r. (c, a)" c "()" sched]
  by (simp add: query_all_def case_prod_beta)

definition answers :: "(string \<Rightarrow> 't lij_result) \<Rightarrow> schedule \<Rightarrow> 't list" where
  "answers mk sched = List.map_filter (\<lambda>(url, _, _). ok_value (mk url)) sched"

lemma ok_values_round: "ok_values (map (\<lambda>(url, _, _). (url, mk url)) sched) = answers mk sched"
  by (induction sched) (auto simp: ok_values_def answers_def split: option.splits)

lemma last_quorum_state_set [simp]: "last_quorum_state (set_quorum_state c st) = st"
  by (simp add: set_quorum_state_def)

lemma set_quorum_state_frame [simp]:
  "endpoints (set_quorum_state c st) = endpoints c"
  "last_consensus_height (set_quorum_state c st) = last_consensus_height c"
  by (simp_all add: set_quorum_state_def)

lemma record_endpoint_result_urls [simp]:
  "map ep_url (endpoints (record_endpoint_result now c url ok)) = map ep_url (endpoints c)"
  by (simp add: record_endpoint_result_def Let_def map_update_first record_success_def record_failure_def)

lemma dissenters_empty:
  "dissenters v (map (\<lambda>(url, _, _). (url, mk url)) sched) = [] \<longleftrightarrow> set (answers mk sched) \<subseteq> {v}"
  by (induction sched) (auto simp: dissenters_def answers_def split: sum.splits option.splits)

section \<open>The verdict of a tip round\<close>

text \<open>What a round's answers mean for the quorum state.\<close>

definition round_state :: "u32 list \<Rightarrow> quorum_state" where
  "round_state hs =
     (if hs = [] then InsufficientEndpoints
      else if length hs = 1 then SingleSource
      else if \<exists>h\<in>set hs. length hs < 2 * count_list hs h
      then (if \<exists>h. set hs = {h} then Healthy else SlightDisagreement)
      else if distinct hs then TotalDisagreement else NoQuorum)"

lemma count_list_pos: "0 < count_list xs x \<Longrightarrow> x \<in> set xs"
  by (metis count_notin less_irrefl)

lemma tip_verdict_exact:
  fixes sched :: schedule and mk :: "string \<Rightarrow> u32 lij_result"
  defines "results \<equiv> map (\<lambda>(url, _, _). (url, mk url)) sched" and "hs \<equiv> answers mk sched"
  shows "snd (tip_verdict now c results) = Inr h \<longleftrightarrow> length hs < 2 * count_list hs h"
    and "last_quorum_state (fst (tip_verdict now c results)) = round_state hs"
    and "snd (tip_verdict now c results) = Inr h \<Longrightarrow>
      last_consensus_height (fst (tip_verdict now c results)) = Some h"
proof -
  have ok: "ok_values results = hs" by (simp add: results_def hs_def ok_values_round)
  consider (none) "hs = []" | (one) x where "hs = [x]" | (many) "2 \<le> length hs"
    by (cases hs rule: remdups_adj.cases) auto
  then have "(snd (tip_verdict now c results) = Inr h \<longleftrightarrow> length hs < 2 * count_list hs h) \<and>
    last_quorum_state (fst (tip_verdict now c results)) = round_state hs \<and>
    (snd (tip_verdict now c results) = Inr h \<longrightarrow>
      last_consensus_height (fst (tip_verdict now c results)) = Some h)"
  proof cases
    case none
    then show ?thesis by (simp add: tip_verdict_def ok round_state_def)
  next
    case one
    then show ?thesis by (auto simp: tip_verdict_def ok round_state_def)
  next
    case many
    then have ne: "hs \<noteq> []" "length hs \<noteq> 1" by auto
    show ?thesis
    proof (cases "strict_majority hs")
      case (Clear v)
      then have v: "length hs < 2 * count_list hs v" by (simp add: strict_majority_Clear)
      then have vin: "v \<in> set hs" by (intro count_list_pos) simp
      have "(dissenters v results = []) = (\<exists>h. set hs = {h})"
        using vin unfolding results_def dissenters_empty hs_def [symmetric] by auto
      with Clear v vin ne show ?thesis
        by (auto simp: tip_verdict_def ok round_state_def Let_def dest: majority_unique)
    next
      case EvenSplit
      then have "\<not> (\<exists>h\<in>set hs. length hs < 2 * count_list hs h)" "\<not> distinct hs"
        using strict_majority_Clear [of hs] strict_majority_AllDifferent [OF many] by auto
      with EvenSplit ne strict_majority_Clear [of hs h] show ?thesis
        by (simp add: tip_verdict_def ok round_state_def Let_def)
    next
      case AllDifferent
      then have "\<not> (\<exists>h\<in>set hs. length hs < 2 * count_list hs h)" "distinct hs"
        using strict_majority_Clear [of hs] strict_majority_AllDifferent [OF many] by auto
      with AllDifferent ne strict_majority_Clear [of hs h] show ?thesis
        by (simp add: tip_verdict_def ok round_state_def Let_def)
    qed
  qed
  then show "snd (tip_verdict now c results) = Inr h \<longleftrightarrow> length hs < 2 * count_list hs h"
    and "last_quorum_state (fst (tip_verdict now c results)) = round_state hs"
    and "snd (tip_verdict now c results) = Inr h \<Longrightarrow>
      last_consensus_height (fst (tip_verdict now c results)) = Some h"
    by blast+
qed

lemma first_answer_early:
  "fst (snd (query_all_each mk first_answer c a sched)) =
     (if a \<noteq> None then a else case answers mk sched of [] \<Rightarrow> None | h # _ \<Rightarrow> Some h)"
proof (induction sched arbitrary: c a)
  case Nil
  then show ?case by (simp add: answers_def)
next
  case (Cons e sched)
  obtain url st en where e: "e = (url, st, en)" by (cases e)
  show ?case
    using Cons.IH
    by (cases "mk url") (simp_all add: e answers_def first_answer_def Let_def case_prod_beta)
qed

abbreviation ask_tip :: "(string \<Rightarrow> http_result) \<Rightarrow> string \<Rightarrow> u32 lij_result" where
  "ask_tip http url \<equiv> tip_height_answer (http (url @ ''/blocks/tip/height''))"

lemma fetch_tip_height_verdict:
  "\<exists>c1. fetch_tip_height http now c sched =
     (fst (tip_verdict now c1 (map (\<lambda>(url, _, _). (url, ask_tip http url)) sched)),
      (case answers (ask_tip http) sched of [] \<Rightarrow> None | h # _ \<Rightarrow> Some h),
      snd (tip_verdict now c1 (map (\<lambda>(url, _, _). (url, ask_tip http url)) sched)))"
proof -
  obtain c1 early results where q:
    "query_all_each (ask_tip http) first_answer c None sched = (c1, early, results)"
    by (metis prod_cases3)
  from query_all_each_results [of "ask_tip http" first_answer c None sched]
    first_answer_early [of "ask_tip http" c None sched]
  show ?thesis by (intro exI [of _ c1]) (simp add: q fetch_tip_height_def case_prod_beta)
qed

subsection \<open>Health\<close>

lemma update_first_healthy:
  "url \<in> ep_url ` set eps \<Longrightarrow>
     \<exists>e\<in>set (update_first (\<lambda>e. ep_url e = url) record_success eps). ep_is_healthy e \<and> ep_probed e"
  by (induction eps) (auto simp: record_success_def)

lemma success_reinstates:
  assumes "url \<in> ep_url ` set (endpoints c)"
  shows "1 \<le> healthy_count (record_endpoint_result now c url True)"
proof -
  let ?c = "c\<lparr>endpoints := update_first (\<lambda>e. ep_url e = url) record_success (endpoints c)\<rparr>"
  have "filter (\<lambda>e. ep_is_healthy e \<and> ep_probed e) (endpoints ?c) \<noteq> []"
    using update_first_healthy [OF assms] by (simp add: filter_empty_conv)
  then have "healthy_count ?c \<noteq> 0" by (simp add: healthy_count_def)
  then show ?thesis by (simp add: record_endpoint_result_def Let_def)
qed

lemma urls_to_ask_subset: "set (urls_to_ask now c) \<subseteq> ep_url ` set (endpoints c)"
  by (auto simp: urls_to_ask_def Let_def)

lemma urls_to_ask_nonempty: "endpoints c \<noteq> [] \<Longrightarrow> urls_to_ask now c \<noteq> []"
  by (auto simp: urls_to_ask_def Let_def)

lemma urls_to_ask_due:
  "e \<in> set (endpoints c) \<Longrightarrow> last_failure_ms e + DEMOTED_RETRY_MS \<le> now \<Longrightarrow> ep_url e \<in> set (urls_to_ask now c)"
  by (auto simp: urls_to_ask_def Let_def)

subsection \<open>Broadcast\<close>

definition accepts :: "(string \<Rightarrow> http_result) \<Rightarrow> string \<Rightarrow> bool" where
  "accepts post url = (case post (url @ ''/tx'') of HttpResp st b \<Rightarrow> 200 \<le> st \<and> st < 300 | HttpErr e \<Rightarrow> False)"

lemma broadcast_loop_all:
  "fst (snd (broadcast_loop post now False c urls any bodies)) = (any \<or> list_ex (accepts post) urls)"
  "fst (snd (snd (broadcast_loop post now False c urls any bodies))) = urls"
  by (induction urls arbitrary: c any bodies)
     (auto simp: accepts_def Let_def case_prod_beta split: http_result.splits)

lemma broadcast_loop_one:
  "fst (snd (broadcast_loop post now True c urls False bodies)) = list_ex (accepts post) urls"
  "fst (snd (snd (broadcast_loop post now True c urls False bodies))) =
     takeWhile (\<lambda>u. \<not> accepts post u) urls @ take 1 (dropWhile (\<lambda>u. \<not> accepts post u) urls)"
  by (induction urls arbitrary: c bodies)
     (auto simp: accepts_def Let_def case_prod_beta split: http_result.splits)

lemma refused_then_first:
  "list_all (\<lambda>u. \<not> p u) (butlast (takeWhile (\<lambda>u. \<not> p u) us @ take 1 (dropWhile (\<lambda>u. \<not> p u) us)))"
  "list_ex p (takeWhile (\<lambda>u. \<not> p u) us @ take 1 (dropWhile (\<lambda>u. \<not> p u) us)) = list_ex p us"
  by (induction us) auto

lemma broadcast_loop_seen:
  assumes "broadcast_loop post now one_mode c urls False [] = (c', s, seen, bodies)"
  shows "s = list_ex (accepts post) seen"
    and "if one_mode then list_all (\<lambda>u. \<not> accepts post u) (butlast seen) else seen = urls"
  using assms refused_then_first [of "accepts post" urls]
    broadcast_loop_all [of post now c urls False "[]"] broadcast_loop_one [of post now c urls "[]"]
  by (cases one_mode; simp)+

subsection \<open>The receive watch\<close>

lemma watch_frame:
  "fetch_address_utxos_watch ask now c = (c', r, asked) \<Longrightarrow>
     endpoints c' = endpoints c \<and> last_quorum_state c' = last_quorum_state c"
  by (auto simp: fetch_address_utxos_watch_def Let_def split: if_splits prod.splits)

lemma watch_via_frame:
  "fetch_address_utxos_watch_via ask now after c own own_only = (c', r, asked) \<Longrightarrow>
     endpoints c' = endpoints c \<and> last_quorum_state c' = last_quorum_state c"
  by (auto simp: fetch_address_utxos_watch_via_def Let_def dest!: watch_frame
      split: if_splits prod.splits option.splits sum.splits)

subsection \<open>The coin check\<close>

lemma filter_round:
  "filter (\<lambda>(_, r). r = x) (map (\<lambda>(url, _, _). (url, v url)) sched) =
     map (\<lambda>(url, _, _). (url, v url)) (filter (\<lambda>(u, _, _). v u = x) sched)"
  by (induction sched) auto

lemma coin_check_exact:
  "snd (coin_check_agreed v c sched) = Some b \<longleftrightarrow>
     2 \<le> length (filter (\<lambda>(u, _, _). v u = Inr b) sched) \<and>
     filter (\<lambda>(u, _, _). v u = Inr (\<not> b)) sched = []"
proof -
  obtain c' results where q: "query_all v c sched = (c', results)" by (cases "query_all v c sched")
  with query_all_results [of v c sched]
  have r: "results = map (\<lambda>(url, _, _). (url, v url)) sched" by simp
  show ?thesis
    unfolding coin_check_agreed_def q Let_def prod.case r filter_round length_map
    by (cases b) auto
qed

section \<open>Properties\<close>

text \<open>C20: a tip round returns a height exactly when strictly more than half of the explorers that
  answered reported it; the quorum state it leaves is the verdict on those answers (unanimous,
  majority with dissent, single source, split, all different, nobody), and the height is cached.\<close>

theorem tip_height_strict_majority:
  fixes http now c sched
  defines "hs \<equiv> answers (ask_tip http) sched"
  shows "(snd (snd (fetch_tip_height http now c sched)) = Inr h \<longleftrightarrow> length hs < 2 * count_list hs h) \<and>
    last_quorum_state (fst (fetch_tip_height http now c sched)) = round_state hs \<and>
    (if length hs < 2 * count_list hs h
     then last_consensus_height (fst (fetch_tip_height http now c sched)) = Some h else True)"
proof -
  from fetch_tip_height_verdict obtain c1 where v: "fetch_tip_height http now c sched =
     (fst (tip_verdict now c1 (map (\<lambda>(url, _, _). (url, ask_tip http url)) sched)),
      (case answers (ask_tip http) sched of [] \<Rightarrow> None | h # _ \<Rightarrow> Some h),
      snd (tip_verdict now c1 (map (\<lambda>(url, _, _). (url, ask_tip http url)) sched)))" by blast
  show ?thesis unfolding v hs_def using tip_verdict_exact(1,3) [where now = now and c = c1 and mk = "ask_tip http" and sched = sched and h = h]
      tip_verdict_exact(2) [where now = now and c = c1 and mk = "ask_tip http" and sched = sched]
    by simp
qed

text \<open>C21: the coin check needs two explorers that agree and none that contradicts; and an explorer
  that changes its answer alone cannot turn a yes into a no.\<close>

theorem coin_check_two_agree:
  "(snd (coin_check_agreed verdict c sched) = Some b \<longleftrightarrow>
      2 \<le> length (filter (\<lambda>(u, _, _). verdict u = Inr b) sched) \<and>
      filter (\<lambda>(u, _, _). verdict u = Inr (\<not> b)) sched = []) \<and>
   (distinct (map fst sched) \<and> snd (coin_check_agreed verdict c sched) = Some True \<and>
      (\<forall>u. u \<noteq> liar \<longrightarrow> verdict' u = verdict u) \<longrightarrow>
    snd (coin_check_agreed verdict' c sched) \<noteq> Some False)"
proof -
  note exact = coin_check_exact [where c = c and sched = sched]
  show ?thesis
  proof (intro conjI impI)
    show "snd (coin_check_agreed verdict c sched) = Some b \<longleftrightarrow>
      2 \<le> length (filter (\<lambda>(u, _, _). verdict u = Inr b) sched) \<and>
      filter (\<lambda>(u, _, _). verdict u = Inr (\<not> b)) sched = []" by (rule exact)
  next
    assume a: "distinct (map fst sched) \<and> snd (coin_check_agreed verdict c sched) = Some True \<and>
      (\<forall>u. u \<noteq> liar \<longrightarrow> verdict' u = verdict u)"
    then have two: "2 \<le> length (filter (\<lambda>(u, _, _). verdict u = Inr True) sched)"
      by (simp add: exact)
    let ?ys = "filter (\<lambda>(u, _, _). verdict u = Inr True) sched"
    have "distinct (map fst ?ys)" using a by (simp add: distinct_map_filter)
    with two have "\<exists>y\<in>set ?ys. fst y \<noteq> liar"
      by (cases ?ys rule: remdups_adj.cases) auto
    then obtain u st en where "(u, st, en) \<in> set sched" "verdict u = Inr True" "u \<noteq> liar"
      by auto
    with a have "filter (\<lambda>(u, _, _). verdict' u = Inr True) sched \<noteq> []"
      by (auto simp: filter_empty_conv intro!: bexI [of _ "(u, st, en)"])
    then show "snd (coin_check_agreed verdict' c sched) \<noteq> Some False" by (simp add: exact)
  qed
qed

theorem coin_check_two_agree_witness:
  "snd (coin_check_agreed (\<lambda>u. if u = ''a'' then Inr False else Inr True) (new_client [])
     [(''a'', 0, 1), (''b'', 0, 1), (''c'', 0, 2)]) \<noteq> Some False"
proof -
  let ?s = "[(''a'', 0, 1), (''b'', 0, 1), (''c'', 0, 2)] :: schedule"
  have "snd (coin_check_agreed (\<lambda>u. Inr True) (new_client []) ?s) = Some True"
    using coin_check_two_agree [of "\<lambda>u. Inr True" "new_client []" ?s True] by simp
  then show ?thesis
    using coin_check_two_agree [of "\<lambda>u. Inr True" "new_client []" ?s True "''a''"
        "\<lambda>u. if u = ''a'' then Inr False else Inr True"] by simp
qed



text \<open>A broadcast succeeds exactly when some endpoint that was shown the transaction accepted it;
  in the default mode every endpoint asked sees it, and in one-endpoint mode the endpoints that see it
  are those that refused it up to and including the first that accepted.\<close>

theorem broadcast_one_stops_at_first_acceptance:
  "(case broadcast_to_quorum post now one_mode c raw_tx of
      (c', r, seen) \<Rightarrow>
        is_ok r = list_ex (accepts post) seen \<and>
        (if one_mode then list_all (\<lambda>u. \<not> accepts post u) (butlast seen) else seen = urls_to_ask now c))"
proof (cases "urls_to_ask now c = []")
  case True
  then show ?thesis by (simp add: broadcast_to_quorum_def is_ok_def)
next
  case False
  define urls where "urls = (if one_mode \<and> 1 < length (urls_to_ask now c)
    then rotate ((case raw_tx of b # _ \<Rightarrow> unat b | [] \<Rightarrow> 0) mod length (urls_to_ask now c)) (urls_to_ask now c)
    else urls_to_ask now c)"
  obtain c' s seen bodies where l: "broadcast_loop post now one_mode c urls False [] = (c', s, seen, bodies)"
    by (metis prod_cases4)
  have "broadcast_to_quorum post now one_mode c raw_tx =
      (c', if s then Inr () else Inl (LspError (''broadcast: no endpoint accepted (tried '' @ show_nat (length urls) @
         ''): '' @ str_join '' | '' bodies)), seen)"
    unfolding broadcast_to_quorum_def Let_def urls_def [symmetric] l using False by simp
  then show ?thesis
    using broadcast_loop_seen [OF l] by (auto simp: is_ok_def urls_def)
qed

text \<open>The receive watch never changes any explorer's standing or the quorum state; and with the
  user's own server set to be the only one, no other server is ever asked about the address.\<close>

theorem watch_only_own_server:
  assumes "clean_filter_base s = Some base"
  shows "(case fetch_address_utxos_watch_via ask now after c (Some s) own_only of
      (c', r, asked) \<Rightarrow>
        endpoints c' = endpoints c \<and> last_quorum_state c' = last_quorum_state c \<and>
        (if own_only then asked = [] \<or> asked = [base] else True))"
proof -
  obtain c' r asked where w: "fetch_address_utxos_watch_via ask now after c (Some s) own_only = (c', r, asked)"
    by (metis prod_cases3)
  have "asked = [] \<or> asked = [base]" if own_only
    using w that assms
    by (auto simp: fetch_address_utxos_watch_via_def Let_def split: if_splits sum.splits)
  with watch_via_frame [OF w] w show ?thesis by simp
qed

theorem watch_only_own_server_witness:
  "snd (snd (fetch_address_utxos_watch_via (\<lambda>u. Inl ''down'' :: string + nat list) 5 6 (new_client default_endpoints)
     (Some ''https://my.node'') True)) \<in> {[], [''https://my.node'']}"
proof -
  have e: "clean_filter_base ''https://my.node'' = Some ''https://my.node''" by code_simp
  show ?thesis
    using watch_only_own_server [OF e, where ask = "\<lambda>u. Inl ''down'' :: string + nat list" and now = 5 and
        after = 6 and c = "new_client default_endpoints" and own_only = True]
    by (simp add: case_prod_beta)
qed

text \<open>A fee round answered by a single endpoint raises the quorum state to healthy, whatever the
  tip rounds had found.\<close>

theorem fee_round_promotes_quorum:
  assumes "answers ask sched = [rate]"
  shows "last_quorum_state (fst (fetch_fee_quote ask c sched)) = Healthy"
proof -
  obtain c' results where q: "query_all ask c sched = (c', results)" by (cases "query_all ask c sched")
  with query_all_results [of ask c sched] ok_values_round [of ask sched] assms
  have "ok_values results = [rate]" by simp
  then show ?thesis
    by (simp add: fetch_fee_quote_def q fee_verdict_def Let_def abs_diff_def FEE_TOLERANCE_PCT_def)
qed

theorem fee_round_promotes_quorum_witness:
  "last_quorum_state (fst (fetch_fee_quote (\<lambda>u. if u = ''a'' then Inr 9 else Inl NotInitialized)
     ((new_client [''a'', ''b''])\<lparr>last_quorum_state := TotalDisagreement\<rparr>) [(''a'', 0, 1), (''b'', 0, 1)])) = Healthy"
  by (rule fee_round_promotes_quorum [where rate = 9]) (simp add: answers_def)

end
