(* ===== verification/Sync_State.thy ===== *)
theory Sync_State
  imports Independent_Quorum "HOL-Library.Product_Lexorder" "HOL-Library.Multiset"
begin

text \<open>
  The wallet's operating state: the gates on send, receive and channel operations and the tracker
  (\<open>sync_state.rs\<close>), the cold-start orchestrator that decides the state on every tick
  (\<open>cold_start.rs\<close>), and the scan that puts channels with expiring HTLCs first
  (\<open>priority_scan.rs\<close>). Ticks are the wallet's seconds counter; LDK's channel details are reduced to
  the fields the scan reads, and the \<open>hex\<close> crate's encoder is an argument of the scan.
\<close>

section \<open>States and gates\<close>

datatype sync_state = Initializing | Syncing | Ready | ReadOnly | Frozen

fun can_send :: "sync_state \<Rightarrow> bool" where
  "can_send Ready = True"
| "can_send _ = False"

fun can_receive :: "sync_state \<Rightarrow> bool" where
  "can_receive Ready = True"
| "can_receive ReadOnly = True"
| "can_receive _ = False"

fun can_manage_channels :: "sync_state \<Rightarrow> bool" where
  "can_manage_channels Ready = True"
| "can_manage_channels _ = False"

fun can_read_state :: "sync_state \<Rightarrow> bool" where
  "can_read_state Initializing = False"
| "can_read_state _ = True"

datatype dot_color = Green | Yellow | Red

fun dot_color_of :: "sync_state \<Rightarrow> dot_color" where
  "dot_color_of Ready = Green"
| "dot_color_of Initializing = Yellow"
| "dot_color_of Syncing = Yellow"
| "dot_color_of ReadOnly = Yellow"
| "dot_color_of Frozen = Red"

fun dot_color_as_str :: "dot_color \<Rightarrow> string" where
  "dot_color_as_str Green = ''green''"
| "dot_color_as_str Yellow = ''yellow''"
| "dot_color_as_str Red = ''red''"

definition require_can_send :: "sync_state \<Rightarrow> unit lij_result" where
  "require_can_send st = (if can_send st then Inr () else Inl (SyncStateNotReady ''send blocked''))"

definition require_can_receive :: "sync_state \<Rightarrow> unit lij_result" where
  "require_can_receive st = (if can_receive st then Inr () else Inl (SyncStateNotReady ''receive blocked''))"

definition require_can_manage_channels :: "sync_state \<Rightarrow> unit lij_result" where
  "require_can_manage_channels st =
     (if can_manage_channels st then Inr () else Inl (SyncStateNotReady ''channel ops blocked''))"

record tracker =
  trk_state :: sync_state
  last_cooperative_refresh_tick :: "nat option"
  last_independent_refresh_tick :: "nat option"

definition new_tracker :: tracker where
  "new_tracker = \<lparr>trk_state = Initializing, last_cooperative_refresh_tick = None, last_independent_refresh_tick = None\<rparr>"

definition tracker_set :: "sync_state \<Rightarrow> tracker \<Rightarrow> tracker" where
  "tracker_set st t = (if trk_state t \<noteq> st then t\<lparr>trk_state := st\<rparr> else t)"

definition note_cooperative_refresh :: "nat \<Rightarrow> tracker \<Rightarrow> tracker" where
  "note_cooperative_refresh tick t = t\<lparr>last_cooperative_refresh_tick := Some tick\<rparr>"

definition note_independent_refresh :: "nat \<Rightarrow> tracker \<Rightarrow> tracker" where
  "note_independent_refresh tick t = t\<lparr>last_independent_refresh_tick := Some tick\<rparr>"

definition trk_cooperative_age_ticks :: "tracker \<Rightarrow> nat \<Rightarrow> nat option" where
  "trk_cooperative_age_ticks t now = map_option (\<lambda>tk. now - tk) (last_cooperative_refresh_tick t)"

definition trk_independent_age_ticks :: "tracker \<Rightarrow> nat \<Rightarrow> nat option" where
  "trk_independent_age_ticks t now = map_option (\<lambda>tk. now - tk) (last_independent_refresh_tick t)"

section \<open>The decision\<close>

definition INITIALIZING_GRACE_TICKS :: nat where "INITIALIZING_GRACE_TICKS = 1"
definition INDEPENDENT_TARGET_TICKS :: nat where "INDEPENDENT_TARGET_TICKS = 30"
definition BOTH_BROKEN_TIMEOUT_TICKS :: nat where "BOTH_BROKEN_TIMEOUT_TICKS = 60"
definition HEIGHT_AGREEMENT_TOLERANCE :: nat where "HEIGHT_AGREEMENT_TOLERANCE = 2"

lemmas timing_defs = INITIALIZING_GRACE_TICKS_def INDEPENDENT_TARGET_TICKS_def BOTH_BROKEN_TIMEOUT_TICKS_def

definition cooperative_available :: "bool \<Rightarrow> u32 option \<Rightarrow> bool" where
  "cooperative_available subscribed coop_h = (subscribed \<and> coop_h \<noteq> None)"

fun heights_agree :: "u32 option \<Rightarrow> u32 option \<Rightarrow> bool" where
  "heights_agree (Some c) (Some i) = (abs_diff (unat c) (unat i) \<le> HEIGHT_AGREEMENT_TOLERANCE)"
| "heights_agree _ _ = False"

definition independent_available :: "nat \<Rightarrow> quorum_state \<Rightarrow> bool" where
  "independent_available healthy q = (1 \<le> healthy \<and> q \<in> {Healthy, SlightDisagreement, SingleSource})"

text \<open>The early returns of \<open>decide_state_pure\<close>, in the source's order.\<close>

definition decide_state_pure ::
  "sync_state \<Rightarrow> nat \<Rightarrow> bool \<Rightarrow> u32 option \<Rightarrow> u32 option \<Rightarrow> nat \<Rightarrow> quorum_state \<Rightarrow> bool \<Rightarrow> sync_state" where
  "decide_state_pure current elapsed subscribed coop_h indep_h healthy quorum queried =
     (let coop = cooperative_available subscribed coop_h;
          agree = heights_agree coop_h indep_h;
          indep = independent_available healthy quorum
      in if current = Initializing
         then (if INITIALIZING_GRACE_TICKS \<le> elapsed then Syncing else Initializing)
         else if \<not> coop \<and> \<not> indep \<and> BOTH_BROKEN_TIMEOUT_TICKS \<le> elapsed then Frozen
         else if coop \<and> indep \<and> queried \<and> agree then Ready
         else if coop \<and> \<not> indep \<and> INDEPENDENT_TARGET_TICKS \<le> elapsed then ReadOnly
         else if \<not> coop \<and> indep then ReadOnly
         else if current \<in> {Syncing, Ready, ReadOnly}
         then (if current = Ready \<and> \<not> coop then ReadOnly
               else if current = Ready \<and> \<not> indep then ReadOnly
               else if current = ReadOnly \<and> coop \<and> indep \<and> agree then Ready
               else if current = Frozen \<and> (coop \<or> indep) then Syncing
               else current)
         else if current = Frozen \<and> (coop \<or> indep) then Syncing
         else current)"

section \<open>The orchestrator\<close>

record orchestrator =
  started_at_tick :: "nat option"
  last_seen_cooperative_height :: "u32 option"
  last_seen_independent_height :: "u32 option"
  independent_queried_once :: bool

definition new_orchestrator :: orchestrator where
  "new_orchestrator = \<lparr>started_at_tick = None, last_seen_cooperative_height = None,
     last_seen_independent_height = None, independent_queried_once = False\<rparr>"

definition orch_reset :: "nat \<Rightarrow> orchestrator \<Rightarrow> orchestrator" where
  "orch_reset now orch = orch\<lparr>started_at_tick := Some now, last_seen_cooperative_height := None,
     last_seen_independent_height := None, independent_queried_once := False\<rparr>"

definition mark_independent_queried :: "u32 option \<Rightarrow> orchestrator \<Rightarrow> orchestrator" where
  "mark_independent_queried h orch =
     (let orch = orch\<lparr>independent_queried_once := True\<rparr>
      in case h of Some x \<Rightarrow> orch\<lparr>last_seen_independent_height := Some x\<rparr> | None \<Rightarrow> orch)"

text \<open>\<open>for _ in 0..n\<close> with the \<open>break\<close> at a stable state; the tracker is written on every hop.\<close>

fun settle :: "(sync_state \<Rightarrow> sync_state) \<Rightarrow> nat \<Rightarrow> sync_state \<Rightarrow> tracker \<Rightarrow> tracker" where
  "settle decide 0 st t = t"
| "settle decide (Suc n) st t =
     (let nxt = decide st in if nxt = st then t else settle decide n nxt (tracker_set nxt t))"

definition orch_tick ::
  "nat \<Rightarrow> bool \<Rightarrow> u32 option \<Rightarrow> client \<Rightarrow> orchestrator \<Rightarrow> tracker \<Rightarrow> orchestrator \<times> tracker" where
  "orch_tick now subscribed coop_h c orch t =
     (let orch = (if started_at_tick orch = None then orch\<lparr>started_at_tick := Some now\<rparr> else orch);
          elapsed = now - the (started_at_tick orch);
          orch = (case coop_h of Some h \<Rightarrow> orch\<lparr>last_seen_cooperative_height := Some h\<rparr> | None \<Rightarrow> orch);
          decide = (\<lambda>st. decide_state_pure st elapsed subscribed coop_h (last_seen_independent_height orch)
                      (healthy_count c) (last_quorum_state c) (independent_queried_once orch))
      in (orch, settle decide 4 (trk_state t) t))"

text \<open>The callers, in any order: the background tick, the report of an independent fetch (or of the
  first endpoint to answer one), and the reset after a long disconnect.\<close>

inductive cold_step :: "orchestrator \<times> tracker \<Rightarrow> orchestrator \<times> tracker \<Rightarrow> bool" where
  tick: "cold_step (orch, t) (orch_tick now subscribed coop_h c orch t)"
| queried: "cold_step (orch, t) (mark_independent_queried h orch, t)"
| reset: "cold_step (orch, t) (orch_reset now orch, t)"

inductive_cases cold_stepE: "cold_step (orch, t) s'"

definition cold_reachable :: "orchestrator \<times> tracker \<Rightarrow> bool" where
  "cold_reachable s = cold_step\<^sup>*\<^sup>* (new_orchestrator, new_tracker) s"

section \<open>The priority scan\<close>

definition SAFETY_WINDOW_BLOCKS :: nat where "SAFETY_WINDOW_BLOCKS = 6"

datatype priority_level = Critical | Routine | PreFunding

record channel_details =
  ch_channel_id :: bytes
  ch_funding_txid :: "txid option"
  ch_inbound_expiries :: "u32 list"
  ch_outbound_expiries :: "u32 list"

record channel_priority_finding =
  channel_id_hex :: string
  funding_txid :: "txid option"
  earliest_htlc_expiry :: "u32 option"
  pending_htlc_count :: nat
  priority :: priority_level

record priority_scan_report =
  findings :: "channel_priority_finding list"
  critical_funding_txids :: "txid set"
  total_channels :: nat
  has_critical :: bool

definition iter_min :: "u32 list \<Rightarrow> u32 option" where
  "iter_min xs = (if xs = [] then None else Some (Min (set xs)))"

definition earliest_expiry :: "channel_details \<Rightarrow> u32 option" where
  "earliest_expiry ch =
     (case (iter_min (ch_inbound_expiries ch), iter_min (ch_outbound_expiries ch)) of
        (Some a, Some b) \<Rightarrow> Some (min a b)
      | (Some a, None) \<Rightarrow> Some a
      | (None, Some a) \<Rightarrow> Some a
      | (None, None) \<Rightarrow> None)"

definition channel_priority :: "channel_details \<Rightarrow> u32 \<Rightarrow> priority_level" where
  "channel_priority ch tip =
     (if ch_funding_txid ch = None then PreFunding
      else case earliest_expiry ch of
             Some e \<Rightarrow> if unat e \<le> sat_add32 (unat tip) SAFETY_WINDOW_BLOCKS then Critical else Routine
           | None \<Rightarrow> Routine)"

definition scan_one :: "(bytes \<Rightarrow> string) \<Rightarrow> u32 \<Rightarrow> channel_details \<Rightarrow> channel_priority_finding" where
  "scan_one hex tip ch =
     \<lparr>channel_id_hex = hex (ch_channel_id ch), funding_txid = ch_funding_txid ch,
      earliest_htlc_expiry = earliest_expiry ch,
      pending_htlc_count = length (ch_inbound_expiries ch) + length (ch_outbound_expiries ch),
      priority = channel_priority ch tip\<rparr>"

fun priority_order :: "priority_level \<Rightarrow> nat" where
  "priority_order Critical = 0"
| "priority_order Routine = 1"
| "priority_order PreFunding = 2"

definition finding_key :: "channel_priority_finding \<Rightarrow> nat \<times> u32" where
  "finding_key f = (priority_order (priority f), case earliest_htlc_expiry f of Some e \<Rightarrow> e | None \<Rightarrow> - 1)"

fun scan_loop ::
  "(bytes \<Rightarrow> string) \<Rightarrow> u32 \<Rightarrow> channel_details list \<Rightarrow> channel_priority_finding list \<Rightarrow> txid set \<Rightarrow>
     channel_priority_finding list \<times> txid set" where
  "scan_loop hex tip [] fs crit = (fs, crit)"
| "scan_loop hex tip (ch # chs) fs crit =
     (let f = scan_one hex tip ch;
          crit = (if priority f = Critical
                  then (case funding_txid f of Some tx \<Rightarrow> insert tx crit | None \<Rightarrow> crit) else crit)
      in scan_loop hex tip chs (fs @ [f]) crit)"

definition scan_channels :: "(bytes \<Rightarrow> string) \<Rightarrow> channel_details list \<Rightarrow> u32 \<Rightarrow> priority_scan_report" where
  "scan_channels hex channels tip =
     (let (fs, crit) = scan_loop hex tip channels [] {}
      in \<lparr>findings = sort_key finding_key fs, critical_funding_txids = crit,
          total_channels = length channels, has_critical = (crit \<noteq> {})\<rparr>)"

section \<open>Lemmas\<close>

subsection \<open>Settling\<close>

abbreviation decide_now :: "orchestrator \<Rightarrow> nat \<Rightarrow> bool \<Rightarrow> u32 option \<Rightarrow> client \<Rightarrow> sync_state \<Rightarrow> sync_state" where
  "decide_now orch now subscribed coop_h c st \<equiv>
     decide_state_pure st (now - the (started_at_tick orch)) subscribed coop_h (last_seen_independent_height orch)
       (healthy_count c) (last_quorum_state c) (independent_queried_once orch)"

lemma trk_state_set [simp]: "trk_state (tracker_set st t) = st"
  by (simp add: tracker_set_def)

lemma settle_state:
  "trk_state t = st \<Longrightarrow> trk_state (settle decide n st t) = (decide ^^ n) st"
proof (induction n arbitrary: st t)
  case (Suc n)
  then show ?case
  proof (cases "decide st = st")
    case True
    then have "(decide ^^ Suc n) st = st" by (induction n) auto
    with True Suc.prems show ?thesis by simp
  next
    case False
    with Suc.IH [of "tracker_set (decide st) t" "decide st"] show ?thesis
      by (simp add: Let_def funpow_swap1)
  qed
qed simp

text \<open>With its inputs fixed the decision is stable after two hops, so the tick's four are enough.\<close>

lemma decide_stabilises:
  fixes e sub ch ih hl q k
  defines "d \<equiv> \<lambda>st. decide_state_pure st e sub ch ih hl q k"
  shows "d (d (d st)) = d (d st)"
  unfolding d_def decide_state_pure_def Let_def
  by (cases st; cases "cooperative_available sub ch"; cases "independent_available hl q"; simp add: timing_defs)

lemma tick_state:
  assumes "orch_tick now sub ch c orch t = (orch', t')"
  shows "trk_state t' = decide_now orch' now sub ch c (decide_now orch' now sub ch c (trk_state t))"
    and "last_seen_independent_height orch' = last_seen_independent_height orch"
    and "independent_queried_once orch' = independent_queried_once orch"
    and "started_at_tick orch' = Some (case started_at_tick orch of Some s \<Rightarrow> s | None \<Rightarrow> now)"
proof -
  let ?d = "decide_now orch' now sub ch c"
  have o: "orch' = fst (orch_tick now sub ch c orch t)" using assms by simp
  show frame: "last_seen_independent_height orch' = last_seen_independent_height orch"
    "independent_queried_once orch' = independent_queried_once orch"
    "started_at_tick orch' = Some (case started_at_tick orch of Some s \<Rightarrow> s | None \<Rightarrow> now)"
    unfolding o by (auto simp: orch_tick_def Let_def split: option.splits)
  have "t' = settle ?d 4 (trk_state t) t"
    using assms
    by (cases ch; cases "started_at_tick orch") (auto simp: orch_tick_def Let_def simp del: settle.simps)
  moreover have four: "(4::nat) = Suc (Suc (Suc (Suc 0)))" by simp
  ultimately have "trk_state t' = (?d ^^ Suc (Suc (Suc (Suc 0)))) (trk_state t)"
    by (simp only: settle_state [OF refl] four)
  also have "\<dots> = ?d (?d (?d (?d (trk_state t))))"
    by (simp only: funpow.simps o_apply id_apply)
  also have "\<dots> = ?d (?d (trk_state t))"
    by (simp only: decide_stabilises)
  finally show "trk_state t' = ?d (?d (trk_state t))" .
qed

subsection \<open>Reachable states\<close>

text \<open>A height from the independent path is only ever recorded together with the queried mark.\<close>

definition cold_inv :: "orchestrator \<times> tracker \<Rightarrow> bool" where
  "cold_inv s = (last_seen_independent_height (fst s) \<noteq> None \<longrightarrow> independent_queried_once (fst s))"

lemma cold_inv_step: "cold_step s s' \<Longrightarrow> cold_inv s \<Longrightarrow> cold_inv s'"
proof (induction rule: cold_step.induct)
  case (tick orch t now sub ch c)
  then show ?case
    using tick_state(2,3) [of now sub ch c orch t] by (cases "orch_tick now sub ch c orch t") (simp add: cold_inv_def)
qed (simp_all add: cold_inv_def mark_independent_queried_def orch_reset_def Let_def split: option.splits)

lemma cold_inv_reachable: "cold_reachable s \<Longrightarrow> cold_inv s"
  unfolding cold_reachable_def
  by (induction rule: rtranclp_induct) (simp add: cold_inv_def new_orchestrator_def, rule cold_inv_step)

text \<open>What has to hold for the wallet to be declared ready.\<close>

definition ready_evidence :: "orchestrator \<Rightarrow> bool \<Rightarrow> u32 option \<Rightarrow> client \<Rightarrow> bool" where
  "ready_evidence orch sub ch c =
     (sub \<and> heights_agree ch (last_seen_independent_height orch) \<and> independent_queried_once orch \<and>
      independent_available (healthy_count c) (last_quorum_state c))"

lemma heights_agree_known: "heights_agree a b \<Longrightarrow> a \<noteq> None \<and> b \<noteq> None"
  by (cases "(a, b)" rule: heights_agree.cases) auto

lemma decide_ready:
  assumes "cold_inv (orch, t)" and "st \<noteq> Ready" and "st \<noteq> Initializing"
  shows "decide_now orch now sub ch c st = Ready \<longleftrightarrow> ready_evidence orch sub ch c"
  using assms
  by (cases st) (auto simp: decide_state_pure_def Let_def ready_evidence_def cold_inv_def cooperative_available_def
      dest: heights_agree_known)

lemma decide_ready_stays:
  "ready_evidence orch sub ch c \<Longrightarrow> decide_now orch now sub ch c Ready = Ready"
  by (auto simp: decide_state_pure_def Let_def ready_evidence_def cooperative_available_def dest: heights_agree_known)

subsection \<open>The scan\<close>

definition approaching :: "u32 \<Rightarrow> channel_details \<Rightarrow> bool" where
  "approaching tip ch =
     (ch_funding_txid ch \<noteq> None \<and>
      (\<exists>e\<in>set (ch_inbound_expiries ch @ ch_outbound_expiries ch). unat e \<le> sat_add32 (unat tip) 6))"

lemma Min_le_exists: "xs \<noteq> [] \<Longrightarrow> unat (Min (set xs)) \<le> n \<longleftrightarrow> (\<exists>e\<in>set xs. unat e \<le> n)"
  for xs :: "u32 list"
  by (meson List.finite_set Min_in Min_le order_trans set_empty word_le_nat_alt)

lemma unat_min: "unat (min a b) = min (unat a) (unat b)" for a b :: u32
  by (simp add: min_def word_le_nat_alt)

lemma priority_critical: "channel_priority ch tip = Critical \<longleftrightarrow> approaching tip ch"
  by (cases "ch_inbound_expiries ch = []"; cases "ch_outbound_expiries ch = []")
     (auto simp: channel_priority_def approaching_def earliest_expiry_def iter_min_def SAFETY_WINDOW_BLOCKS_def
        unat_min min_le_iff_disj Min_le_exists bex_Un split: if_splits)

lemma scan_loop_result:
  "scan_loop hex tip chs fs crit =
     (fs @ map (scan_one hex tip) chs,
      crit \<union> {tx. \<exists>ch\<in>set chs. approaching tip ch \<and> ch_funding_txid ch = Some tx})"
proof (induction chs arbitrary: fs crit)
  case (Cons ch chs)
  have p: "priority (scan_one hex tip ch) = Critical \<longleftrightarrow> approaching tip ch"
    "funding_txid (scan_one hex tip ch) = ch_funding_txid ch"
    by (simp_all add: scan_one_def priority_critical)
  show ?case by (auto simp: Cons.IH Let_def p split: option.splits)
qed auto

section \<open>Properties\<close>



text \<open>Every tick leaves the wallet in a state the decision would keep: the four hops of the loop
  always suffice, whatever the state and the inputs.\<close>

theorem tick_reaches_fixpoint:
  "(case orch_tick now sub ch c orch t of (orch', t') \<Rightarrow>
      decide_state_pure (trk_state t') (now - the (started_at_tick orch')) sub ch (last_seen_independent_height orch')
        (healthy_count c) (last_quorum_state c) (independent_queried_once orch') = trk_state t')"
proof (cases "orch_tick now sub ch c orch t")
  case (Pair orch' t')
  then show ?thesis using decide_stabilises by (simp add: tick_state(1) [OF Pair])
qed

text \<open>A ready wallet stays ready when the two paths come to report heights any distance apart, as
  long as both paths are up.\<close>

theorem ready_survives_height_disagreement:
  assumes "trk_state t = Ready" and "independent_available (healthy_count c) (last_quorum_state c)"
  shows "trk_state (snd (orch_tick now True (Some h) c orch t)) = Ready"
proof (cases "orch_tick now True (Some h) c orch t")
  case (Pair orch' t')
  have "decide_now orch' now True (Some h) c Ready = Ready"
    using assms by (simp add: decide_state_pure_def Let_def cooperative_available_def)
  then show ?thesis using assms by (simp add: Pair tick_state(1) [OF Pair])
qed

theorem ready_survives_height_disagreement_witness:
  "trk_state (snd (orch_tick 7 True (Some 1000)
     ((new_client [''a''])\<lparr>endpoints := [record_success (new_endpoint ''a'')], last_quorum_state := Healthy\<rparr>)
     (mark_independent_queried (Some 1) new_orchestrator) (tracker_set Ready new_tracker))) = Ready"
  by (rule ready_survives_height_disagreement)
     (simp_all add: independent_available_def healthy_count_def record_success_def)

text \<open>A wallet that is past starting up and whose cooperative feed is gone while the independent path
  is up becomes read-only, and in that state it refuses to send but still issues invoices.\<close>

theorem receive_open_without_cooperative:
  assumes "trk_state t \<noteq> Initializing" and "independent_available (healthy_count c) (last_quorum_state c)"
  shows "(let st = trk_state (snd (orch_tick now False ch c orch t))
          in st = ReadOnly \<and> is_ok (require_can_receive st) \<and> \<not> is_ok (require_can_send st) \<and>
             \<not> is_ok (require_can_manage_channels st))"
proof (cases "orch_tick now False ch c orch t")
  case (Pair orch' t')
  have "decide_now orch' now False ch c st = ReadOnly" if "st \<noteq> Initializing" for st
    using assms(2) that by (simp add: decide_state_pure_def Let_def cooperative_available_def)
  then show ?thesis
    using assms(1) by (simp add: Pair tick_state(1) [OF Pair] Let_def require_can_receive_def require_can_send_def
        require_can_manage_channels_def)
qed

theorem receive_open_without_cooperative_witness:
  "is_ok (require_can_receive (trk_state (snd (orch_tick 7 False None
     ((new_client [''a''])\<lparr>endpoints := [record_success (new_endpoint ''a'')], last_quorum_state := Healthy\<rparr>)
     new_orchestrator (tracker_set Ready new_tracker)))))"
proof -
  have "independent_available (healthy_count ((new_client [''a''])\<lparr>endpoints := [record_success (new_endpoint ''a'')],
      last_quorum_state := Healthy\<rparr>)) Healthy"
    by (simp add: independent_available_def healthy_count_def record_success_def)
  then show ?thesis
    using receive_open_without_cooperative [of "tracker_set Ready new_tracker"
        "(new_client [''a''])\<lparr>endpoints := [record_success (new_endpoint ''a'')], last_quorum_state := Healthy\<rparr>"
        7 None new_orchestrator]
    by (simp add: Let_def require_can_receive_def)
qed

text \<open>The scan reports every channel once, ordered by priority and then by earliest expiry; the
  critical set holds exactly the funding transactions of the channels with an HTLC that expires
  within six blocks of the tip (saturating), and the critical flag is set when there is one.\<close>

theorem scan_reports_exactly_the_approaching:
  "(let r = scan_channels hex channels tip
    in mset (findings r) = mset (map (scan_one hex tip) channels) \<and>
       sorted (map finding_key (findings r)) \<and>
       critical_funding_txids r = {tx. \<exists>ch. ch \<in> set channels \<and> approaching tip ch \<and> ch_funding_txid ch = Some tx} \<and>
       has_critical r = list_ex (approaching tip) channels)"
proof -
  have "({tx. \<exists>ch\<in>set channels. approaching tip ch \<and> ch_funding_txid ch = Some tx} \<noteq> {}) = list_ex (approaching tip) channels"
    by (auto simp: list_ex_iff approaching_def)
  then show ?thesis
    by (auto simp: scan_channels_def scan_loop_result Bex_def)
qed

end
