(* ===== verification/Wire_Codec.thy ===== *)
theory Wire_Codec
  imports LIJ_Prelude "HOL-Library.Sublist"
begin

text \<open>
  Reading and writing on the peer wire: the primitives of LDK's serialisation
  (\<open>patches/lightning/src/util/ser.rs\<close>) that the wallet's own messages are built from, and the laws
  that make a reader and a writer fit. A reader takes the bytes that are left and gives a value with
  the bytes after it, or the decode error; a writer into a buffer gives the bytes, or \<open>None\<close> where the
  source returns an I/O error of its own. Parsing a public key (libsecp256k1) is the parameter \<open>vp\<close>,
  which says which 33 bytes are a point; a key is represented by those bytes.
\<close>

datatype decode_error = InvalidValue | ShortRead

type_synonym 'a reader = "bytes \<Rightarrow> decode_error + 'a \<times> bytes"

definition ret_r :: "'a \<Rightarrow> 'a reader" where
  "ret_r x bs = Inr (x, bs)"

definition fail_r :: "decode_error \<Rightarrow> 'a reader" where
  "fail_r e bs = Inl e"

definition bind_r :: "'a reader \<Rightarrow> ('a \<Rightarrow> 'b reader) \<Rightarrow> 'b reader" where
  "bind_r r f bs = (case r bs of Inl e \<Rightarrow> Inl e | Inr (x, rest) \<Rightarrow> f x rest)"

section \<open>Primitives\<close>

definition read_exact :: "nat \<Rightarrow> bytes reader" where
  "read_exact n bs = (if n \<le> length bs then Inr (take n bs, drop n bs) else Inl ShortRead)"

text \<open>\<open>to_be_bytes\<close> and \<open>from_be_bytes\<close> of an unsigned integer of \<open>n\<close> bytes.\<close>

primrec be_nat :: "nat \<Rightarrow> nat \<Rightarrow> bytes" where
  "be_nat 0 v = []"
| "be_nat (Suc n) v = be_nat n (v div 256) @ [word_of_nat (v mod 256)]"

definition from_be :: "bytes \<Rightarrow> nat" where
  "from_be bs = foldl (\<lambda>a b. a * 256 + unat b) 0 bs"

definition write_u8 :: "u8 \<Rightarrow> bytes" where
  "write_u8 b = [b]"

definition read_u8 :: "u8 reader" where
  "read_u8 = bind_r (read_exact 1) (\<lambda>buf. ret_r (hd buf))"

definition write_u16 :: "u16 \<Rightarrow> bytes" where
  "write_u16 v = be_nat 2 (unat v)"

definition read_u16 :: "u16 reader" where
  "read_u16 = bind_r (read_exact 2) (\<lambda>buf. ret_r (word_of_nat (from_be buf)))"

definition write_u32 :: "u32 \<Rightarrow> bytes" where
  "write_u32 v = be_nat 4 (unat v)"

definition read_u32 :: "u32 reader" where
  "read_u32 = bind_r (read_exact 4) (\<lambda>buf. ret_r (word_of_nat (from_be buf)))"

definition write_u64 :: "u64 \<Rightarrow> bytes" where
  "write_u64 v = be_nat 8 (unat v)"

definition read_u64 :: "u64 reader" where
  "read_u64 = bind_r (read_exact 8) (\<lambda>buf. ret_r (word_of_nat (from_be buf)))"

text \<open>Transaction ids and block hashes are their 32 bytes; the model's 256-bit word is those bytes read
  big-endian.\<close>

definition write_hash :: "hash256 \<Rightarrow> bytes" where
  "write_hash h = be_nat 32 (unat h)"

definition read_hash :: "hash256 reader" where
  "read_hash = bind_r (read_exact 32) (\<lambda>buf. ret_r (word_of_nat (from_be buf)))"

text \<open>Bytes with their length in front as a \<open>u16\<close>: scripts, and the text of an acknowledgement.\<close>

definition write_bytes16 :: "bytes \<Rightarrow> bytes" where
  "write_bytes16 s = write_u16 (word_of_nat (length s)) @ s"

definition read_bytes16 :: "bytes reader" where
  "read_bytes16 = bind_r read_u16 (\<lambda>len. read_exact (unat len))"

abbreviation write_script :: "script_buf \<Rightarrow> bytes" where "write_script \<equiv> write_bytes16"
abbreviation read_script :: "script_buf reader" where "read_script \<equiv> read_bytes16"

definition write_pubkey :: "bytes \<Rightarrow> bytes" where
  "write_pubkey k = k"

definition read_pubkey :: "(bytes \<Rightarrow> bool) \<Rightarrow> bytes reader" where
  "read_pubkey vp = bind_r (read_exact 33) (\<lambda>buf. if vp buf then ret_r buf else fail_r InvalidValue)"

text \<open>The counted loops of the message readers.\<close>

primrec read_n :: "'a reader \<Rightarrow> nat \<Rightarrow> 'a list reader" where
  "read_n r 0 = ret_r []"
| "read_n r (Suc n) = bind_r r (\<lambda>x. bind_r (read_n r n) (\<lambda>xs. ret_r (x # xs)))"

text \<open>A list with its length in front as a \<open>u16\<close>.\<close>

definition write_list16 :: "('a \<Rightarrow> bytes) \<Rightarrow> 'a list \<Rightarrow> bytes" where
  "write_list16 w xs = write_u16 (word_of_nat (length xs)) @ concat (map w xs)"

definition read_list16 :: "'a reader \<Rightarrow> 'a list reader" where
  "read_list16 r = bind_r read_u16 (\<lambda>n. read_n r (unat n))"

text \<open>\<open>String::from_utf8\<close>: which byte sequences are UTF-8 (RFC 3629).\<close>

definition utf8_cont :: "u8 \<Rightarrow> bool" where
  "utf8_cont b = (0x80 \<le> b \<and> b \<le> 0xBF)"

definition utf8_three :: "u8 \<Rightarrow> u8 \<Rightarrow> bool" where
  "utf8_three b0 b1 =
     (b0 = 0xE0 \<and> 0xA0 \<le> b1 \<and> b1 \<le> 0xBF \<or> 0xE1 \<le> b0 \<and> b0 \<le> 0xEC \<and> utf8_cont b1 \<or>
      b0 = 0xED \<and> 0x80 \<le> b1 \<and> b1 \<le> 0x9F \<or> 0xEE \<le> b0 \<and> b0 \<le> 0xEF \<and> utf8_cont b1)"

definition utf8_four :: "u8 \<Rightarrow> u8 \<Rightarrow> bool" where
  "utf8_four b0 b1 =
     (b0 = 0xF0 \<and> 0x90 \<le> b1 \<and> b1 \<le> 0xBF \<or> 0xF1 \<le> b0 \<and> b0 \<le> 0xF3 \<and> utf8_cont b1 \<or>
      b0 = 0xF4 \<and> 0x80 \<le> b1 \<and> b1 \<le> 0x8F)"

fun valid_utf8 :: "bytes \<Rightarrow> bool" where
  "valid_utf8 [] = True"
| "valid_utf8 [b0] = (b0 < 0x80)"
| "valid_utf8 [b0, b1] =
     (if b0 < 0x80 then valid_utf8 [b1] else 0xC2 \<le> b0 \<and> b0 \<le> 0xDF \<and> utf8_cont b1)"
| "valid_utf8 [b0, b1, b2] =
     (if b0 < 0x80 then valid_utf8 [b1, b2]
      else if 0xC2 \<le> b0 \<and> b0 \<le> 0xDF then utf8_cont b1 \<and> valid_utf8 [b2]
      else utf8_three b0 b1 \<and> utf8_cont b2)"
| "valid_utf8 (b0 # b1 # b2 # b3 # bs) =
     (if b0 < 0x80 then valid_utf8 (b1 # b2 # b3 # bs)
      else if 0xC2 \<le> b0 \<and> b0 \<le> 0xDF then utf8_cont b1 \<and> valid_utf8 (b2 # b3 # bs)
      else if utf8_three b0 b1 then utf8_cont b2 \<and> valid_utf8 (b3 # bs)
      else utf8_four b0 b1 \<and> utf8_cont b2 \<and> utf8_cont b3 \<and> valid_utf8 bs)"

section \<open>Readers that fit writers\<close>

text \<open>The reader \<open>r\<close> reads the encoding \<open>w\<close> as \<open>x\<close>: it takes exactly those bytes, whatever comes after
  them, and reports a short read on every proper beginning of them.\<close>

definition codes :: "'a reader \<Rightarrow> bytes \<Rightarrow> 'a \<Rightarrow> bool" where
  "codes r w x \<longleftrightarrow>
     (\<forall>rest. r (w @ rest) = Inr (x, rest)) \<and> (\<forall>p. strict_prefix p w \<longrightarrow> r p = Inl ShortRead)"

named_theorems codec \<open>which reader fits which encoding\<close>

lemma codesD: "codes r w x \<Longrightarrow> r (w @ rest) = Inr (x, rest)"
  by (simp add: codes_def)

lemma codesD': "codes r w x \<Longrightarrow> r w = Inr (x, [])"
  using codesD [of r w x "[]"] by simp

lemma codes_short: "codes r w x \<Longrightarrow> strict_prefix p w \<Longrightarrow> r p = Inl ShortRead"
  by (simp add: codes_def)

lemma codes_ret: "codes (ret_r x) [] x"
  by (simp add: codes_def ret_r_def)

lemma codes_ret_iff: "codes (ret_r x) [] y \<longleftrightarrow> x = y"
  by (auto simp: codes_def ret_r_def)

lemma strict_prefix_append_cases:
  assumes "strict_prefix p (u @ v)"
  obtains "strict_prefix p u" | q where "p = u @ q" "strict_prefix q v"
proof (cases "strict_prefix p u")
  case False
  with assms obtain q where "p = u @ q" "prefix q v" by (auto simp: strict_prefix_def prefix_append)
  with assms show thesis by (intro that(2)) (auto simp: strict_prefix_def)
qed (rule that(1))

lemma codes_bind:
  assumes r: "codes r w x" and f: "codes (f x) v y"
  shows "codes (bind_r r f) (w @ v) y"
  unfolding codes_def
proof (intro conjI allI impI)
  show "bind_r r f ((w @ v) @ rest) = Inr (y, rest)" for rest
    using codesD [OF r] codesD [OF f] by (simp add: bind_r_def)
next
  fix p
  assume "strict_prefix p (w @ v)"
  then show "bind_r r f p = Inl ShortRead"
    by (cases rule: strict_prefix_append_cases)
       (simp_all add: bind_r_def codesD [OF r] codes_short [OF r] codes_short [OF f])
qed

lemma codes_bind_last: "codes r w x \<Longrightarrow> codes (f x) [] y \<Longrightarrow> codes (bind_r r f) w y"
  using codes_bind [of r w x f "[]" y] by simp

lemma codes_map: "codes r w x \<Longrightarrow> f x = y \<Longrightarrow> codes (bind_r r (\<lambda>x. ret_r (f x))) w y"
  by (auto intro: codes_bind_last codes_ret)

lemma codes_exact: "length w = n \<Longrightarrow> codes (read_exact n) w w"
  by (auto simp: codes_def read_exact_def dest: prefix_length_less)

subsection \<open>Integers\<close>

lemma length_be_nat [simp]: "length (be_nat n v) = n"
  by (induction n arbitrary: v) auto

lemma from_be_snoc: "from_be (xs @ [b]) = from_be xs * 256 + unat b"
  by (simp add: from_be_def)

lemma from_be_be_nat: "from_be (be_nat n v) = v mod 256 ^ n"
proof (induction n arbitrary: v)
  case 0
  then show ?case by (simp add: from_be_def)
next
  case (Suc n)
  have "unat (word_of_nat (v mod 256) :: u8) = v mod 256" by (simp add: unat_of_nat)
  with Suc show ?case by (simp add: from_be_snoc mod_mult2_eq)
qed

lemma from_be_word: "LENGTH('a) = 8 * n \<Longrightarrow> word_of_nat (from_be (be_nat n (unat v))) = v" for v :: "'a::len word"
proof -
  assume len: "LENGTH('a) = 8 * n"
  have "unat v < 2 ^ LENGTH('a)" by (rule unsigned_less)
  then have "unat v < 256 ^ n" by (simp add: len power_mult)
  then show ?thesis by (simp add: from_be_be_nat)
qed

lemma codes_u8 [codec]: "codes read_u8 (write_u8 b) b"
  unfolding read_u8_def write_u8_def by (rule codes_map [OF codes_exact]) simp_all

lemma codes_u16 [codec]: "codes read_u16 (write_u16 v) v"
  unfolding read_u16_def write_u16_def by (rule codes_map [OF codes_exact]) (simp_all add: from_be_word)

lemma codes_u32 [codec]: "codes read_u32 (write_u32 v) v"
  unfolding read_u32_def write_u32_def by (rule codes_map [OF codes_exact]) (simp_all add: from_be_word)

lemma codes_u64 [codec]: "codes read_u64 (write_u64 v) v"
  unfolding read_u64_def write_u64_def by (rule codes_map [OF codes_exact]) (simp_all add: from_be_word)

lemma codes_hash [codec]: "codes read_hash (write_hash v) v"
  unfolding read_hash_def write_hash_def by (rule codes_map [OF codes_exact]) (simp_all add: from_be_word)

subsection \<open>Scripts, keys and lists\<close>

lemma unat_u16_len: "n < 65536 \<Longrightarrow> unat (word_of_nat n :: u16) = n"
  by (simp add: unat_of_nat)

lemma unat_u32_len: "n < 4294967296 \<Longrightarrow> unat (word_of_nat n :: u32) = n"
  by (simp add: unat_of_nat)

lemma codes_bytes16 [codec]: "length s < 65536 \<Longrightarrow> codes read_bytes16 (write_bytes16 s) s"
  unfolding read_bytes16_def write_bytes16_def
  by (rule codes_bind [OF codes_u16]) (simp add: codes_exact unat_u16_len)

lemma codes_pubkey [codec]: "length k = 33 \<Longrightarrow> vp k \<Longrightarrow> codes (read_pubkey vp) (write_pubkey k) k"
  unfolding read_pubkey_def write_pubkey_def
  by (rule codes_bind_last [OF codes_exact]) (simp_all add: codes_ret)

lemma codes_n: "(\<And>x. x \<in> set xs \<Longrightarrow> codes r (w x) x) \<Longrightarrow> codes (read_n r (length xs)) (concat (map w xs)) xs"
proof (induction xs)
  case (Cons x xs)
  then have "codes (read_n r (length xs)) (concat (map w xs)) xs" by simp
  then have "codes (bind_r (read_n r (length xs)) (\<lambda>xs. ret_r (x # xs))) (concat (map w xs)) (x # xs)"
    by (rule codes_map) simp
  with Cons.prems [of x] show ?case by (simp add: codes_bind)
qed (simp add: codes_ret)

lemma codes_list16 [codec]:
  "length xs < 65536 \<Longrightarrow> (\<And>x. x \<in> set xs \<Longrightarrow> codes r (w x) x) \<Longrightarrow> codes (read_list16 r) (write_list16 w xs) xs"
  unfolding read_list16_def write_list16_def
  by (intro codes_bind [OF codes_u16]) (simp add: unat_u16_len codes_n)

section \<open>Codecs\<close>

text \<open>A message round trip: every valid value can be written and is read back, whatever follows it. No
  two values then share an encoding, and none is a beginning of another's.\<close>

locale wire_round_trip =
  fixes wr :: "'a \<Rightarrow> bytes option" and rd :: "'a reader" and valid :: "'a \<Rightarrow> bool"
  assumes round_trip: "valid x \<Longrightarrow> \<exists>w. wr x = Some w \<and> (\<forall>rest. rd (w @ rest) = Inr (x, rest))"
begin

lemma reads: "valid x \<Longrightarrow> wr x = Some w \<Longrightarrow> rd (w @ rest) = Inr (x, rest)"
  using round_trip [of x] by auto

lemma reads_all: "valid x \<Longrightarrow> wr x = Some w \<Longrightarrow> rd w = Inr (x, [])"
  using reads [of x w "[]"] by simp

lemma prefix_free:
  assumes "valid x" "valid y" "wr x = Some w" "wr y = Some v" "prefix w v"
  shows "x = y"
proof -
  from assms(5) obtain rest where "v = w @ rest" by (auto elim: prefixE)
  with reads [OF assms(1,3), of rest] reads_all [OF assms(2,4)] show ?thesis by simp
qed

end

text \<open>A codec also refuses every message that was cut short.\<close>

locale wire_codec = wire_round_trip +
  assumes cut: "valid x \<Longrightarrow> wr x = Some w \<Longrightarrow> strict_prefix p w \<Longrightarrow> rd p = Inl ShortRead"

lemma wire_codecI:
  assumes "\<And>x. valid x \<Longrightarrow> wr x = Some (enc x)" and "\<And>x. valid x \<Longrightarrow> codes rd (enc x) x"
  shows "wire_codec wr rd valid"
proof
  show "\<exists>w. wr x = Some w \<and> (\<forall>rest. rd (w @ rest) = Inr (x, rest))" if "valid x" for x
    using assms(1) [OF that] codesD [OF assms(2) [OF that]] by simp
  show "rd p = Inl ShortRead" if "valid x" "wr x = Some w" "strict_prefix p w" for x w p
    using that assms(1) codes_short [OF assms(2)] by simp
qed

end
