(* ===== verification/Cooperative_Msg.thy ===== *)
theory Cooperative_Msg
  imports Wire_Codec
begin

text \<open>
  The custom peer messages of the cooperative chain-data path (\<open>cooperative_chain_msg.rs\<close>): one
  record, writer and reader per message, in the order of the wire fields, and the message enum with
  the type-directed reader LDK calls (\<open>cooperative_chain_handler.rs\<close>). Each codec is an
  interpretation of the \<open>wire_codec\<close> contract. A Rust string is its UTF-8 bytes.
\<close>

definition PROTOCOL_VERSION :: u8 where "PROTOCOL_VERSION = 2"

definition TYPE_SUBSCRIBE_CHAIN_DATA :: u16 where "TYPE_SUBSCRIBE_CHAIN_DATA = 32801"
definition TYPE_CHAIN_DATA_BUNDLE :: u16 where "TYPE_CHAIN_DATA_BUNDLE = 32803"
definition TYPE_BLOCK_HEIGHT_UPDATE :: u16 where "TYPE_BLOCK_HEIGHT_UPDATE = 32805"
definition TYPE_FUNDING_TX_CONFIRMED :: u16 where "TYPE_FUNDING_TX_CONFIRMED = 32807"
definition TYPE_FEE_SCHEDULE_UPDATE :: u16 where "TYPE_FEE_SCHEDULE_UPDATE = 32809"
definition TYPE_CHANNEL_STATE_UPDATE :: u16 where "TYPE_CHANNEL_STATE_UPDATE = 32811"
definition TYPE_REGISTER_WATCH_TX :: u16 where "TYPE_REGISTER_WATCH_TX = 32813"
definition TYPE_REGISTER_WATCH_OUTPUT :: u16 where "TYPE_REGISTER_WATCH_OUTPUT = 32815"
definition TYPE_BROADCAST_TX :: u16 where "TYPE_BROADCAST_TX = 32817"
definition TYPE_BROADCAST_ACK :: u16 where "TYPE_BROADCAST_ACK = 32819"
definition TYPE_FEE_RATES_KW :: u16 where "TYPE_FEE_RATES_KW = 32821"
definition TYPE_JIT_FUNDING_ABANDONED :: u16 where "TYPE_JIT_FUNDING_ABANDONED = 32823"

lemmas type_ids = TYPE_SUBSCRIBE_CHAIN_DATA_def TYPE_CHAIN_DATA_BUNDLE_def TYPE_BLOCK_HEIGHT_UPDATE_def
  TYPE_FUNDING_TX_CONFIRMED_def TYPE_FEE_SCHEDULE_UPDATE_def TYPE_CHANNEL_STATE_UPDATE_def
  TYPE_REGISTER_WATCH_TX_def TYPE_REGISTER_WATCH_OUTPUT_def TYPE_BROADCAST_TX_def TYPE_BROADCAST_ACK_def
  TYPE_FEE_RATES_KW_def TYPE_JIT_FUNDING_ABANDONED_def

definition write_version :: bytes where
  "write_version = write_u8 PROTOCOL_VERSION"

definition read_version :: "u8 reader" where
  "read_version = bind_r read_u8 (\<lambda>v. if v \<noteq> PROTOCOL_VERSION then fail_r InvalidValue else ret_r v)"

section \<open>SubscribeChainData\<close>

record subscribe_chain_data =
  watch_txids :: "txid list"
  watch_scripts :: "script_buf list"

definition write_subscribe :: "subscribe_chain_data \<Rightarrow> bytes option" where
  "write_subscribe m = Some (write_version @
     write_list16 write_hash (watch_txids m) @
     write_list16 write_script (watch_scripts m))"

definition read_subscribe :: "subscribe_chain_data reader" where
  "read_subscribe =
     bind_r read_version (\<lambda>_.
     bind_r (read_list16 read_hash) (\<lambda>txids.
     bind_r (read_list16 read_script) (\<lambda>scripts.
     ret_r \<lparr>watch_txids = txids, watch_scripts = scripts\<rparr>)))"

section \<open>ChainDataBundle\<close>

record chain_data_bundle =
  cdb_tip_height :: u32
  cdb_tip_blockhash :: block_hash
  recent_blockhashes :: "block_hash list"
  cdb_fee_fast :: u32
  cdb_fee_medium :: u32
  cdb_fee_slow :: u32

definition write_bundle :: "chain_data_bundle \<Rightarrow> bytes option" where
  "write_bundle m = Some (write_version @ write_u32 (cdb_tip_height m) @ write_hash (cdb_tip_blockhash m) @
     write_list16 write_hash (recent_blockhashes m) @
     write_u32 (cdb_fee_fast m) @ write_u32 (cdb_fee_medium m) @ write_u32 (cdb_fee_slow m))"

definition read_bundle :: "chain_data_bundle reader" where
  "read_bundle =
     bind_r read_version (\<lambda>_.
     bind_r read_u32 (\<lambda>h.
     bind_r read_hash (\<lambda>bh.
     bind_r (read_list16 read_hash) (\<lambda>recent.
     bind_r read_u32 (\<lambda>fast.
     bind_r read_u32 (\<lambda>medium.
     bind_r read_u32 (\<lambda>slow.
     ret_r \<lparr>cdb_tip_height = h, cdb_tip_blockhash = bh, recent_blockhashes = recent, cdb_fee_fast = fast,
            cdb_fee_medium = medium, cdb_fee_slow = slow\<rparr>)))))))"

section \<open>FeeRatesKw\<close>

record fee_rates_kw =
  fast_sat_per_kw :: u32
  medium_sat_per_kw :: u32
  slow_sat_per_kw :: u32
  relay_floor_sat_per_kw :: u32

definition write_fee_rates_kw :: "fee_rates_kw \<Rightarrow> bytes option" where
  "write_fee_rates_kw m = Some (write_version @ write_u32 (fast_sat_per_kw m) @ write_u32 (medium_sat_per_kw m) @
     write_u32 (slow_sat_per_kw m) @ write_u32 (relay_floor_sat_per_kw m))"

definition read_fee_rates_kw :: "fee_rates_kw reader" where
  "read_fee_rates_kw =
     bind_r read_version (\<lambda>_.
     bind_r read_u32 (\<lambda>fast.
     bind_r read_u32 (\<lambda>medium.
     bind_r read_u32 (\<lambda>slow.
     bind_r read_u32 (\<lambda>floor.
     ret_r \<lparr>fast_sat_per_kw = fast, medium_sat_per_kw = medium, slow_sat_per_kw = slow,
            relay_floor_sat_per_kw = floor\<rparr>)))))"

section \<open>JitFundingAbandoned\<close>

record jit_funding_abandoned =
  jfa_funding_txid :: txid
  jfa_output_index :: u32

definition write_abandoned :: "jit_funding_abandoned \<Rightarrow> bytes option" where
  "write_abandoned m = Some (write_version @ write_hash (jfa_funding_txid m) @ write_u32 (jfa_output_index m))"

definition read_abandoned :: "jit_funding_abandoned reader" where
  "read_abandoned =
     bind_r read_version (\<lambda>_.
     bind_r read_hash (\<lambda>tx.
     bind_r read_u32 (\<lambda>ix. ret_r \<lparr>jfa_funding_txid = tx, jfa_output_index = ix\<rparr>)))"

section \<open>BlockHeightUpdate\<close>

record block_height_update =
  new_height :: u32
  new_blockhash :: block_hash

definition write_height_update :: "block_height_update \<Rightarrow> bytes option" where
  "write_height_update m = Some (write_version @ write_u32 (new_height m) @ write_hash (new_blockhash m))"

definition read_height_update :: "block_height_update reader" where
  "read_height_update =
     bind_r read_version (\<lambda>_.
     bind_r read_u32 (\<lambda>h.
     bind_r read_hash (\<lambda>bh. ret_r \<lparr>new_height = h, new_blockhash = bh\<rparr>)))"

section \<open>FundingTxConfirmed\<close>

record funding_tx_confirmed =
  ftc_txid :: txid
  confirmed_at_height :: u32
  blockhash_of_confirmation :: block_hash
  confirmations :: u32
  raw_tx_bytes :: bytes
  tx_index :: u32

text \<open>Transaction bytes with their length in front as a \<open>u32\<close>; a reader takes at most 1 MB.\<close>

definition write_blob :: "bytes \<Rightarrow> bytes" where
  "write_blob raw = write_u32 (word_of_nat (length raw)) @ raw"

definition read_blob :: "bytes reader" where
  "read_blob = bind_r read_u32 (\<lambda>len. if 1000000 < len then fail_r InvalidValue else read_exact (unat len))"

definition write_funding_body :: "funding_tx_confirmed \<Rightarrow> bytes" where
  "write_funding_body m = write_version @ write_hash (ftc_txid m) @ write_u32 (confirmed_at_height m) @
     write_hash (blockhash_of_confirmation m) @ write_u32 (confirmations m) @
     write_blob (raw_tx_bytes m)"

definition write_funding :: "funding_tx_confirmed \<Rightarrow> bytes option" where
  "write_funding m = (if 1000000 < length (raw_tx_bytes m) then None
     else Some (write_funding_body m @ write_u32 (tx_index m)))"

text \<open>Old senders stop after the transaction: a short read of the index is index 0.\<close>

definition read_tx_index :: "u32 reader" where
  "read_tx_index bs = (case read_u32 bs of
     Inr r \<Rightarrow> Inr r | Inl ShortRead \<Rightarrow> Inr (0, bs) | Inl e \<Rightarrow> Inl e)"

definition read_funding_body :: "funding_tx_confirmed reader" where
  "read_funding_body =
     bind_r read_version (\<lambda>_.
     bind_r read_hash (\<lambda>tx.
     bind_r read_u32 (\<lambda>h.
     bind_r read_hash (\<lambda>bh.
     bind_r read_u32 (\<lambda>confs.
     bind_r read_blob (\<lambda>raw.
     ret_r \<lparr>ftc_txid = tx, confirmed_at_height = h, blockhash_of_confirmation = bh, confirmations = confs,
            raw_tx_bytes = raw, tx_index = 0\<rparr>))))))"

definition read_funding :: "funding_tx_confirmed reader" where
  "read_funding = bind_r read_funding_body (\<lambda>m. bind_r read_tx_index (\<lambda>ix. ret_r (m\<lparr>tx_index := ix\<rparr>)))"

section \<open>FeeScheduleUpdate\<close>

record fee_schedule_update =
  fsu_fee_fast :: u32
  fsu_fee_medium :: u32
  fsu_fee_slow :: u32

definition write_fee_schedule :: "fee_schedule_update \<Rightarrow> bytes option" where
  "write_fee_schedule m = Some (write_version @ write_u32 (fsu_fee_fast m) @ write_u32 (fsu_fee_medium m) @
     write_u32 (fsu_fee_slow m))"

definition read_fee_schedule :: "fee_schedule_update reader" where
  "read_fee_schedule =
     bind_r read_version (\<lambda>_.
     bind_r read_u32 (\<lambda>fast.
     bind_r read_u32 (\<lambda>medium.
     bind_r read_u32 (\<lambda>slow. ret_r \<lparr>fsu_fee_fast = fast, fsu_fee_medium = medium, fsu_fee_slow = slow\<rparr>))))"

section \<open>ChannelStateUpdate\<close>

datatype channel_state_change =
  Pending | Active | Inactive | CooperativeCloseInitiated | ForceCloseInitiated | ClosedOnChain

fun csc_as_u8 :: "channel_state_change \<Rightarrow> u8" where
  "csc_as_u8 Pending = 0"
| "csc_as_u8 Active = 1"
| "csc_as_u8 Inactive = 2"
| "csc_as_u8 CooperativeCloseInitiated = 3"
| "csc_as_u8 ForceCloseInitiated = 4"
| "csc_as_u8 ClosedOnChain = 5"

definition csc_from_u8 :: "u8 \<Rightarrow> channel_state_change reader" where
  "csc_from_u8 b = (if b = 0 then ret_r Pending else if b = 1 then ret_r Active else if b = 2 then ret_r Inactive
     else if b = 3 then ret_r CooperativeCloseInitiated else if b = 4 then ret_r ForceCloseInitiated
     else if b = 5 then ret_r ClosedOnChain else fail_r InvalidValue)"

record channel_state_update =
  counterparty_pubkey :: bytes
  csu_funding_txid :: txid
  csu_state :: channel_state_change
  observed_at_height :: "u32 option"

definition write_opt :: "('a \<Rightarrow> bytes) \<Rightarrow> 'a option \<Rightarrow> bytes" where
  "write_opt w v = (case v of Some x \<Rightarrow> write_u8 1 @ w x | None \<Rightarrow> write_u8 0)"

definition read_opt :: "'a reader \<Rightarrow> 'a option reader" where
  "read_opt r = bind_r read_u8 (\<lambda>b. if b = 0 then ret_r None
     else if b = 1 then bind_r r (\<lambda>x. ret_r (Some x)) else fail_r InvalidValue)"

definition write_channel_state :: "channel_state_update \<Rightarrow> bytes option" where
  "write_channel_state m = Some (write_version @ write_pubkey (counterparty_pubkey m) @ write_hash (csu_funding_txid m) @
     write_u8 (csc_as_u8 (csu_state m)) @ write_opt write_u32 (observed_at_height m))"

definition read_channel_state :: "(bytes \<Rightarrow> bool) \<Rightarrow> channel_state_update reader" where
  "read_channel_state vp =
     bind_r read_version (\<lambda>_.
     bind_r (read_pubkey vp) (\<lambda>k.
     bind_r read_hash (\<lambda>tx.
     bind_r (bind_r read_u8 csc_from_u8) (\<lambda>st.
     bind_r (read_opt read_u32) (\<lambda>h.
     ret_r \<lparr>counterparty_pubkey = k, csu_funding_txid = tx, csu_state = st, observed_at_height = h\<rparr>)))))"

section \<open>RegisterWatchTx and RegisterWatchOutput\<close>

record register_watch_tx =
  rwt_txid :: txid
  rwt_script_pubkey :: script_buf

definition write_register_tx :: "register_watch_tx \<Rightarrow> bytes option" where
  "write_register_tx m = Some (write_version @ write_hash (rwt_txid m) @ write_script (rwt_script_pubkey m))"

definition read_register_tx :: "register_watch_tx reader" where
  "read_register_tx =
     bind_r read_version (\<lambda>_.
     bind_r read_hash (\<lambda>tx.
     bind_r read_script (\<lambda>s. ret_r \<lparr>rwt_txid = tx, rwt_script_pubkey = s\<rparr>)))"

record register_watch_output =
  rwo_funding_txid :: txid
  rwo_output_index :: u32
  rwo_script_pubkey :: script_buf
  created_in_block :: "block_hash option"

definition write_register_output :: "register_watch_output \<Rightarrow> bytes option" where
  "write_register_output m = Some (write_version @ write_hash (rwo_funding_txid m) @ write_u32 (rwo_output_index m) @
     write_script (rwo_script_pubkey m) @ write_opt write_hash (created_in_block m))"

definition read_register_output :: "register_watch_output reader" where
  "read_register_output =
     bind_r read_version (\<lambda>_.
     bind_r read_hash (\<lambda>tx.
     bind_r read_u32 (\<lambda>ix.
     bind_r read_script (\<lambda>s.
     bind_r (read_opt read_hash) (\<lambda>b.
     ret_r \<lparr>rwo_funding_txid = tx, rwo_output_index = ix, rwo_script_pubkey = s, created_in_block = b\<rparr>)))))"

section \<open>BroadcastTx and BroadcastAck\<close>

record broadcast_tx =
  btx_request_id :: u64
  btx_raw_tx :: bytes

definition write_broadcast_tx :: "broadcast_tx \<Rightarrow> bytes option" where
  "write_broadcast_tx m = Some (write_version @ write_u64 (btx_request_id m) @
     write_blob (btx_raw_tx m))"

definition read_broadcast_tx :: "broadcast_tx reader" where
  "read_broadcast_tx =
     bind_r read_version (\<lambda>_.
     bind_r read_u64 (\<lambda>rid.
     bind_r read_blob (\<lambda>raw. ret_r \<lparr>btx_request_id = rid, btx_raw_tx = raw\<rparr>)))"

datatype broadcast_result = Relayed | Rejected | Unavailable

fun br_as_u8 :: "broadcast_result \<Rightarrow> u8" where
  "br_as_u8 Relayed = 0"
| "br_as_u8 Rejected = 1"
| "br_as_u8 Unavailable = 2"

definition br_from_u8 :: "u8 \<Rightarrow> broadcast_result reader" where
  "br_from_u8 b = (if b = 0 then ret_r Relayed else if b = 1 then ret_r Rejected
     else if b = 2 then ret_r Unavailable else fail_r InvalidValue)"

record broadcast_ack =
  ack_request_id :: u64
  ack_result :: broadcast_result
  ack_detail :: bytes

definition write_broadcast_ack :: "broadcast_ack \<Rightarrow> bytes option" where
  "write_broadcast_ack m = (if 65535 < length (ack_detail m) then None
     else Some (write_version @ write_u64 (ack_request_id m) @ write_u8 (br_as_u8 (ack_result m)) @
       write_bytes16 (ack_detail m)))"

definition read_broadcast_ack :: "broadcast_ack reader" where
  "read_broadcast_ack =
     bind_r read_version (\<lambda>_.
     bind_r read_u64 (\<lambda>rid.
     bind_r (bind_r read_u8 br_from_u8) (\<lambda>res.
     bind_r read_bytes16 (\<lambda>detail.
     if valid_utf8 detail then ret_r \<lparr>ack_request_id = rid, ack_result = res, ack_detail = detail\<rparr>
     else fail_r InvalidValue))))"

section \<open>The message enum\<close>

datatype cooperative_chain_message =
    SubscribeChainData subscribe_chain_data
  | ChainDataBundle chain_data_bundle
  | BlockHeightUpdate block_height_update
  | FundingTxConfirmed funding_tx_confirmed
  | FeeScheduleUpdate fee_schedule_update
  | ChannelStateUpdate channel_state_update
  | RegisterWatchTx register_watch_tx
  | RegisterWatchOutput register_watch_output
  | BroadcastTx broadcast_tx
  | BroadcastAck broadcast_ack
  | FeeRatesKw fee_rates_kw
  | JitFundingAbandoned jit_funding_abandoned

fun write_message :: "cooperative_chain_message \<Rightarrow> bytes option" where
  "write_message (SubscribeChainData m) = write_subscribe m"
| "write_message (ChainDataBundle m) = write_bundle m"
| "write_message (BlockHeightUpdate m) = write_height_update m"
| "write_message (FundingTxConfirmed m) = write_funding m"
| "write_message (FeeScheduleUpdate m) = write_fee_schedule m"
| "write_message (ChannelStateUpdate m) = write_channel_state m"
| "write_message (RegisterWatchTx m) = write_register_tx m"
| "write_message (RegisterWatchOutput m) = write_register_output m"
| "write_message (BroadcastTx m) = write_broadcast_tx m"
| "write_message (BroadcastAck m) = write_broadcast_ack m"
| "write_message (FeeRatesKw m) = write_fee_rates_kw m"
| "write_message (JitFundingAbandoned m) = write_abandoned m"

fun type_id :: "cooperative_chain_message \<Rightarrow> u16" where
  "type_id (SubscribeChainData _) = TYPE_SUBSCRIBE_CHAIN_DATA"
| "type_id (ChainDataBundle _) = TYPE_CHAIN_DATA_BUNDLE"
| "type_id (BlockHeightUpdate _) = TYPE_BLOCK_HEIGHT_UPDATE"
| "type_id (FundingTxConfirmed _) = TYPE_FUNDING_TX_CONFIRMED"
| "type_id (FeeScheduleUpdate _) = TYPE_FEE_SCHEDULE_UPDATE"
| "type_id (ChannelStateUpdate _) = TYPE_CHANNEL_STATE_UPDATE"
| "type_id (RegisterWatchTx _) = TYPE_REGISTER_WATCH_TX"
| "type_id (RegisterWatchOutput _) = TYPE_REGISTER_WATCH_OUTPUT"
| "type_id (BroadcastTx _) = TYPE_BROADCAST_TX"
| "type_id (BroadcastAck _) = TYPE_BROADCAST_ACK"
| "type_id (FeeRatesKw _) = TYPE_FEE_RATES_KW"
| "type_id (JitFundingAbandoned _) = TYPE_JIT_FUNDING_ABANDONED"

definition decoded :: "('a \<Rightarrow> cooperative_chain_message) \<Rightarrow> 'a reader \<Rightarrow> bytes \<Rightarrow>
    decode_error + cooperative_chain_message option" where
  "decoded C r bs = (case r bs of Inl e \<Rightarrow> Inl e | Inr (m, _) \<Rightarrow> Inr (Some (C m)))"

text \<open>\<open>CustomMessageReader::read\<close>: what is left in the buffer is dropped; an unknown type is ignored.\<close>

definition handler_read :: "(bytes \<Rightarrow> bool) \<Rightarrow> u16 \<Rightarrow> bytes \<Rightarrow> decode_error + cooperative_chain_message option" where
  "handler_read vp ty bs =
     (if ty = TYPE_SUBSCRIBE_CHAIN_DATA then decoded SubscribeChainData read_subscribe bs
      else if ty = TYPE_CHAIN_DATA_BUNDLE then decoded ChainDataBundle read_bundle bs
      else if ty = TYPE_BLOCK_HEIGHT_UPDATE then decoded BlockHeightUpdate read_height_update bs
      else if ty = TYPE_FUNDING_TX_CONFIRMED then decoded FundingTxConfirmed read_funding bs
      else if ty = TYPE_FEE_SCHEDULE_UPDATE then decoded FeeScheduleUpdate read_fee_schedule bs
      else if ty = TYPE_CHANNEL_STATE_UPDATE then decoded ChannelStateUpdate (read_channel_state vp) bs
      else if ty = TYPE_REGISTER_WATCH_TX then decoded RegisterWatchTx read_register_tx bs
      else if ty = TYPE_REGISTER_WATCH_OUTPUT then decoded RegisterWatchOutput read_register_output bs
      else if ty = TYPE_BROADCAST_TX then decoded BroadcastTx read_broadcast_tx bs
      else if ty = TYPE_BROADCAST_ACK then decoded BroadcastAck read_broadcast_ack bs
      else if ty = TYPE_FEE_RATES_KW then decoded FeeRatesKw read_fee_rates_kw bs
      else if ty = TYPE_JIT_FUNDING_ABANDONED then decoded JitFundingAbandoned read_abandoned bs
      else Inr None)"

section \<open>Which messages fit their fields\<close>

abbreviation short_script :: "script_buf \<Rightarrow> bool" where
  "short_script sc \<equiv> length sc < 65536"

definition valid_subscribe :: "subscribe_chain_data \<Rightarrow> bool" where
  "valid_subscribe m = (length (watch_txids m) < 65536 \<and> length (watch_scripts m) < 65536 \<and>
     list_all short_script (watch_scripts m))"

definition valid_bundle :: "chain_data_bundle \<Rightarrow> bool" where
  "valid_bundle m = (length (recent_blockhashes m) < 65536)"

definition valid_funding :: "funding_tx_confirmed \<Rightarrow> bool" where
  "valid_funding m = (length (raw_tx_bytes m) \<le> 1000000)"

definition valid_channel_state :: "(bytes \<Rightarrow> bool) \<Rightarrow> channel_state_update \<Rightarrow> bool" where
  "valid_channel_state vp m = (length (counterparty_pubkey m) = 33 \<and> vp (counterparty_pubkey m))"

definition valid_ack :: "broadcast_ack \<Rightarrow> bool" where
  "valid_ack m = (length (ack_detail m) < 65536 \<and> valid_utf8 (ack_detail m))"

fun valid_message :: "(bytes \<Rightarrow> bool) \<Rightarrow> cooperative_chain_message \<Rightarrow> bool" where
  "valid_message vp (SubscribeChainData m) = valid_subscribe m"
| "valid_message vp (ChainDataBundle m) = valid_bundle m"
| "valid_message vp (FundingTxConfirmed m) = valid_funding m"
| "valid_message vp (ChannelStateUpdate m) = valid_channel_state vp m"
| "valid_message vp (RegisterWatchTx m) = short_script (rwt_script_pubkey m)"
| "valid_message vp (RegisterWatchOutput m) = short_script (rwo_script_pubkey m)"
| "valid_message vp (BroadcastTx m) = (length (btx_raw_tx m) \<le> 1000000)"
| "valid_message vp (BroadcastAck m) = valid_ack m"
| "valid_message vp m = True"

section \<open>Lemmas\<close>

lemma codes_version [codec]: "codes read_version write_version PROTOCOL_VERSION"
  unfolding read_version_def write_version_def
  by (rule codes_bind_last [OF codes_u8]) (simp add: codes_ret)

lemma codes_blob [codec]: "length raw \<le> 1000000 \<Longrightarrow> codes read_blob (write_blob raw) raw"
  unfolding read_blob_def write_blob_def
  by (rule codes_bind [OF codes_u32]) (simp add: unat_u32_len word_less_nat_alt codes_exact)

lemma codes_opt [codec]:
  assumes "\<And>x. v = Some x \<Longrightarrow> codes r (w x) x"
  shows "codes (read_opt r) (write_opt w v) v"
proof (cases v)
  case None
  then show ?thesis
    by (simp add: read_opt_def write_opt_def codes_bind_last [OF codes_u8] codes_ret)
next
  case (Some x)
  show ?thesis
    unfolding read_opt_def write_opt_def Some option.case
    by (rule codes_bind [OF codes_u8]) (simp add: codes_map [OF assms [OF Some]])
qed

lemma codes_csc [codec]: "codes (bind_r read_u8 csc_from_u8) (write_u8 (csc_as_u8 st)) st"
  by (rule codes_bind_last [OF codes_u8]) (cases st; simp add: csc_from_u8_def codes_ret)

lemma codes_br [codec]: "codes (bind_r read_u8 br_from_u8) (write_u8 (br_as_u8 st)) st"
  by (rule codes_bind_last [OF codes_u8]) (cases st; simp add: br_from_u8_def codes_ret)

text \<open>Field by field: a reader that starts with a fitting field, and one that ends with it.\<close>

lemmas message_codec = codec codec [THEN codes_bind] codec [THEN codes_map]

lemma codes_funding_body:
  "valid_funding m \<Longrightarrow> codes read_funding_body (write_funding_body m) (m\<lparr>tx_index := 0\<rparr>)"
  unfolding read_funding_body_def write_funding_body_def
  by (intro message_codec; simp add: valid_funding_def)

lemma read_funding_full:
  assumes "valid_funding m"
  shows "read_funding (write_funding_body m @ write_u32 (tx_index m) @ rest) = Inr (m, rest)"
  by (simp add: read_funding_def bind_r_def codesD [OF codes_funding_body [OF assms]] read_tx_index_def
      codesD [OF codes_u32] ret_r_def)

text \<open>A confirmation cut inside its index, or sent without one, reads as index 0; cut any earlier it is
  refused.\<close>

lemma read_funding_cut:
  assumes "valid_funding m" and "strict_prefix p (write_funding_body m @ write_u32 (tx_index m))"
  shows "read_funding p = (if length p < length (write_funding_body m) then Inl ShortRead
           else Inr (m\<lparr>tx_index := 0\<rparr>, drop (length (write_funding_body m)) p))"
  using assms(2)
proof (cases rule: strict_prefix_append_cases)
  case 1
  then show ?thesis
    by (simp add: read_funding_def bind_r_def codes_short [OF codes_funding_body [OF assms(1)]] prefix_length_less)
next
  case (2 q)
  then show ?thesis
    by (simp add: read_funding_def bind_r_def codesD [OF codes_funding_body [OF assms(1)]] read_tx_index_def
        codes_short [OF codes_u32] ret_r_def)
qed

section \<open>The codecs\<close>

lemmas message_defs = write_subscribe_def read_subscribe_def write_bundle_def read_bundle_def write_fee_rates_kw_def
  read_fee_rates_kw_def write_abandoned_def read_abandoned_def write_height_update_def read_height_update_def
  write_fee_schedule_def read_fee_schedule_def write_channel_state_def read_channel_state_def write_register_tx_def
  read_register_tx_def write_register_output_def read_register_output_def write_broadcast_tx_def read_broadcast_tx_def

interpretation subscribe: wire_codec write_subscribe read_subscribe valid_subscribe
  by (rule wire_codecI, unfold message_defs, rule refl)
     ((intro message_codec)?; simp add: valid_subscribe_def list_all_iff)

interpretation chain_bundle: wire_codec write_bundle read_bundle valid_bundle
  by (rule wire_codecI, unfold message_defs, rule refl)
     ((intro message_codec)?; simp add: valid_bundle_def)

interpretation fee_rates: wire_codec write_fee_rates_kw read_fee_rates_kw "\<lambda>_. True"
  by (rule wire_codecI, unfold message_defs, rule refl)
     ((intro message_codec)?; simp)

interpretation abandoned: wire_codec write_abandoned read_abandoned "\<lambda>_. True"
  by (rule wire_codecI, unfold message_defs, rule refl)
     ((intro message_codec)?; simp)

interpretation height_update: wire_codec write_height_update read_height_update "\<lambda>_. True"
  by (rule wire_codecI, unfold message_defs, rule refl)
     ((intro message_codec)?; simp)

interpretation funding: wire_round_trip write_funding read_funding valid_funding
  by unfold_locales (simp add: write_funding_def valid_funding_def read_funding_full)

interpretation fee_schedule: wire_codec write_fee_schedule read_fee_schedule "\<lambda>_. True"
  by (rule wire_codecI, unfold message_defs, rule refl)
     ((intro message_codec)?; simp)

interpretation channel_state: wire_codec write_channel_state "read_channel_state vp" "valid_channel_state vp" for vp
  by (rule wire_codecI, unfold message_defs, rule refl)
     ((intro message_codec)?; simp add: valid_channel_state_def)

interpretation register_tx: wire_codec write_register_tx read_register_tx "\<lambda>m. short_script (rwt_script_pubkey m)"
  by (rule wire_codecI, unfold message_defs, rule refl)
     ((intro message_codec)?; simp)

interpretation register_output:
  wire_codec write_register_output read_register_output "\<lambda>m. short_script (rwo_script_pubkey m)"
  by (rule wire_codecI, unfold message_defs, rule refl)
     ((intro message_codec)?; simp)

interpretation broadcast_tx: wire_codec write_broadcast_tx read_broadcast_tx "\<lambda>m. length (btx_raw_tx m) \<le> 1000000"
  by (rule wire_codecI, unfold message_defs, rule refl)
     ((intro message_codec)?; simp)

interpretation broadcast_ack: wire_codec write_broadcast_ack read_broadcast_ack valid_ack
proof (rule wire_codecI)
  fix m
  assume m: "valid_ack m"
  show "write_broadcast_ack m = Some (write_version @ write_u64 (ack_request_id m) @ write_u8 (br_as_u8 (ack_result m)) @
      write_bytes16 (ack_detail m))"
    using m by (simp add: write_broadcast_ack_def valid_ack_def)
  show "codes read_broadcast_ack (write_version @ write_u64 (ack_request_id m) @ write_u8 (br_as_u8 (ack_result m)) @
      write_bytes16 (ack_detail m)) m"
    unfolding read_broadcast_ack_def
    using m by (intro message_codec codec [THEN codes_bind_last]; simp add: valid_ack_def codes_ret_iff)
qed

text \<open>The reader LDK calls, by the message it is called for.\<close>

lemma handler_read_of:
  "handler_read vp (type_id m) bs = (case m of
     SubscribeChainData _ \<Rightarrow> decoded SubscribeChainData read_subscribe bs
   | ChainDataBundle _ \<Rightarrow> decoded ChainDataBundle read_bundle bs
   | BlockHeightUpdate _ \<Rightarrow> decoded BlockHeightUpdate read_height_update bs
   | FundingTxConfirmed _ \<Rightarrow> decoded FundingTxConfirmed read_funding bs
   | FeeScheduleUpdate _ \<Rightarrow> decoded FeeScheduleUpdate read_fee_schedule bs
   | ChannelStateUpdate _ \<Rightarrow> decoded ChannelStateUpdate (read_channel_state vp) bs
   | RegisterWatchTx _ \<Rightarrow> decoded RegisterWatchTx read_register_tx bs
   | RegisterWatchOutput _ \<Rightarrow> decoded RegisterWatchOutput read_register_output bs
   | BroadcastTx _ \<Rightarrow> decoded BroadcastTx read_broadcast_tx bs
   | BroadcastAck _ \<Rightarrow> decoded BroadcastAck read_broadcast_ack bs
   | FeeRatesKw _ \<Rightarrow> decoded FeeRatesKw read_fee_rates_kw bs
   | JitFundingAbandoned _ \<Rightarrow> decoded JitFundingAbandoned read_abandoned bs)"
  by (cases m) (simp_all add: handler_read_def type_ids)

lemmas all_round_trips = subscribe.round_trip chain_bundle.round_trip fee_rates.round_trip abandoned.round_trip
  height_update.round_trip funding.round_trip fee_schedule.round_trip channel_state.round_trip register_tx.round_trip
  register_output.round_trip broadcast_tx.round_trip broadcast_ack.round_trip

lemmas all_cuts = subscribe.cut chain_bundle.cut fee_rates.cut abandoned.cut height_update.cut fee_schedule.cut
  channel_state.cut register_tx.cut register_output.cut broadcast_tx.cut broadcast_ack.cut

lemma decoded_round_trip:
  "\<exists>w. wr x = Some w \<and> (\<forall>rest. r (w @ rest) = Inr (x, rest)) \<Longrightarrow>
     \<exists>w. wr x = Some w \<and> (\<forall>rest. decoded C r (w @ rest) = Inr (Some (C x)))"
  by (auto simp: decoded_def)

lemma decoded_cut: "r p = Inl ShortRead \<Longrightarrow> decoded C r p = Inl ShortRead"
  by (simp add: decoded_def)

lemma wrong_version: "b \<noteq> 2 \<Longrightarrow> bind_r read_version f (b # bs) = Inl InvalidValue"
  by (simp add: bind_r_def read_version_def read_u8_def read_exact_def ret_r_def fail_r_def PROTOCOL_VERSION_def)

section \<open>Properties\<close>

text \<open>C29: every message whose fields fit the wire format can be written, and whatever bytes follow it, the
  reader LDK calls for its type gives back that message.\<close>

theorem message_round_trip:
  assumes "valid_message vp m"
  shows "\<exists>w. write_message m = Some w \<and> (\<forall>rest. handler_read vp (type_id m) (w @ rest) = Inr (Some m))"
  unfolding handler_read_of
  using assms by (cases m) (simp_all add: decoded_round_trip all_round_trips)

theorem message_round_trip_witness:
  "\<exists>w. write_message (BlockHeightUpdate \<lparr>new_height = 900000, new_blockhash = 7\<rparr>) = Some w \<and>
     handler_read (\<lambda>_. False) 32805 (w @ [1, 2]) = Inr (Some (BlockHeightUpdate \<lparr>new_height = 900000, new_blockhash = 7\<rparr>))"
  using message_round_trip [of "\<lambda>_. False" "BlockHeightUpdate \<lparr>new_height = 900000, new_blockhash = 7\<rparr>"]
  by (auto simp: TYPE_BLOCK_HEIGHT_UPDATE_def)

text \<open>A message cut short at any byte is refused as a short read. The one exception is a funding
  confirmation that is complete up to its transaction index, which is read with index 0.\<close>

theorem message_cut_short:
  assumes "valid_message vp m" and "write_message m = Some w" and "strict_prefix p w"
  shows "handler_read vp (type_id m) p = (case m of
     FundingTxConfirmed c \<Rightarrow> (if length p < length w - 4 then Inl ShortRead
                             else Inr (Some (FundingTxConfirmed (c\<lparr>tx_index := 0\<rparr>))))
   | _ \<Rightarrow> Inl ShortRead)"
proof (cases m)
  case (FundingTxConfirmed c)
  with assms have w: "w = write_funding_body c @ write_u32 (tx_index c)" and v: "valid_funding c"
    by (auto simp: write_funding_def split: if_splits)
  show ?thesis
    using read_funding_cut [OF v assms(3) [unfolded w]] unfolding handler_read_of FundingTxConfirmed w
    by (simp add: decoded_def write_u32_def)
qed (use assms in \<open>unfold handler_read_of, auto intro!: decoded_cut intro: all_cuts\<close>)

theorem message_cut_short_witness:
  "handler_read (\<lambda>_. False) 32821 [2, 0, 0] = Inl ShortRead"
proof -
  let ?m = "FeeRatesKw \<lparr>fast_sat_per_kw = 1, medium_sat_per_kw = 1, slow_sat_per_kw = 1, relay_floor_sat_per_kw = 1\<rparr>"
  have w: "write_message ?m = Some [2, 0, 0, 0, 1, 0, 0, 0, 1, 0, 0, 0, 1, 0, 0, 0, 1]" by code_simp
  have "strict_prefix [2, 0, 0] [2, 0, 0, 0, 1, 0, 0, 0, 1, 0, 0, 0, 1, 0, 0, 0, 1 :: u8]" by simp
  from message_cut_short [OF _ w this] show ?thesis by (simp add: TYPE_FEE_RATES_KW_def)
qed

text \<open>A message of a known type whose version byte is not 2 is refused, whatever follows it; bytes of
  an unknown type are ignored.\<close>

theorem other_versions_refused:
  assumes "b \<noteq> 2"
  shows "handler_read vp ty (b # bs) =
    (if list_ex (\<lambda>t. ty = t) [32801, 32803, 32805, 32807, 32809, 32811, 32813, 32815, 32817, 32819, 32821, 32823]
     then Inl InvalidValue else Inr None)"
  unfolding handler_read_def type_ids message_defs read_funding_def read_funding_body_def read_broadcast_ack_def
  by (simp add: decoded_def bind_r_def [of "bind_r read_version _"] wrong_version [OF assms])

theorem other_versions_refused_witness:
  "handler_read (\<lambda>_. True) 32805 [1, 0, 0] = Inl InvalidValue \<and> handler_read (\<lambda>_. True) 32806 [1] = Inr None"
  using other_versions_refused [of 1 "\<lambda>_. True" 32805 "[0, 0]"] other_versions_refused [of 1 "\<lambda>_. True" 32806 "[]"]
  by simp

end
