(* ===== verification/Broadcaster.thy ===== *)
theory Broadcaster
  imports Independent_Quorum "HOL-Library.Multiset"
begin

text \<open>
  The queue between LDK and the two broadcast paths (\<open>broadcaster.rs\<close>). LDK's synchronous call only
  enqueues; \<open>process_queue\<close> drains the queue and, every thirtieth call, the slow ring of transactions
  that ran out of fast attempts. A path is a function from the state \<open>'w\<close> of the world and the raw
  transaction to the new state and the answer: \<open>None\<close> when the path is not wired or not available.
  The independent path is \<open>broadcast_to_quorum\<close>, the cooperative one is the bridge's. A drain runs to its
  end before the next call; serialisation, transaction ids and transaction parsing (the \<open>bitcoin\<close>
  crate) are arguments. Besides the new state a drain gives the transactions it let go of, each with the
  reason the source logs.
\<close>

definition MAX_BROADCAST_ATTEMPTS :: u8 where "MAX_BROADCAST_ATTEMPTS = 3"
definition PARK_INTERVAL_ROUNDS :: u64 where "PARK_INTERVAL_ROUNDS = 30"
definition MAX_CONFLICT_STRIKES :: u8 where "MAX_CONFLICT_STRIKES = 10"

datatype err_class = AlreadyKnown | Conflict | Transient

definition classify_err :: "string \<Rightarrow> err_class" where
  "classify_err msg =
     (let m = map to_lower msg
      in if str_contains m ''already'' \<or> str_contains m ''duplicate'' then AlreadyKnown
         else if str_contains m ''missingorspent'' \<or> str_contains m ''bad-txns'' \<or>
                 str_contains m ''mempool-conflict'' \<or> str_contains m ''conflict'' then Conflict
         else Transient)"

record pending_tx =
  ptx_raw :: bytes
  ptx_txid_hex :: string
  attempts :: u8
  last_error :: "string option"
  conflict_strikes :: u8

record broadcast_failure =
  bf_txid_hex :: string
  bf_attempts :: u8
  bf_last_error :: string

record broadcaster =
  queue :: "pending_tx list"
  parked :: "pending_tx list"
  drain_rounds :: u64
  failures :: "broadcast_failure list"
  recent :: "(string \<times> bytes) list"

definition new_broadcaster :: broadcaster where
  "new_broadcaster = \<lparr>queue = [], parked = [], drain_rounds = 0, failures = [], recent = []\<rparr>"

definition new_pending :: "bytes \<Rightarrow> string \<Rightarrow> pending_tx" where
  "new_pending raw txid_hex =
     \<lparr>ptx_raw = raw, ptx_txid_hex = txid_hex, attempts = 0, last_error = None, conflict_strikes = 0\<rparr>"

text \<open>\<open>inputs\<close> gives the outpoints (id in hex, index) a raw transaction spends, when it parses.\<close>

definition recent_spending ::
  "(bytes \<Rightarrow> (string \<times> u32) list option) \<Rightarrow> broadcaster \<Rightarrow> string \<Rightarrow> u32 \<Rightarrow> bytes option" where
  "recent_spending inputs b prev_txid_hex vout =
     map_option snd (find (\<lambda>(_, raw). case inputs raw of
        Some ins \<Rightarrow> list_ex (\<lambda>(t, v). v = vout \<and> t = prev_txid_hex) ins | None \<Rightarrow> False) (rev (recent b)))"

definition enqueue_raw :: "bytes \<Rightarrow> string \<Rightarrow> broadcaster \<Rightarrow> broadcaster" where
  "enqueue_raw raw txid_hex b =
     (if list_ex (\<lambda>p. ptx_txid_hex p = txid_hex) (queue b) then b
      else b\<lparr>queue := queue b @ [new_pending raw txid_hex]\<rparr>)"

definition take_failures :: "broadcaster \<Rightarrow> broadcaster \<times> broadcast_failure list" where
  "take_failures b = (b\<lparr>failures := []\<rparr>, failures b)"

fun pop_while_over_16 :: "'a list \<Rightarrow> 'a list" where
  "pop_while_over_16 [] = []"
| "pop_while_over_16 (x # xs) = (if 16 < length (x # xs) then pop_while_over_16 xs else x # xs)"

fun broadcast_transactions :: "('tx \<Rightarrow> bytes) \<Rightarrow> ('tx \<Rightarrow> string) \<Rightarrow> 'tx list \<Rightarrow> broadcaster \<Rightarrow> broadcaster" where
  "broadcast_transactions ser txid_hex [] b = b"
| "broadcast_transactions ser txid_hex (tx # txs) b =
     broadcast_transactions ser txid_hex txs
       (b\<lparr>recent := pop_while_over_16 (recent b @ [(txid_hex tx, ser tx)]),
          queue := queue b @ [new_pending (ser tx) (txid_hex tx)]\<rparr>)"

type_synonym 'w path = "'w \<Rightarrow> bytes \<Rightarrow> 'w \<times> unit lij_result option"

section \<open>The fast queue\<close>

datatype retirement = SentCooperative | SentIndependent | KnownToNetwork | Accepted | Conflicted

datatype attempt = Gone retirement | Retry pending_tx | Park pending_tx

definition error_text :: "pending_tx \<Rightarrow> string" where
  "error_text p = (case last_error p of Some m \<Rightarrow> m | None \<Rightarrow> [])"

definition attempt_tx :: "'w path \<Rightarrow> 'w path \<Rightarrow> 'w \<Rightarrow> pending_tx \<Rightarrow> 'w \<times> attempt" where
  "attempt_tx coop indep w p =
     (let (w, coop_result) = coop w (ptx_raw p)
      in if coop_result = Some (Inr ()) then (w, Gone SentCooperative)
         else let p = (case coop_result of
                         Some (Inl e) \<Rightarrow> p\<lparr>last_error := Some (''cooperative: '' @ display_error e)\<rparr>
                       | _ \<Rightarrow> p);
                  (w, indep_result) = indep w (ptx_raw p)
              in if indep_result = Some (Inr ()) then (w, Gone SentIndependent)
                 else let p = (case indep_result of
                                 Some (Inl e) \<Rightarrow> p\<lparr>last_error := Some (error_text p @ '' | independent: '' @ display_error e)\<rparr>
                               | _ \<Rightarrow> p)
                      in if classify_err (error_text p) = AlreadyKnown then (w, Gone KnownToNetwork)
                         else let p = p\<lparr>attempts := attempts p + 1\<rparr>
                              in (w, if MAX_BROADCAST_ATTEMPTS \<le> attempts p then Park p else Retry p))"

definition hard_failure :: "pending_tx \<Rightarrow> broadcast_failure" where
  "hard_failure p = \<lparr>bf_txid_hex = ptx_txid_hex p, bf_attempts = attempts p,
     bf_last_error = (case last_error p of Some m \<Rightarrow> m | None \<Rightarrow> ''no path available'')\<rparr>"

text \<open>The loop of \<open>process_queue\<close> over the transactions still queued: it ends when the queue is empty or
  after the first transaction put back for another tick.\<close>

fun drain_queue ::
  "'w path \<Rightarrow> 'w path \<Rightarrow> 'w \<Rightarrow> pending_tx list \<Rightarrow> broadcaster \<Rightarrow>
     'w \<times> broadcaster \<times> (pending_tx \<times> retirement) list" where
  "drain_queue coop indep w [] b = (w, b\<lparr>queue := []\<rparr>, [])"
| "drain_queue coop indep w (p # q) b =
     (case attempt_tx coop indep w p of
        (w, Gone why) \<Rightarrow> (let (w, b, gone) = drain_queue coop indep w q b in (w, b, (p, why) # gone))
      | (w, Park p') \<Rightarrow> drain_queue coop indep w q
           (b\<lparr>failures := failures b @ [hard_failure p'], parked := parked b @ [p']\<rparr>)
      | (w, Retry p') \<Rightarrow> (w, b\<lparr>queue := q @ [p']\<rparr>, []))"

section \<open>The slow ring\<close>

definition try_paths_once :: "'w path \<Rightarrow> 'w path \<Rightarrow> 'w \<Rightarrow> bytes \<Rightarrow> 'w \<times> (string + unit)" where
  "try_paths_once coop indep w raw =
     (let (w, coop_result) = coop w raw;
          coop_msg = (case coop_result of Some (Inl e) \<Rightarrow> Some (''cooperative: '' @ display_error e) | _ \<Rightarrow> None)
      in if coop_result = Some (Inr ()) then (w, Inr ())
         else if (case coop_msg of Some m \<Rightarrow> classify_err m = AlreadyKnown | None \<Rightarrow> False) then (w, Inr ())
         else case indep w raw of
                (w, Some (Inr _)) \<Rightarrow> (w, Inr ())
              | (w, Some (Inl e)) \<Rightarrow>
                  (w, Inl (case coop_msg of Some m \<Rightarrow> m @ '' | independent: '' @ display_error e
                           | None \<Rightarrow> ''independent: '' @ display_error e))
              | (w, None) \<Rightarrow> (w, Inl (case coop_msg of Some m \<Rightarrow> m | None \<Rightarrow> ''no path available'')))"

fun park_pass ::
  "'w path \<Rightarrow> 'w path \<Rightarrow> 'w \<Rightarrow> pending_tx list \<Rightarrow> broadcaster \<Rightarrow>
     'w \<times> broadcaster \<times> (pending_tx \<times> retirement) list" where
  "park_pass coop indep w [] b = (w, b, [])"
| "park_pass coop indep w (p # ps) b =
     (case try_paths_once coop indep w (ptx_raw p) of
        (w, Inr _) \<Rightarrow> (let (w, b, gone) = park_pass coop indep w ps b in (w, b, (p, Accepted) # gone))
      | (w, Inl msg) \<Rightarrow>
          (let q = p\<lparr>last_error := Some msg\<rparr>;
               q = (if classify_err msg = Conflict then q\<lparr>conflict_strikes := conflict_strikes q + 1\<rparr> else q)
           in if classify_err msg = Conflict \<and> MAX_CONFLICT_STRIKES \<le> conflict_strikes q
              then (let fail = \<lparr>bf_txid_hex = ptx_txid_hex q, bf_attempts = attempts q,
                              bf_last_error = ''CONFLICT (permanent): '' @ msg\<rparr>;
                        (w, b, gone) = park_pass coop indep w ps (b\<lparr>failures := failures b @ [fail]\<rparr>)
                    in (w, b, (p, Conflicted) # gone))
              else park_pass coop indep w ps (b\<lparr>parked := parked b @ [q]\<rparr>)))"

definition process_parked ::
  "'w path \<Rightarrow> 'w path \<Rightarrow> 'w \<Rightarrow> broadcaster \<Rightarrow> 'w \<times> broadcaster \<times> (pending_tx \<times> retirement) list" where
  "process_parked coop indep w b = park_pass coop indep w (parked b) (b\<lparr>parked := []\<rparr>)"

definition process_queue ::
  "'w path \<Rightarrow> 'w path \<Rightarrow> 'w \<Rightarrow> broadcaster \<Rightarrow> 'w \<times> broadcaster \<times> (pending_tx \<times> retirement) list" where
  "process_queue coop indep w b =
     (let rnd = drain_rounds b;
          b = b\<lparr>drain_rounds := rnd + 1\<rparr>;
          (w, b, gone) = (if rnd mod PARK_INTERVAL_ROUNDS = 0 then process_parked coop indep w b else (w, b, []));
          (w, b, gone') = drain_queue coop indep w (queue b) b
      in (w, b, gone @ gone'))"

section \<open>Calls in any order\<close>

datatype 'tx bcast_call = Handed "'tx list" | Requeue bytes string | Process | TakeFailures

fun bcast_step ::
  "('tx \<Rightarrow> bytes) \<Rightarrow> ('tx \<Rightarrow> string) \<Rightarrow> 'w path \<Rightarrow> 'w path \<Rightarrow> 'w \<times> broadcaster \<Rightarrow> 'tx bcast_call \<Rightarrow>
     ('w \<times> broadcaster) \<times> (pending_tx \<times> retirement) list" where
  "bcast_step ser txid_hex coop indep (w, b) (Handed txs) = ((w, broadcast_transactions ser txid_hex txs b), [])"
| "bcast_step ser txid_hex coop indep (w, b) (Requeue raw t) = ((w, enqueue_raw raw t b), [])"
| "bcast_step ser txid_hex coop indep (w, b) Process =
     (let (w, b, gone) = process_queue coop indep w b in ((w, b), gone))"
| "bcast_step ser txid_hex coop indep (w, b) TakeFailures = ((w, fst (take_failures b)), [])"

section \<open>Lemmas\<close>

definition tx_key :: "pending_tx \<Rightarrow> bytes \<times> string" where
  "tx_key p = (ptx_raw p, ptx_txid_hex p)"

definition fast_ok :: "pending_tx \<Rightarrow> bool" where
  "fast_ok p = (attempts p < 3 \<and> conflict_strikes p = 0)"

definition slow_ok :: "pending_tx \<Rightarrow> bool" where
  "slow_ok p = (attempts p = 3 \<and> conflict_strikes p < 10)"

definition counters_ok :: "broadcaster \<Rightarrow> bool" where
  "counters_ok b = (list_all fast_ok (queue b) \<and> list_all slow_ok (parked b))"

lemma attempt_outcome:
  assumes "attempt_tx coop indep w p = (w', a)"
  shows "case a of Gone why \<Rightarrow> why \<noteq> Conflicted
     | Retry q \<Rightarrow> tx_key q = tx_key p \<and> attempts q = attempts p + 1 \<and> conflict_strikes q = conflict_strikes p \<and> attempts q < 3
     | Park q \<Rightarrow> tx_key q = tx_key p \<and> attempts q = attempts p + 1 \<and> conflict_strikes q = conflict_strikes p \<and> 3 \<le> attempts q"
  using assms
  by (auto simp: attempt_tx_def Let_def tx_key_def MAX_BROADCAST_ATTEMPTS_def not_le
      split: prod.splits if_splits option.splits sum.splits)

lemma known_after_more: "classify_err msg = AlreadyKnown \<Longrightarrow> classify_err (before @ msg) = AlreadyKnown"
  by (auto simp: classify_err_def Let_def intro: str_contains_append split: if_splits)

lemma u8_below_3: "a < 3 \<Longrightarrow> 3 \<le> a + 1 \<Longrightarrow> a + 1 = 3" for a :: u8
  by unat_arith

lemma u8_below_10: "a < 10 \<Longrightarrow> \<not> 10 \<le> a + 1 \<Longrightarrow> a + 1 < 10" for a :: u8
  by simp

text \<open>One turn of the drain of the fast queue.\<close>

lemma drain_turn:
  assumes "drain_queue coop indep w (x # q) b = (w', b', gone)"
  obtains
    (gone) w1 why g where "why \<noteq> Conflicted" "drain_queue coop indep w1 q b = (w', b', g)" "gone = (x, why) # g"
  | (park) w1 y where "tx_key y = tx_key x" "attempts y = attempts x + 1" "conflict_strikes y = conflict_strikes x"
      "3 \<le> attempts y" "drain_queue coop indep w1 q
         (b\<lparr>failures := failures b @ [hard_failure y], parked := parked b @ [y]\<rparr>) = (w', b', gone)"
  | (retry) y where "tx_key y = tx_key x" "attempts y = attempts x + 1" "conflict_strikes y = conflict_strikes x"
      "attempts y < 3" "b' = b\<lparr>queue := q @ [y]\<rparr>" "gone = []"
proof (cases "attempt_tx coop indep w x")
  case (Pair w1 a)
  note out = attempt_outcome [OF Pair]
  show thesis
  proof (cases a)
    case (Gone why)
    obtain w2 b2 g where "drain_queue coop indep w1 q b = (w2, b2, g)" by (metis prod_cases3)
    with Gone Pair assms out show thesis by (intro that(1) [of why w1 g]) simp_all
  next
    case (Retry y)
    with Pair assms out show thesis by (intro that(3) [of y]) auto
  next
    case (Park y)
    with Pair assms out show thesis by (intro that(2) [of y w1]) auto
  qed
qed

lemma drain_queue_conserves:
  "drain_queue coop indep w q b = (w', b', gone) \<Longrightarrow>
     mset (map tx_key (queue b' @ parked b')) + mset (map (tx_key \<circ> fst) gone) = mset (map tx_key (q @ parked b))"
proof (induction q arbitrary: w b gone)
  case (Cons x q)
  from Cons.prems show ?case
  proof (cases rule: drain_turn)
    case (gone w1 why g)
    with Cons.IH [OF gone(2)] show ?thesis by simp
  next
    case (park w1 y)
    with Cons.IH [OF park(5)] show ?thesis by simp
  qed simp
qed auto

lemma drain_queue_counters:
  "drain_queue coop indep w q b = (w', b', gone) \<Longrightarrow> list_all fast_ok q \<Longrightarrow> list_all slow_ok (parked b) \<Longrightarrow> counters_ok b'"
proof (induction q arbitrary: w b gone)
  case (Cons x q)
  from Cons.prems(1) show ?case
  proof (cases rule: drain_turn)
    case (park w1 y)
    with Cons.prems(2) have "slow_ok y" by (auto simp: fast_ok_def slow_ok_def dest: u8_below_3)
    with Cons park show ?thesis by simp
  next
    case (retry y)
    with Cons.prems(2) have "fast_ok y" by (simp add: fast_ok_def)
    with Cons.prems(2,3) retry show ?thesis by (simp add: counters_ok_def)
  qed (use Cons in simp)
qed (auto simp: counters_ok_def)

lemma drain_queue_reports:
  "drain_queue coop indep w q b = (w', b', gone) \<Longrightarrow> set (failures b) \<subseteq> set (failures b') \<and> (p, Conflicted) \<notin> set gone"
proof (induction q arbitrary: w b gone)
  case (Cons x q)
  from Cons.prems show ?case
  proof (cases rule: drain_turn)
    case (gone w1 why g)
    with Cons.IH [OF gone(2)] show ?thesis by auto
  next
    case (park w1 y)
    with Cons.IH [OF park(5)] show ?thesis by auto
  qed simp
qed auto

text \<open>One turn of the pass over the slow ring.\<close>

lemma park_turn:
  assumes "park_pass coop indep w (x # ps) b = (w', b', gone)"
  obtains
    (accepted) w1 g where "park_pass coop indep w1 ps b = (w', b', g)" "gone = (x, Accepted) # g"
  | (conflicted) w1 g msg where "10 \<le> conflict_strikes x + 1"
      "park_pass coop indep w1 ps (b\<lparr>failures := failures b @ [\<lparr>bf_txid_hex = ptx_txid_hex x, bf_attempts = attempts x,
         bf_last_error = msg\<rparr>]\<rparr>) = (w', b', g)" "gone = (x, Conflicted) # g"
  | (stays) w1 y where "tx_key y = tx_key x" "attempts y = attempts x" "conflict_strikes x < 10 \<longrightarrow> conflict_strikes y < 10"
      "park_pass coop indep w1 ps (b\<lparr>parked := parked b @ [y]\<rparr>) = (w', b', gone)"
proof (cases "try_paths_once coop indep w (ptx_raw x)")
  case (Pair w1 r)
  show thesis
  proof (cases r)
    case (Inr u)
    obtain w2 b2 g where "park_pass coop indep w1 ps b = (w2, b2, g)" by (metis prod_cases3)
    with Inr Pair assms show thesis by (intro that(1) [of w1 g]) simp_all
  next
    case (Inl msg)
    show thesis
    proof (cases "classify_err msg = Conflict \<and> 10 \<le> conflict_strikes x + 1")
      case True
      let ?f = "\<lparr>bf_txid_hex = ptx_txid_hex x, bf_attempts = attempts x, bf_last_error = ''CONFLICT (permanent): '' @ msg\<rparr>"
      obtain w2 b2 g where "park_pass coop indep w1 ps (b\<lparr>failures := failures b @ [?f]\<rparr>) = (w2, b2, g)"
        by (metis prod_cases3)
      with True Inl Pair assms show thesis
        by (intro that(2) [of w1 "''CONFLICT (permanent): '' @ msg" g]) (simp_all add: MAX_CONFLICT_STRIKES_def)
    next
      case False
      let ?y = "x\<lparr>last_error := Some msg,
        conflict_strikes := (if classify_err msg = Conflict then conflict_strikes x + 1 else conflict_strikes x)\<rparr>"
      from False Inl Pair assms show thesis
        by (intro that(3) [of ?y w1]) (auto simp: tx_key_def MAX_CONFLICT_STRIKES_def Let_def split: if_splits)
    qed
  qed
qed

lemma park_pass_conserves:
  "park_pass coop indep w ps b = (w', b', gone) \<Longrightarrow>
     queue b' = queue b \<and>
     mset (map tx_key (parked b')) + mset (map (tx_key \<circ> fst) gone) = mset (map tx_key (parked b @ ps))"
proof (induction ps arbitrary: w b gone)
  case (Cons x ps)
  from Cons.prems show ?case
  proof (cases rule: park_turn)
    case (accepted w1 g)
    with Cons.IH [OF accepted(1)] show ?thesis by simp
  next
    case (conflicted w1 g msg)
    with Cons.IH [OF conflicted(2)] show ?thesis by simp
  next
    case (stays w1 y)
    with Cons.IH [OF stays(4)] show ?thesis by simp
  qed
qed auto

lemma park_pass_counters:
  "park_pass coop indep w ps b = (w', b', gone) \<Longrightarrow> list_all slow_ok ps \<Longrightarrow> list_all slow_ok (parked b) \<Longrightarrow>
     list_all slow_ok (parked b')"
proof (induction ps arbitrary: w b gone)
  case (Cons x ps)
  from Cons.prems(1) show ?case
  proof (cases rule: park_turn)
    case (stays w1 y)
    with Cons.prems(2) have "slow_ok y" by (simp add: slow_ok_def)
    with Cons.IH [OF stays(4)] Cons.prems(2,3) show ?thesis by simp
  qed (use Cons in simp_all)
qed auto

lemma park_pass_reports:
  "park_pass coop indep w ps b = (w', b', gone) \<Longrightarrow>
     set (failures b) \<subseteq> set (failures b') \<and>
     (\<forall>p. (p, Conflicted) \<in> set gone \<longrightarrow> 10 \<le> conflict_strikes p + 1 \<and> ptx_txid_hex p \<in> bf_txid_hex ` set (failures b'))"
proof (induction ps arbitrary: w b gone)
  case (Cons x ps)
  from Cons.prems show ?case
  proof (cases rule: park_turn)
    case (accepted w1 g)
    with Cons.IH [OF accepted(1)] show ?thesis by auto
  next
    case (conflicted w1 g msg)
    from Cons.IH [OF conflicted(2)] have sub: "set (failures b) \<subseteq> set (failures b')"
      and x: "ptx_txid_hex x \<in> bf_txid_hex ` set (failures b')" by (auto intro!: rev_image_eqI)
    with Cons.IH [OF conflicted(2)] conflicted(1,3) show ?thesis by auto
  next
    case (stays w1 y)
    with Cons.IH [OF stays(4)] show ?thesis by simp
  qed
qed auto

lemma process_queue_parts:
  assumes "process_queue coop indep w b = (w', b', gone)"
  obtains w1 b1 g1 g2 where "gone = g1 @ g2" "drain_queue coop indep w1 (queue b1) b1 = (w', b', g2)"
    "(w1, b1, g1) = process_parked coop indep w (b\<lparr>drain_rounds := drain_rounds b + 1\<rparr>) \<or>
     g1 = [] \<and> b1 = b\<lparr>drain_rounds := drain_rounds b + 1\<rparr>"
proof (cases "drain_rounds b mod PARK_INTERVAL_ROUNDS = 0")
  case True
  obtain w1 b1 g1 where p: "process_parked coop indep w (b\<lparr>drain_rounds := drain_rounds b + 1\<rparr>) = (w1, b1, g1)"
    by (metis prod_cases3)
  obtain w2 b2 g2 where "drain_queue coop indep w1 (queue b1) b1 = (w2, b2, g2)" by (metis prod_cases3)
  with True p assms show thesis by (intro that [of g1 g2 w1 b1]) (simp_all add: process_queue_def Let_def)
next
  case False
  with assms show thesis
    by (intro that [of "[]" gone w "b\<lparr>drain_rounds := drain_rounds b + 1\<rparr>"])
       (auto simp: process_queue_def Let_def split: prod.splits)
qed

lemma process_parked_facts:
  assumes "process_parked coop indep w b = (w', b', gone)"
  shows "mset (map tx_key (queue b' @ parked b')) + mset (map (tx_key \<circ> fst) gone) = mset (map tx_key (queue b @ parked b))"
    and "counters_ok b \<Longrightarrow> counters_ok b'"
    and "(p, Conflicted) \<in> set gone \<Longrightarrow> 10 \<le> conflict_strikes p + 1 \<and> ptx_txid_hex p \<in> bf_txid_hex ` set (failures b')"
  using park_pass_conserves [OF assms [unfolded process_parked_def]]
    park_pass_counters [OF assms [unfolded process_parked_def]]
    park_pass_reports [OF assms [unfolded process_parked_def]]
  by (auto simp: counters_ok_def ac_simps)

lemma process_queue_counters:
  assumes "process_queue coop indep w b = (w', b', gone)" and "counters_ok b"
  shows "counters_ok b'"
  using assms(1)
proof (cases rule: process_queue_parts)
  case (1 w1 b1 g1 g2)
  have "counters_ok (b\<lparr>drain_rounds := drain_rounds b + 1\<rparr>)" using assms(2) by (simp add: counters_ok_def)
  with 1(3) have "counters_ok b1" by (metis process_parked_facts(2))
  with drain_queue_counters [OF 1(2)] show ?thesis by (simp add: counters_ok_def)
qed

lemma broadcast_transactions_counters:
  "counters_ok b \<Longrightarrow> counters_ok (broadcast_transactions ser txid_hex txs b)"
  by (induction txs arbitrary: b) (simp_all add: counters_ok_def fast_ok_def new_pending_def)

interpretation counters: step_machine "bcast_step ser txid_hex coop indep" "\<lambda>_. True" "\<lambda>s. counters_ok (snd s)"
  for ser :: "'tx \<Rightarrow> bytes" and txid_hex :: "'tx \<Rightarrow> string" and coop indep :: "'w path"
proof
  fix s :: "'w \<times> broadcaster" and e :: "'tx bcast_call"
  assume ok: "counters_ok (snd s)"
  obtain w b where s: "s = (w, b)" by (cases s)
  show "counters_ok (snd (fst (bcast_step ser txid_hex coop indep s e)))"
  proof (cases e)
    case Process
    obtain w' b' gone where q: "process_queue coop indep w b = (w', b', gone)" by (metis prod_cases3)
    with process_queue_counters [OF q] ok s Process show ?thesis by simp
  next
    case (Handed txs)
    with ok s show ?thesis by (simp add: broadcast_transactions_counters)
  qed (use ok s in \<open>auto simp: enqueue_raw_def take_failures_def counters_ok_def fast_ok_def new_pending_def\<close>)
qed

section \<open>Properties\<close>



text \<open>C31: over any sequence of calls every queued transaction has made fewer than three fast attempts and no
  strikes, every parked one exactly three with fewer than ten strikes, so the 8-bit counters never
  wrap.\<close>

theorem attempt_counters_bounded:
  "counters_ok (snd (final_state (bcast_step ser txid_hex coop indep) (w, new_broadcaster) calls))"
  by (rule counters.run_inv) (simp_all add: counters_ok_def new_broadcaster_def list_all_iff)

text \<open>When the independent path is the only one up and answers that a parked transaction is already
  known to the network, the pass over the slow ring keeps the transaction parked and lets none go;
  the same answer takes a queued transaction off the fast queue.\<close>

theorem parked_known_is_kept:
  assumes "classify_err (''independent: '' @ display_error e) = AlreadyKnown"
  shows "process_parked (\<lambda>w _. (w, None)) (\<lambda>w _. (w, Some (Inl e))) w b =
      (w, b\<lparr>parked := map (\<lambda>p. p\<lparr>last_error := Some (''independent: '' @ display_error e)\<rparr>) (parked b)\<rparr>, []) \<and>
    attempt_tx (\<lambda>w _. (w, None)) (\<lambda>w _. (w, Some (Inl e))) w p = (w, Gone KnownToNetwork)"
proof
  have "park_pass (\<lambda>w _. (w, None)) (\<lambda>w _. (w, Some (Inl e))) w ps b' =
      (w, b'\<lparr>parked := parked b' @ map (\<lambda>p. p\<lparr>last_error := Some (''independent: '' @ display_error e)\<rparr>) ps\<rparr>, [])" for ps b'
    using assms by (induction ps arbitrary: b') (simp_all add: try_paths_once_def Let_def)
  then show "process_parked (\<lambda>w _. (w, None)) (\<lambda>w _. (w, Some (Inl e))) w b =
      (w, b\<lparr>parked := map (\<lambda>p. p\<lparr>last_error := Some (''independent: '' @ display_error e)\<rparr>) (parked b)\<rparr>, [])"
    by (simp add: process_parked_def)
  show "attempt_tx (\<lambda>w _. (w, None)) (\<lambda>w _. (w, Some (Inl e))) w p = (w, Gone KnownToNetwork)"
    using known_after_more [OF assms, of "error_text p @ '' | ''"]
    by (simp add: attempt_tx_def error_text_def)
qed

theorem parked_known_is_kept_witness:
  "snd (snd (process_parked (\<lambda>w _. (w, None)) (\<lambda>w _. (w, Some (Inl (LspError ''txn-already-known'')))) ()
     (new_broadcaster\<lparr>parked := [new_pending [1] ''ab'']\<rparr>))) = []"
proof -
  have "classify_err (''independent: '' @ display_error (LspError ''txn-already-known'')) = AlreadyKnown" by code_simp
  from parked_known_is_kept [OF this, where w = "()" and p = "new_pending [1] ''ab''" and b = "new_broadcaster\<lparr>parked := [new_pending [1] ''ab'']\<rparr>"]
  show ?thesis by simp
qed

end
