(* ===== verification/Cooperative_Bridge.thy ===== *)
theory Cooperative_Bridge
  imports Cooperative_Msg Broadcaster
begin

text \<open>
  The cooperative path inside the wallet: LDK's watch registry (\<open>chain_filter.rs\<close>), the queues of the
  peer-message handler (\<open>cooperative_chain_handler.rs\<close>), and the bridge that routes inbound messages
  and serves the fee estimator and the broadcaster (\<open>cooperative_chain_bridge.rs\<close>). The parameter
  \<open>raw_txid\<close> parses a raw transaction and gives its id (the \<open>bitcoin\<close> crate), \<open>txid_hex\<close> prints an id;
  a peer is its public key. The clock is an argument of each call that reads it.
\<close>

section \<open>The watch registry\<close>

record watched_tx =
  wtx_txid :: txid
  wtx_script_pubkey :: script_buf

record watched_output =
  wo_block_hash :: "block_hash option"
  wo_txid :: txid
  wo_index :: u16
  wo_script_pubkey :: script_buf

record chain_filter =
  watched_txs :: "watched_tx list"
  watched_outputs :: "watched_output list"
  pending_new_txs :: "watched_tx list"
  pending_new_outputs :: "watched_output list"

definition new_chain_filter :: chain_filter where
  "new_chain_filter = \<lparr>watched_txs = [], watched_outputs = [], pending_new_txs = [], pending_new_outputs = []\<rparr>"

definition take_new_registrations :: "chain_filter \<Rightarrow> chain_filter \<times> watched_tx list \<times> watched_output list" where
  "take_new_registrations f =
     (f\<lparr>pending_new_txs := [], pending_new_outputs := []\<rparr>, pending_new_txs f, pending_new_outputs f)"

definition watch_count :: "chain_filter \<Rightarrow> nat \<times> nat" where
  "watch_count f = (length (watched_txs f), length (watched_outputs f))"

definition mark_all_for_resubscribe :: "chain_filter \<Rightarrow> chain_filter" where
  "mark_all_for_resubscribe f = f\<lparr>pending_new_txs := watched_txs f, pending_new_outputs := watched_outputs f\<rparr>"

definition is_watching_txid :: "chain_filter \<Rightarrow> txid \<Rightarrow> bool" where
  "is_watching_txid f t = list_ex (\<lambda>w. wtx_txid w = t) (watched_txs f)"

definition watching_outputs_for_block :: "chain_filter \<Rightarrow> block_hash \<Rightarrow> watched_output list" where
  "watching_outputs_for_block f bh = filter (\<lambda>o'. wo_block_hash o' = Some bh) (watched_outputs f)"

definition filter_register_tx :: "txid \<Rightarrow> script_buf \<Rightarrow> chain_filter \<Rightarrow> chain_filter" where
  "filter_register_tx t script f =
     (let entry = \<lparr>wtx_txid = t, wtx_script_pubkey = script\<rparr>
      in if list_ex (\<lambda>w. w = entry) (watched_txs f) then f
         else f\<lparr>watched_txs := watched_txs f @ [entry], pending_new_txs := pending_new_txs f @ [entry]\<rparr>)"

definition filter_register_output :: "watched_output \<Rightarrow> chain_filter \<Rightarrow> chain_filter" where
  "filter_register_output out f =
     (if list_ex (\<lambda>o'. o' = out) (watched_outputs f) then f
      else f\<lparr>watched_outputs := watched_outputs f @ [out], pending_new_outputs := pending_new_outputs f @ [out]\<rparr>)"

section \<open>The message handler\<close>

type_synonym peer = bytes

record chain_handler =
  outbound :: "(peer \<times> cooperative_chain_message) list"
  inbound :: "(peer \<times> cooperative_chain_message) list"
  subscribe_target :: "peer option"
  resubscribe_wanted :: bool
  last_subscribe :: "subscribe_chain_data option"

definition new_chain_handler :: chain_handler where
  "new_chain_handler = \<lparr>outbound = [], inbound = [], subscribe_target = None, resubscribe_wanted = False,
     last_subscribe = None\<rparr>"

definition take_resubscribe_wanted :: "chain_handler \<Rightarrow> chain_handler \<times> bool" where
  "take_resubscribe_wanted h = (h\<lparr>resubscribe_wanted := False\<rparr>, resubscribe_wanted h)"

definition want_resubscribe :: "chain_handler \<Rightarrow> chain_handler" where
  "want_resubscribe h = h\<lparr>resubscribe_wanted := True\<rparr>"

definition take_received :: "chain_handler \<Rightarrow> chain_handler \<times> (peer \<times> cooperative_chain_message) list" where
  "take_received h = (h\<lparr>inbound := []\<rparr>, inbound h)"

definition enqueue :: "peer \<Rightarrow> cooperative_chain_message \<Rightarrow> chain_handler \<Rightarrow> chain_handler" where
  "enqueue peer msg h = h\<lparr>outbound := outbound h @ [(peer, msg)]\<rparr>"

definition handler_send_subscribe :: "peer \<Rightarrow> subscribe_chain_data \<Rightarrow> chain_handler \<Rightarrow> chain_handler" where
  "handler_send_subscribe peer msg h =
     enqueue peer (SubscribeChainData msg) (h\<lparr>subscribe_target := Some peer, last_subscribe := Some msg\<rparr>)"

definition handler_send_broadcast_tx :: "peer \<Rightarrow> broadcast_tx \<Rightarrow> chain_handler \<Rightarrow> chain_handler" where
  "handler_send_broadcast_tx peer msg h = enqueue peer (BroadcastTx msg) h"

definition handle_custom_message :: "cooperative_chain_message \<Rightarrow> peer \<Rightarrow> chain_handler \<Rightarrow> chain_handler" where
  "handle_custom_message msg sender h = h\<lparr>inbound := inbound h @ [(sender, msg)]\<rparr>"

definition get_and_clear_pending_msg ::
  "chain_handler \<Rightarrow> chain_handler \<times> (peer \<times> cooperative_chain_message) list" where
  "get_and_clear_pending_msg h = (h\<lparr>outbound := []\<rparr>, outbound h)"

definition peer_disconnected :: "peer \<Rightarrow> chain_handler \<Rightarrow> chain_handler" where
  "peer_disconnected p h = (if subscribe_target h = Some p then h\<lparr>resubscribe_wanted := True\<rparr> else h)"

definition peer_connected :: "peer \<Rightarrow> chain_handler \<Rightarrow> chain_handler" where
  "peer_connected p h =
     (if subscribe_target h = Some p
      then (case last_subscribe h of
              Some m \<Rightarrow> enqueue p (SubscribeChainData m) h
            | None \<Rightarrow> h)\<lparr>resubscribe_wanted := True\<rparr>
      else h)"

section \<open>The bridge\<close>

record shared_state =
  last_fee_quote :: "fee_quote option"
  last_fee_rates_kw :: "fee_rates_kw option"
  last_block_height :: "u32 option"
  last_block_hash :: "block_hash option"
  subscribed :: bool
  last_update_ts :: "nat option"
  pending_broadcasts :: "u64 \<rightharpoonup> string"
  pending_confirmations :: "funding_tx_confirmed list"
  pending_abandons :: "(peer \<times> jit_funding_abandoned) list"
  chain_msgs :: u64

definition default_shared_state :: shared_state where
  "default_shared_state = \<lparr>last_fee_quote = None, last_fee_rates_kw = None, last_block_height = None,
     last_block_hash = None, subscribed = False, last_update_ts = None, pending_broadcasts = Map.empty,
     pending_confirmations = [], pending_abandons = [], chain_msgs = 0\<rparr>"

record bridge =
  br_handler :: chain_handler
  br_filter :: chain_filter
  br_state :: shared_state
  lsp_pubkey :: "peer option"
  next_request_id :: u64

definition new_bridge :: bridge where
  "new_bridge = \<lparr>br_handler = new_chain_handler, br_filter = new_chain_filter, br_state = default_shared_state,
     lsp_pubkey = None, next_request_id = 1\<rparr>"

definition bridge_send_subscribe :: "peer \<Rightarrow> bridge \<Rightarrow> bridge" where
  "bridge_send_subscribe lsp br =
     (let txids = map wtx_txid (watched_txs (br_filter br));
          scripts = map wtx_script_pubkey (watched_txs (br_filter br)) @ map wo_script_pubkey (watched_outputs (br_filter br));
          msg = \<lparr>watch_txids = txids, watch_scripts = scripts\<rparr>
      in br\<lparr>br_handler := handler_send_subscribe lsp msg (br_handler br), lsp_pubkey := Some lsp\<rparr>)"

definition send_register_watch_tx :: "peer \<Rightarrow> watched_tx \<Rightarrow> chain_handler \<Rightarrow> chain_handler" where
  "send_register_watch_tx lsp w h =
     enqueue lsp (RegisterWatchTx \<lparr>rwt_txid = wtx_txid w, rwt_script_pubkey = wtx_script_pubkey w\<rparr>) h"

definition send_register_watch_output :: "peer \<Rightarrow> watched_output \<Rightarrow> chain_handler \<Rightarrow> chain_handler" where
  "send_register_watch_output lsp w h =
     enqueue lsp (RegisterWatchOutput \<lparr>rwo_funding_txid = wo_txid w, rwo_output_index = ucast (wo_index w),
        rwo_script_pubkey = wo_script_pubkey w, created_in_block = wo_block_hash w\<rparr>) h"

fun dispatch ::
  "(bytes \<Rightarrow> txid option) \<Rightarrow> nat \<Rightarrow> peer \<Rightarrow> cooperative_chain_message \<Rightarrow> shared_state \<Rightarrow> shared_state" where
  "dispatch raw_txid now sender (JitFundingAbandoned a) st = st\<lparr>pending_abandons := pending_abandons st @ [(sender, a)]\<rparr>"
| "dispatch raw_txid now sender (ChainDataBundle b) st =
     st\<lparr>last_block_height := Some (cdb_tip_height b), last_block_hash := Some (cdb_tip_blockhash b),
        last_fee_quote := Some (from_fast_sat_per_vb (unat (cdb_fee_fast b))), subscribed := True,
        last_update_ts := Some now, chain_msgs := chain_msgs st + 1\<rparr>"
| "dispatch raw_txid now sender (BlockHeightUpdate h) st =
     st\<lparr>last_block_height := Some (new_height h), last_block_hash := Some (new_blockhash h),
        last_update_ts := Some now, chain_msgs := chain_msgs st + 1\<rparr>"
| "dispatch raw_txid now sender (FeeRatesKw f) st =
     st\<lparr>last_fee_quote := Some (from_fast_sat_per_kw (unat (fast_sat_per_kw f))), last_fee_rates_kw := Some f\<rparr>"
| "dispatch raw_txid now sender (FeeScheduleUpdate f) st =
     st\<lparr>last_fee_quote := Some (from_fast_sat_per_vb (unat (fsu_fee_fast f)))\<rparr>"
| "dispatch raw_txid now sender (FundingTxConfirmed c) st =
     (case raw_txid (raw_tx_bytes c) of
        Some computed \<Rightarrow> if computed \<noteq> ftc_txid c then st
                         else st\<lparr>pending_confirmations := pending_confirmations st @ [c]\<rparr>
      | None \<Rightarrow> st)"
| "dispatch raw_txid now sender (ChannelStateUpdate u) st = st"
| "dispatch raw_txid now sender (BroadcastAck a) st =
     st\<lparr>pending_broadcasts := (pending_broadcasts st)(ack_request_id a := None)\<rparr>"
| "dispatch raw_txid now sender (SubscribeChainData _) st = st"
| "dispatch raw_txid now sender (RegisterWatchTx _) st = st"
| "dispatch raw_txid now sender (RegisterWatchOutput _) st = st"
| "dispatch raw_txid now sender (BroadcastTx _) st = st"

definition process_inbound_tick :: "(bytes \<Rightarrow> txid option) \<Rightarrow> nat \<Rightarrow> bridge \<Rightarrow> bridge" where
  "process_inbound_tick raw_txid now br =
     (let (h, received) = take_received (br_handler br)
      in br\<lparr>br_handler := h,
            br_state := foldl (\<lambda>st (sender, msg). dispatch raw_txid now sender msg st) (br_state br) received\<rparr>)"

definition process_new_registrations_tick :: "bridge \<Rightarrow> bridge" where
  "process_new_registrations_tick br =
     (case lsp_pubkey br of
        None \<Rightarrow> br
      | Some lsp \<Rightarrow>
          (let (f, txs, outs) = take_new_registrations (br_filter br)
           in if txs = [] \<and> outs = [] then br\<lparr>br_filter := f\<rparr>
              else let h = foldl (\<lambda>h w. send_register_watch_tx lsp w h) (br_handler br) txs;
                       h = foldl (\<lambda>h w. send_register_watch_output lsp w h) h outs
                   in br\<lparr>br_filter := f, br_handler := h\<rparr>))"

definition mark_disconnected :: "bridge \<Rightarrow> bridge" where
  "mark_disconnected br = br\<lparr>lsp_pubkey := None, br_state := (br_state br)\<lparr>subscribed := False\<rparr>\<rparr>"

definition cooperative_silence_secs :: "nat \<Rightarrow> bridge \<Rightarrow> nat option" where
  "cooperative_silence_secs now br = map_option (\<lambda>t. now - t) (last_update_ts (br_state br))"

definition take_pending_confirmations :: "bridge \<Rightarrow> bridge \<times> funding_tx_confirmed list" where
  "take_pending_confirmations br =
     (br\<lparr>br_state := (br_state br)\<lparr>pending_confirmations := []\<rparr>\<rparr>, pending_confirmations (br_state br))"

definition take_pending_abandons :: "bridge \<Rightarrow> bridge \<times> (peer \<times> jit_funding_abandoned) list" where
  "take_pending_abandons br =
     (br\<lparr>br_state := (br_state br)\<lparr>pending_abandons := []\<rparr>\<rparr>, pending_abandons (br_state br))"

definition requeue_pending_confirmations :: "funding_tx_confirmed list \<Rightarrow> bridge \<Rightarrow> bridge" where
  "requeue_pending_confirmations held br =
     br\<lparr>br_state := (br_state br)\<lparr>pending_confirmations := held @ pending_confirmations (br_state br)\<rparr>\<rparr>"

text \<open>What the bridge is to the fee estimator and to the broadcaster.\<close>

definition bridge_fee_fetch :: "bridge \<Rightarrow> fee_quote lij_result" where
  "bridge_fee_fetch br = (case last_fee_quote (br_state br) of
     Some q \<Rightarrow> Inr q | None \<Rightarrow> Inl (LspError ''no cooperative fee quote received yet''))"

definition bridge_fee_is_available :: "bridge \<Rightarrow> bool" where
  "bridge_fee_is_available br = (subscribed (br_state br) \<and> last_fee_quote (br_state br) \<noteq> None)"

definition bridge_broadcast ::
  "(bytes \<Rightarrow> txid option) \<Rightarrow> (txid \<Rightarrow> string) \<Rightarrow> bridge \<Rightarrow> bytes \<Rightarrow> bridge \<times> unit lij_result" where
  "bridge_broadcast raw_txid txid_hex br raw =
     (case lsp_pubkey br of
        None \<Rightarrow> (br, Inl (LspError ''no LSP connected for cooperative broadcast''))
      | Some lsp \<Rightarrow>
          (let request_id = next_request_id br;
               hex = (case raw_txid raw of Some t \<Rightarrow> txid_hex t | None \<Rightarrow> ''unparseable'')
           in (br\<lparr>next_request_id := request_id + 1,
                  br_state := (br_state br)\<lparr>pending_broadcasts := (pending_broadcasts (br_state br))(request_id \<mapsto> hex)\<rparr>,
                  br_handler := handler_send_broadcast_tx lsp \<lparr>btx_request_id = request_id, btx_raw_tx = raw\<rparr> (br_handler br)\<rparr>,
               Inr ())))"

definition bridge_broadcast_is_available :: "bridge \<Rightarrow> bool" where
  "bridge_broadcast_is_available br = (lsp_pubkey br \<noteq> None \<and> subscribed (br_state br))"

definition cooperative_path :: "(bytes \<Rightarrow> txid option) \<Rightarrow> (txid \<Rightarrow> string) \<Rightarrow> bridge path" where
  "cooperative_path raw_txid txid_hex br raw =
     (if bridge_broadcast_is_available br
      then (let (br, r) = bridge_broadcast raw_txid txid_hex br raw in (br, Some r)) else (br, None))"

section \<open>Calls in any order\<close>

datatype bridge_call =
    RegisterTx txid script_buf
  | RegisterOutput watched_output
  | MarkAllForResubscribe
  | Receive cooperative_chain_message peer
  | InboundTick nat
  | RegistrationsTick
  | Subscribe peer
  | Disconnected
  | PeerConnected peer
  | PeerDisconnected peer
  | FlushOutbound
  | TakeResubscribe
  | WantResubscribe
  | TakeConfirmations
  | RequeueConfirmations "funding_tx_confirmed list"
  | TakeAbandons
  | Broadcast bytes

abbreviation on_handler :: "(chain_handler \<Rightarrow> chain_handler) \<Rightarrow> bridge \<Rightarrow> bridge" where
  "on_handler f br \<equiv> br\<lparr>br_handler := f (br_handler br)\<rparr>"

abbreviation on_filter :: "(chain_filter \<Rightarrow> chain_filter) \<Rightarrow> bridge \<Rightarrow> bridge" where
  "on_filter f br \<equiv> br\<lparr>br_filter := f (br_filter br)\<rparr>"

fun bridge_next :: "(bytes \<Rightarrow> txid option) \<Rightarrow> (txid \<Rightarrow> string) \<Rightarrow> bridge \<Rightarrow> bridge_call \<Rightarrow> bridge" where
  "bridge_next raw_txid txid_hex br (RegisterTx t sc) = on_filter (filter_register_tx t sc) br"
| "bridge_next raw_txid txid_hex br (RegisterOutput out) = on_filter (filter_register_output out) br"
| "bridge_next raw_txid txid_hex br MarkAllForResubscribe = on_filter mark_all_for_resubscribe br"
| "bridge_next raw_txid txid_hex br (Receive m p) = on_handler (handle_custom_message m p) br"
| "bridge_next raw_txid txid_hex br (InboundTick now) = process_inbound_tick raw_txid now br"
| "bridge_next raw_txid txid_hex br RegistrationsTick = process_new_registrations_tick br"
| "bridge_next raw_txid txid_hex br (Subscribe p) = bridge_send_subscribe p br"
| "bridge_next raw_txid txid_hex br Disconnected = mark_disconnected br"
| "bridge_next raw_txid txid_hex br (PeerConnected p) = on_handler (peer_connected p) br"
| "bridge_next raw_txid txid_hex br (PeerDisconnected p) = on_handler (peer_disconnected p) br"
| "bridge_next raw_txid txid_hex br FlushOutbound = on_handler (\<lambda>h. fst (get_and_clear_pending_msg h)) br"
| "bridge_next raw_txid txid_hex br TakeResubscribe = on_handler (\<lambda>h. fst (take_resubscribe_wanted h)) br"
| "bridge_next raw_txid txid_hex br WantResubscribe = on_handler want_resubscribe br"
| "bridge_next raw_txid txid_hex br TakeConfirmations = fst (take_pending_confirmations br)"
| "bridge_next raw_txid txid_hex br (RequeueConfirmations held) = requeue_pending_confirmations held br"
| "bridge_next raw_txid txid_hex br TakeAbandons = fst (take_pending_abandons br)"
| "bridge_next raw_txid txid_hex br (Broadcast raw) = fst (bridge_broadcast raw_txid txid_hex br raw)"

text \<open>A call's output: the messages it put on the outbound queue, and the confirmations it handed out.\<close>

definition bridge_step ::
  "(bytes \<Rightarrow> txid option) \<Rightarrow> (txid \<Rightarrow> string) \<Rightarrow> bridge \<Rightarrow> bridge_call \<Rightarrow>
     bridge \<times> (peer \<times> cooperative_chain_message) list \<times> funding_tx_confirmed list" where
  "bridge_step raw_txid txid_hex br e =
     (let br' = bridge_next raw_txid txid_hex br e
      in (br', drop (length (outbound (br_handler br))) (outbound (br_handler br')),
          if e = TakeConfirmations then snd (take_pending_confirmations br) else []))"

section \<open>Lemmas\<close>

subsection \<open>Confirmations\<close>

definition checked :: "(bytes \<Rightarrow> txid option) \<Rightarrow> funding_tx_confirmed \<Rightarrow> bool" where
  "checked raw_txid c = (raw_txid (raw_tx_bytes c) = Some (ftc_txid c))"

abbreviation all_checked :: "(bytes \<Rightarrow> txid option) \<Rightarrow> bridge \<Rightarrow> bool" where
  "all_checked raw_txid br \<equiv> list_all (checked raw_txid) (pending_confirmations (br_state br))"

fun requeues_checked :: "(bytes \<Rightarrow> txid option) \<Rightarrow> bridge_call \<Rightarrow> bool" where
  "requeues_checked raw_txid (RequeueConfirmations held) = list_all (checked raw_txid) held"
| "requeues_checked raw_txid _ = True"

lemma dispatch_checked:
  "list_all (checked raw_txid) (pending_confirmations st) \<Longrightarrow>
     list_all (checked raw_txid) (pending_confirmations (dispatch raw_txid now sender m st))"
  by (cases m) (auto simp: checked_def split: option.splits)

lemma dispatches_checked:
  "list_all (checked raw_txid) (pending_confirmations st) \<Longrightarrow>
     list_all (checked raw_txid) (pending_confirmations (foldl (\<lambda>st (p, m). dispatch raw_txid now p m st) st received))"
  by (induction received arbitrary: st) (auto simp: dispatch_checked)

lemma registrations_tick_state [simp]: "br_state (process_new_registrations_tick br) = br_state br"
  by (simp add: process_new_registrations_tick_def take_new_registrations_def split: option.splits)

interpretation confs: step_machine "bridge_step raw_txid txid_hex" "requeues_checked raw_txid" "all_checked raw_txid"
  for raw_txid txid_hex
proof
  fix br :: bridge and e
  assume "all_checked raw_txid br" and "requeues_checked raw_txid e"
  then show "all_checked raw_txid (fst (bridge_step raw_txid txid_hex br e))"
    by (cases e) (auto simp: bridge_step_def process_inbound_tick_def take_received_def dispatches_checked
        bridge_send_subscribe_def Let_def mark_disconnected_def take_pending_confirmations_def take_pending_abandons_def
        requeue_pending_confirmations_def bridge_broadcast_def split: option.splits)
qed

subsection \<open>Watches\<close>

datatype watch_item = WatchTx watched_tx | WatchOut watched_output

definition watched :: "bridge \<Rightarrow> watch_item set" where
  "watched br = WatchTx ` set (watched_txs (br_filter br)) \<union> WatchOut ` set (watched_outputs (br_filter br))"

definition to_announce :: "bridge \<Rightarrow> watch_item set" where
  "to_announce br = WatchTx ` set (pending_new_txs (br_filter br)) \<union> WatchOut ` set (pending_new_outputs (br_filter br))"

text \<open>The items a message tells the provider about one by one.\<close>

fun announces :: "cooperative_chain_message \<Rightarrow> watch_item set" where
  "announces (RegisterWatchTx m) = {WatchTx \<lparr>wtx_txid = rwt_txid m, wtx_script_pubkey = rwt_script_pubkey m\<rparr>}"
| "announces (RegisterWatchOutput m) = {WatchOut w |w. wo_txid w = rwo_funding_txid m \<and> ucast (wo_index w) = rwo_output_index m \<and>
     wo_script_pubkey w = rwo_script_pubkey m \<and> wo_block_hash w = created_in_block m}"
| "announces _ = {}"

definition announced :: "(peer \<times> cooperative_chain_message) list \<times> funding_tx_confirmed list \<Rightarrow> watch_item set" where
  "announced out = (\<Union>(p, m)\<in>set (fst out). announces m)"

lemma register_txs_outbound:
  "outbound (foldl (\<lambda>h w. send_register_watch_tx lsp w h) h txs) =
     outbound h @ map (\<lambda>w. (lsp, RegisterWatchTx \<lparr>rwt_txid = wtx_txid w, rwt_script_pubkey = wtx_script_pubkey w\<rparr>)) txs"
  by (induction txs arbitrary: h) (simp_all add: send_register_watch_tx_def enqueue_def)

lemma register_outputs_outbound:
  "outbound (foldl (\<lambda>h w. send_register_watch_output lsp w h) h outs) =
     outbound h @ map (\<lambda>w. (lsp, RegisterWatchOutput \<lparr>rwo_funding_txid = wo_txid w, rwo_output_index = ucast (wo_index w),
        rwo_script_pubkey = wo_script_pubkey w, created_in_block = wo_block_hash w\<rparr>)) outs"
  by (induction outs arbitrary: h) (simp_all add: send_register_watch_output_def enqueue_def)

lemma registrations_tick_announces:
  "to_announce br \<subseteq> to_announce (process_new_registrations_tick br) \<union>
     announced (snd (bridge_step raw_txid txid_hex br RegistrationsTick))"
proof (cases "lsp_pubkey br")
  case None
  then show ?thesis by (simp add: process_new_registrations_tick_def)
next
  case (Some lsp)
  then show ?thesis
    by (auto simp: process_new_registrations_tick_def take_new_registrations_def to_announce_def announced_def
        bridge_step_def Let_def register_txs_outbound register_outputs_outbound image_iff)
qed

lemma registrations_tick_watched [simp]: "watched (process_new_registrations_tick br) = watched br"
  by (simp add: process_new_registrations_tick_def take_new_registrations_def watched_def Let_def split: option.splits)

lemma filter_ops_watched:
  "e \<noteq> RegistrationsTick \<Longrightarrow>
     watched (bridge_next raw_txid txid_hex br e) - to_announce (bridge_next raw_txid txid_hex br e) \<subseteq> watched br - to_announce br"
  by (cases e) (auto simp: watched_def to_announce_def filter_register_tx_def filter_register_output_def mark_all_for_resubscribe_def
      process_inbound_tick_def take_received_def bridge_send_subscribe_def Let_def mark_disconnected_def
      take_pending_confirmations_def take_pending_abandons_def requeue_pending_confirmations_def bridge_broadcast_def
      split: option.splits if_splits)

interpretation watches: delivery_machine "bridge_step raw_txid txid_hex" watched to_announce announced for raw_txid txid_hex
proof
  fix br e
  show "watched (fst (bridge_step raw_txid txid_hex br e)) - to_announce (fst (bridge_step raw_txid txid_hex br e))
      \<subseteq> watched br - to_announce br \<union> announced (snd (bridge_step raw_txid txid_hex br e))"
  proof (cases "e = RegistrationsTick")
    case True
    with registrations_tick_announces [of br raw_txid txid_hex] show ?thesis by (auto simp: bridge_step_def Let_def)
  next
    case False
    with filter_ops_watched [of e raw_txid txid_hex br] show ?thesis by (auto simp: bridge_step_def Let_def)
  qed
qed

lemma handed_checked:
  "list_all (requeues_checked raw_txid) calls \<Longrightarrow> all_checked raw_txid br \<Longrightarrow>
     list_all (checked raw_txid) (concat (map snd (outputs (bridge_step raw_txid txid_hex) br calls)))"
proof (induction calls arbitrary: br)
  case (Cons e calls)
  then have "all_checked raw_txid (fst (bridge_step raw_txid txid_hex br e))"
    by (intro confs.step_inv) simp_all
  moreover have "list_all (checked raw_txid) (snd (snd (bridge_step raw_txid txid_hex br e)))"
    using Cons.prems(2) by (simp add: bridge_step_def Let_def take_pending_confirmations_def)
  ultimately show ?case using Cons by simp
qed simp

section \<open>Properties\<close>



text \<open>C33: over any sequence of calls, every transaction and output LDK registered is still waiting to be
  announced or was announced to the provider in a message of its own.\<close>

theorem every_watch_is_announced:
  "watched (final_state (bridge_step raw_txid txid_hex) new_bridge calls) \<subseteq>
     to_announce (final_state (bridge_step raw_txid txid_hex) new_bridge calls) \<union>
     (\<Union>out \<in> set (outputs (bridge_step raw_txid txid_hex) new_bridge calls). announced out)"
proof -
  have "watched new_bridge = {}" by (simp add: watched_def new_bridge_def new_chain_filter_def)
  with watches.run_delivers [of raw_txid txid_hex new_bridge calls] show ?thesis by auto
qed

text \<open>With the provider connected and subscribed, a queued transaction counts as sent as soon as the
  request to the provider is queued. When the provider then answers that it rejected the transaction,
  the only change is that the request is forgotten: the transaction is neither retried nor reported
  as a failure.\<close>

theorem rejected_by_provider_is_forgotten:
  assumes "lsp_pubkey br = Some lsp" and "subscribed (br_state br)"
    and "queue b = [p]" and "parked b = []"
  shows "(case process_queue (cooperative_path raw_txid txid_hex) indep br b of (br', b', gone) \<Rightarrow>
      gone = [(p, SentCooperative)] \<and> queue b' = [] \<and> parked b' = [] \<and> failures b' = failures b \<and>
      dispatch raw_txid now lsp (BroadcastAck \<lparr>ack_request_id = next_request_id br, ack_result = Rejected, ack_detail = why\<rparr>)
          (br_state br') =
        (br_state br)\<lparr>pending_broadcasts := (pending_broadcasts (br_state br))(next_request_id br := None)\<rparr>)"
  using assms
  by (simp add: process_queue_def process_parked_def attempt_tx_def cooperative_path_def bridge_broadcast_def
      bridge_broadcast_is_available_def Let_def)

theorem rejected_by_provider_is_forgotten_witness:
  "case process_queue (cooperative_path (\<lambda>_. Some 5) (\<lambda>_. ''ab'')) (\<lambda>w _. (w, None))
      (new_bridge\<lparr>lsp_pubkey := Some [2], br_state := default_shared_state\<lparr>subscribed := True\<rparr>\<rparr>)
      (new_broadcaster\<lparr>queue := [new_pending [1] ''ab'']\<rparr>) of (br', b', gone) \<Rightarrow>
    queue b' = [] \<and> parked b' = [] \<and> failures b' = []"
  using rejected_by_provider_is_forgotten
    [where br = "new_bridge\<lparr>lsp_pubkey := Some [2], br_state := default_shared_state\<lparr>subscribed := True\<rparr>\<rparr>" and lsp = "[2]"
       and b = "new_broadcaster\<lparr>queue := [new_pending [1] ''ab'']\<rparr>" and p = "new_pending [1] ''ab''"
       and raw_txid = "\<lambda>_. Some 5" and txid_hex = "\<lambda>_. ''ab''" and indep = "\<lambda>w _. (w, None)" and now = 0 and why = "[]"]
  by (simp add: new_broadcaster_def case_prod_beta)

text \<open>Chain data is taken from whichever peer sends it: for every message but a funding abandonment, the
  bridge's state after it does not depend on the sender.\<close>

theorem chain_data_from_any_peer:
  "dispatch raw_txid now sender m st =
     (case m of JitFundingAbandoned a \<Rightarrow> st\<lparr>pending_abandons := pending_abandons st @ [(sender, a)]\<rparr>
      | _ \<Rightarrow> dispatch raw_txid now other m st)"
  by (cases m) simp_all

end
