(* ===== verification/Persisted_Counter.thy ===== *)
theory Persisted_Counter
  imports Wire_Codec
begin

text \<open>
  The persistent counter of key indices (\<open>persisted_counter.rs\<close>): the next index and an upward ratchet,
  each under a storage key as four big-endian bytes, with the next index cached while the wallet runs.
  The device's key-value store is a function from keys to values. Each storage access may fail, as an
  argument of the call; a failing \<open>set\<close> leaves the store as it was (a refused \<open>localStorage.setItem\<close>).
\<close>

type_synonym store = "string \<Rightarrow> bytes option"

definition KEY_NEXT_CHANNEL_INDEX :: string where "KEY_NEXT_CHANNEL_INDEX = ''lij_next_channel_index''"
definition KEY_COUNTER_UPWARD_RATCHET :: string where "KEY_COUNTER_UPWARD_RATCHET = ''lij_counter_upward_ratchet''"

definition store_get :: "bool \<Rightarrow> string \<Rightarrow> store \<Rightarrow> bytes option lij_result" where
  "store_get works key st = (if works then Inr (st key) else Inl (StorageError ''localStorage get error''))"

definition store_set :: "bool \<Rightarrow> string \<Rightarrow> bytes \<Rightarrow> store \<Rightarrow> store \<times> unit lij_result" where
  "store_set works key v st =
     (if works then (st(key \<mapsto> v), Inr ()) else (st, Inl (StorageError ''localStorage set error'')))"

section \<open>The counter\<close>

definition counter_parse_u32 :: "bytes \<Rightarrow> u32 lij_result" where
  "counter_parse_u32 bs =
     (if length bs \<noteq> 4 then Inl (StorageError ''Counter value has wrong length'') else Inr (word_of_nat (from_be bs)))"

definition counter_read :: "bool \<Rightarrow> string \<Rightarrow> store \<Rightarrow> u32 lij_result" where
  "counter_read works key st =
     (case store_get works key st of
        Inl e \<Rightarrow> Inl e
      | Inr (Some bs) \<Rightarrow> counter_parse_u32 bs
      | Inr None \<Rightarrow> Inr 0)"

text \<open>The running counter is its cached next index.\<close>

definition counter_new :: "bool \<Rightarrow> bool \<Rightarrow> store \<Rightarrow> u32 lij_result" where
  "counter_new works1 works2 st =
     (case counter_read works1 KEY_NEXT_CHANNEL_INDEX st of
        Inl e \<Rightarrow> Inl e
      | Inr current \<Rightarrow>
          (case counter_read works2 KEY_COUNTER_UPWARD_RATCHET st of
             Inl e \<Rightarrow> Inl e
           | Inr ratchet \<Rightarrow>
               if current < ratchet then Inl (StorageError ''Counter regression detected'') else Inr current))"

definition persist_both :: "bool \<Rightarrow> bool \<Rightarrow> u32 \<Rightarrow> store \<Rightarrow> store \<times> unit lij_result" where
  "persist_both works1 works2 n st =
     (case store_set works1 KEY_NEXT_CHANNEL_INDEX (write_u32 n) st of
        (st, Inl e) \<Rightarrow> (st, Inl e)
      | (st, Inr _) \<Rightarrow> store_set works2 KEY_COUNTER_UPWARD_RATCHET (write_u32 n) st)"

definition read_and_increment :: "bool \<Rightarrow> bool \<Rightarrow> store \<Rightarrow> u32 \<Rightarrow> store \<times> u32 \<times> u32 lij_result" where
  "read_and_increment works1 works2 st state =
     (let issued = state
      in if issued = - 1 then (st, state, Inl (StorageError ''Channel index counter overflow''))
         else case persist_both works1 works2 (issued + 1) st of
                (st, Inl e) \<Rightarrow> (st, state, Inl e)
              | (st, Inr _) \<Rightarrow> (st, issued + 1, Inr issued))"

definition raise_floor :: "bool \<Rightarrow> bool \<Rightarrow> u32 \<Rightarrow> store \<Rightarrow> u32 \<Rightarrow> store \<times> u32 \<times> unit lij_result" where
  "raise_floor works1 works2 n st state =
     (if n \<le> state then (st, state, Inr ())
      else case persist_both works1 works2 n st of
             (st, Inl e) \<Rightarrow> (st, state, Inl e)
           | (st, Inr _) \<Rightarrow> (st, n, Inr ()))"

definition peek_ratchet :: "bool \<Rightarrow> store \<Rightarrow> u32 lij_result" where
  "peek_ratchet works st = counter_read works KEY_COUNTER_UPWARD_RATCHET st"

definition peek_persisted :: "bool \<Rightarrow> store \<Rightarrow> u32" where
  "peek_persisted works st =
     (case store_get works KEY_NEXT_CHANNEL_INDEX st of
        Inr (Some bs) \<Rightarrow> (case counter_parse_u32 bs of Inr v \<Rightarrow> v | Inl _ \<Rightarrow> 0)
      | _ \<Rightarrow> 0)"

section \<open>Starts, stops and calls in any order\<close>

text \<open>The wallet is down (no counter) or running with a cached index. Besides the wallet's own calls, the
  counter key may at any time be overwritten or removed from outside: a partial restore, another tab.\<close>

record counter_sys =
  cs_store :: store
  cs_live :: "u32 option"

datatype counter_call =
    Start bool bool
  | Stop
  | Issue bool bool
  | RaiseFloor u32 bool bool
  | OverwriteCounter "bytes option"

fun counter_step :: "counter_sys \<Rightarrow> counter_call \<Rightarrow> counter_sys \<times> u32 option" where
  "counter_step s (Start works1 works2) =
     (s\<lparr>cs_live := ok_value (counter_new works1 works2 (cs_store s))\<rparr>, None)"
| "counter_step s Stop = (s\<lparr>cs_live := None\<rparr>, None)"
| "counter_step s (Issue works1 works2) =
     (case cs_live s of
        None \<Rightarrow> (s, None)
      | Some state \<Rightarrow>
          (let (st, state, r) = read_and_increment works1 works2 (cs_store s) state
           in (\<lparr>cs_store = st, cs_live = Some state\<rparr>, ok_value r)))"
| "counter_step s (RaiseFloor n works1 works2) =
     (case cs_live s of
        None \<Rightarrow> (s, None)
      | Some state \<Rightarrow>
          (let (st, state, r) = raise_floor works1 works2 n (cs_store s) state
           in (\<lparr>cs_store = st, cs_live = Some state\<rparr>, None)))"
| "counter_step s (OverwriteCounter v) = (s\<lparr>cs_store := (cs_store s)(KEY_NEXT_CHANNEL_INDEX := v)\<rparr>, None)"

section \<open>Lemmas\<close>

text \<open>The ratchet as stored, and the invariant: it is readable and never above a running counter.\<close>

definition ratchet_value :: "counter_sys \<Rightarrow> nat" where
  "ratchet_value s = (case cs_store s KEY_COUNTER_UPWARD_RATCHET of Some bs \<Rightarrow> from_be bs | None \<Rightarrow> 0)"

definition counter_inv :: "counter_sys \<Rightarrow> bool" where
  "counter_inv s =
     ((case cs_store s KEY_COUNTER_UPWARD_RATCHET of Some bs \<Rightarrow> length bs = 4 | None \<Rightarrow> True) \<and>
      (case cs_live s of Some state \<Rightarrow> ratchet_value s \<le> unat state | None \<Rightarrow> True))"

lemma keys_differ [simp]: "KEY_COUNTER_UPWARD_RATCHET \<noteq> KEY_NEXT_CHANNEL_INDEX"
  by (simp add: KEY_COUNTER_UPWARD_RATCHET_def KEY_NEXT_CHANNEL_INDEX_def)

lemma length_write_u32 [simp]: "length (write_u32 n) = 4"
  by (simp add: write_u32_def)

lemma from_be_write_u32 [simp]: "from_be (write_u32 n) = unat n"
  using unat_less_pow [of n] by (simp add: write_u32_def from_be_be_nat)

lemma from_be_less: "from_be bs < 256 ^ length bs"
proof (induction bs rule: rev_induct)
  case (snoc b bs)
  have "unat b < 256" using unat_less_pow [of b] by simp
  with snoc show ?case by (simp add: from_be_snoc)
qed (simp add: from_be_def)

lemma start_above_ratchet:
  assumes "counter_inv s" and "counter_new works1 works2 (cs_store s) = Inr state"
  shows "ratchet_value s \<le> unat state"
proof (cases "cs_store s KEY_COUNTER_UPWARD_RATCHET")
  case None
  then show ?thesis by (simp add: ratchet_value_def)
next
  case (Some bs)
  with assms(1) have len: "length bs = 4" by (simp add: counter_inv_def)
  with from_be_less [of bs] have "unat (word_of_nat (from_be bs) :: u32) = from_be bs"
    by (simp add: unat_of_nat)
  with assms(2) Some len show ?thesis
    by (auto simp: counter_new_def counter_read_def store_get_def counter_parse_u32_def ratchet_value_def
        word_less_nat_alt not_less split: sum.splits if_splits option.splits)
qed

text \<open>What a persist of both keys leaves: on success both hold the number; on failure the ratchet is as it was.\<close>

lemma persist_both_ratchet:
  "persist_both works1 works2 n st = (st', r) \<Longrightarrow>
     st' KEY_COUNTER_UPWARD_RATCHET = (if is_ok r then Some (write_u32 n) else st KEY_COUNTER_UPWARD_RATCHET)"
  by (auto simp: persist_both_def store_set_def split: if_splits)

lemma next_above:
  fixes state :: u32
  assumes "state \<noteq> - 1"
  shows "unat (state + 1) = unat state + 1"
proof -
  have "1 + state \<noteq> 0" using assms by (simp add: add_eq_0_iff)
  then show ?thesis using unatSuc [of state] by (simp add: add.commute)
qed

text \<open>What a call can do to the ratchet and the cache: leave the ratchet, or set both together above it.\<close>

definition ratchet_kept :: "counter_sys \<Rightarrow> counter_sys \<Rightarrow> bool" where
  "ratchet_kept s s' = (cs_store s' KEY_COUNTER_UPWARD_RATCHET = cs_store s KEY_COUNTER_UPWARD_RATCHET \<and>
     (cs_live s' = cs_live s \<or> cs_live s' = None \<or> (\<exists>state. cs_live s' = Some state \<and> ratchet_value s \<le> unat state)))"

definition ratchet_raised :: "u32 \<Rightarrow> counter_sys \<Rightarrow> bool" where
  "ratchet_raised n s' = (cs_store s' KEY_COUNTER_UPWARD_RATCHET = Some (write_u32 n) \<and> cs_live s' = Some n)"

lemma counter_step_cases:
  assumes "counter_inv s"
  obtains (kept) "ratchet_kept s (fst (counter_step s e))" "snd (counter_step s e) = None"
  | (issued) state where "cs_live s = Some state" "state \<noteq> - 1" "ratchet_raised (state + 1) (fst (counter_step s e))"
      "snd (counter_step s e) = Some state"
  | (raised) state n where "cs_live s = Some state" "state < n" "ratchet_raised n (fst (counter_step s e))"
      "snd (counter_step s e) = None"
proof (cases e)
  case (Start w1 w2)
  then show thesis
    using start_above_ratchet [OF assms, of w1 w2]
    by (intro kept) (cases "counter_new w1 w2 (cs_store s)"; simp add: ratchet_kept_def)+
next
  case (Issue w1 w2)
  show thesis
  proof (cases "cs_live s")
    case (Some state)
    obtain st' r where p: "persist_both w1 w2 (state + 1) (cs_store s) = (st', r)" by (cases "persist_both w1 w2 (state + 1) (cs_store s)")
    show thesis
    proof (cases "state = - 1 \<or> \<not> is_ok r")
      case True
      with Issue Some p persist_both_ratchet [OF p] show thesis
        by (intro kept) (auto simp: ratchet_kept_def read_and_increment_def Let_def is_ok_def split: sum.splits)
    next
      case False
      with Issue Some p persist_both_ratchet [OF p] show thesis
        by (intro issued [OF Some]) (cases r; auto simp: ratchet_raised_def read_and_increment_def Let_def)+
    qed
  qed (use Issue in \<open>auto intro!: kept simp: ratchet_kept_def\<close>)
next
  case (RaiseFloor n w1 w2)
  show thesis
  proof (cases "cs_live s")
    case (Some state)
    obtain st' r where p: "persist_both w1 w2 n (cs_store s) = (st', r)" by (cases "persist_both w1 w2 n (cs_store s)")
    show thesis
    proof (cases "n \<le> state \<or> \<not> is_ok r")
      case True
      with RaiseFloor Some p persist_both_ratchet [OF p] show thesis
        by (intro kept) (auto simp: ratchet_kept_def raise_floor_def Let_def is_ok_def split: sum.splits)
    next
      case False
      with RaiseFloor Some p persist_both_ratchet [OF p] show thesis
        by (intro raised [OF Some, of n]) (cases r; auto simp: ratchet_raised_def raise_floor_def Let_def)+
    qed
  qed (use RaiseFloor in \<open>auto intro!: kept simp: ratchet_kept_def\<close>)
qed (auto intro!: kept simp: ratchet_kept_def)

lemma kept_value: "ratchet_kept s s' \<Longrightarrow> ratchet_value s' = ratchet_value s"
  by (simp add: ratchet_kept_def ratchet_value_def)

lemma raised_value: "ratchet_raised n s' \<Longrightarrow> ratchet_value s' = unat n"
  by (simp add: ratchet_raised_def ratchet_value_def)

lemma kept_inv: "counter_inv s \<Longrightarrow> ratchet_kept s s' \<Longrightarrow> counter_inv s'"
  using kept_value [of s s'] by (auto simp: counter_inv_def ratchet_kept_def split: option.splits)

lemma raised_inv: "ratchet_raised n s' \<Longrightarrow> counter_inv s'"
  using raised_value [of n s'] by (simp add: counter_inv_def ratchet_raised_def)

interpretation indices:
  issuing_machine counter_step "\<lambda>_. True" counter_inv ratchet_value "map_option unat"
proof
  fix s e n
  assume inv: "counter_inv s"
  then have live: "ratchet_value s \<le> unat state" if "cs_live s = Some state" for state
    using that by (simp add: counter_inv_def)
  show "counter_inv (fst (counter_step s e))"
    using inv by (rule counter_step_cases [of s e]) (auto intro: kept_inv raised_inv inv)
  show "ratchet_value s \<le> ratchet_value (fst (counter_step s e))"
    using inv
    by (rule counter_step_cases [of s e]) (auto simp: kept_value raised_value next_above word_less_nat_alt dest!: live)
  assume out: "map_option unat (snd (counter_step s e)) = Some n"
  show "ratchet_value s \<le> n \<and> n < ratchet_value (fst (counter_step s e))"
    using inv by (rule counter_step_cases [of s e]) (use out in \<open>auto simp: raised_value next_above dest!: live\<close>)
qed

section \<open>Properties\<close>

text \<open>C34: over any sequence of starts, stops, increments and floors, with any storage access failing and the
  counter key overwritten or removed from outside at any moment, the indices handed out are strictly
  increasing: none is handed out twice.\<close>

theorem indices_never_reused:
  "sorted_wrt (<) (map unat (List.map_filter (\<lambda>issued. issued)
     (outputs counter_step \<lparr>cs_store = Map.empty, cs_live = None\<rparr> calls)))"
proof -
  have inv: "counter_inv \<lparr>cs_store = Map.empty, cs_live = None\<rparr>" by (simp add: counter_inv_def)
  have "List.map_filter (map_option unat) xs = map unat (List.map_filter (\<lambda>issued. issued) xs)" for xs :: "u32 option list"
    by (induction xs) (auto simp: map_filter_simps split: option.splits)
  with indices.run_issues_increasing [OF inv, of calls] show ?thesis by (simp add: list_all_iff)
qed

text \<open>An increment that returns an index has stored its successor under both keys, so that a restart
  continues with that successor; one that fails leaves the cached index where it was.\<close>

theorem increment_persists_first:
  "(case read_and_increment works1 works2 st state of
      (st', state', Inr issued) \<Rightarrow> issued = state \<and> unat state' = unat state + 1 \<and>
         st' KEY_NEXT_CHANNEL_INDEX = Some (write_u32 state') \<and> st' KEY_COUNTER_UPWARD_RATCHET = Some (write_u32 state') \<and>
         counter_new True True st' = Inr state'
    | (st', state', Inl e) \<Rightarrow> state' = state)"
  by (auto simp: read_and_increment_def persist_both_def store_set_def next_above Let_def counter_new_def counter_read_def
      store_get_def counter_parse_u32_def split: if_splits)

end
