(* ===== verification/Dead_Opens.thy ===== *)
theory Dead_Opens
  imports Cooperative_Bridge
begin

text \<open>
  When the wallet may throw a channel away without a close: the verdict on an outbound channel whose
  funding nothing knows (\<open>cancelled_open.rs\<close>), the rule for an inbound channel the provider says it
  never funded (\<open>jit_funding.rs\<close>), and the node's periodic sweep and per-tick handling that apply them
  (\<open>node.rs\<close>). LDK's view of a channel is a record of the fields read; the provider's status answers
  and the chain servers' answers to "is this transaction known" (\<open>tx_known\<close>) are arguments of a sweep. The
  map of first-seen-dead times is the persisted one. Log text is left out.
\<close>

section \<open>Cancelled opens\<close>

definition DEAD_FLOOR_MS :: nat where "DEAD_FLOOR_MS = 2 * 3600 * 1000"

datatype verdict = Alive | Watching | Dead | Unknown

definition verdict_of :: "bool \<Rightarrow> bool \<Rightarrow> bool option \<Rightarrow> nat option \<Rightarrow> nat \<Rightarrow> verdict" where
  "verdict_of in_pending in_history quorum_knows first_dead_ms now_ms =
     (if in_pending \<or> in_history then Alive
      else case quorum_knows of
             Some True \<Rightarrow> Alive
           | None \<Rightarrow> Unknown
           | Some False \<Rightarrow>
               (case first_dead_ms of
                  Some t0 \<Rightarrow> if DEAD_FLOOR_MS \<le> now_ms - t0 then Dead else Watching
                | None \<Rightarrow> Watching))"

section \<open>The rule for a channel never funded\<close>

definition WATCH_FLOOR_MS :: nat where "WATCH_FLOOR_MS = 30 * 60 * 1000"

definition outpoint_key :: "string \<Rightarrow> u32 \<Rightarrow> string" where
  "outpoint_key txid_hex index = txid_hex @ '':'' @ show_nat (unat index)"

record channel_view =
  cv_is_outbound :: bool
  cv_confirmations_required :: "u32 option"
  cv_confirmations :: "u32 option"
  our_claimable_sats :: nat
  pending_inbound_htlcs :: nat
  pending_outbound_htlcs :: nat
  funding_known_to_books :: bool

definition confs_or_zero :: "u32 option \<Rightarrow> u32" where
  "confs_or_zero c = (case c of Some n \<Rightarrow> n | None \<Rightarrow> 0)"

datatype refusal =
    SenderNotCounterparty | SenderNotActiveProvider | WeFundedIt | NotZeroConf | FundingConfirmed
  | WeOwnSats | PaymentPending | FundingKnown

definition refuse_reason_channel :: "channel_view \<Rightarrow> refusal option" where
  "refuse_reason_channel v =
     (if cv_is_outbound v then Some WeFundedIt
      else if cv_confirmations_required v \<noteq> Some 0 then Some NotZeroConf
      else if 0 < confs_or_zero (cv_confirmations v) then Some FundingConfirmed
      else if 0 < our_claimable_sats v then Some WeOwnSats
      else if 0 < pending_inbound_htlcs v \<or> 0 < pending_outbound_htlcs v then Some PaymentPending
      else if funding_known_to_books v then Some FundingKnown
      else None)"

definition refuse_reason :: "bool \<Rightarrow> bool \<Rightarrow> channel_view \<Rightarrow> refusal option" where
  "refuse_reason sender_is_counterparty sender_is_active_lsp v =
     (if \<not> sender_is_counterparty then Some SenderNotCounterparty
      else if \<not> sender_is_active_lsp then Some SenderNotActiveProvider
      else case refuse_reason_channel v of Some r \<Rightarrow> Some r | None \<Rightarrow> None)"

definition watch_applies :: "channel_view \<Rightarrow> bool" where
  "watch_applies v = (\<not> cv_is_outbound v \<and> cv_confirmations_required v = Some 0 \<and>
     confs_or_zero (cv_confirmations v) = 0 \<and> 0 < our_claimable_sats v \<and> \<not> funding_known_to_books v)"

text \<open>A channel as LDK lists it, with its monitor's claimable balances (\<open>None\<close>: no monitor) in satoshis.\<close>

record live_channel =
  lc_channel_id :: bytes
  lc_counterparty :: peer
  lc_is_outbound :: bool
  lc_is_channel_ready :: bool
  lc_confirmations_required :: "u32 option"
  lc_confirmations :: "u32 option"
  lc_funding_txo :: "(string \<times> u32) option"
  lc_inbound_htlcs :: nat
  lc_outbound_htlcs :: nat
  lc_claimable :: "nat list option"

definition jit_channel_view :: "live_channel \<Rightarrow> string set \<Rightarrow> string set \<Rightarrow> channel_view" where
  "jit_channel_view c pending history =
     \<lparr>cv_is_outbound = lc_is_outbound c, cv_confirmations_required = lc_confirmations_required c,
      cv_confirmations = lc_confirmations c,
      our_claimable_sats = (case lc_claimable c of Some bs \<Rightarrow> sum_list bs | None \<Rightarrow> u64_max),
      pending_inbound_htlcs = lc_inbound_htlcs c, pending_outbound_htlcs = lc_outbound_htlcs c,
      funding_known_to_books = (case lc_funding_txo c of Some (t, _) \<Rightarrow> t \<in> pending \<or> t \<in> history | None \<Rightarrow> True)\<rparr>"

section \<open>The sweep\<close>

type_synonym dead_map = "string \<rightharpoonup> nat"

record sweep_env =
  se_channels :: "live_channel list"
  se_pending :: "string set"
  se_history :: "string set"
  se_now :: nat
  se_provider :: bool
  se_active_lsp :: "peer option"
  se_status :: "string \<Rightarrow> string option"
  se_tx_known :: "string \<Rightarrow> bool option"

text \<open>What the sweep carries from one run to the next: the clocks, and the drops queued for the tick.\<close>

type_synonym audit_drop = "bytes \<times> peer \<times> string"

fun sweep_lists ::
  "string set \<Rightarrow> string set \<Rightarrow> live_channel list \<Rightarrow>
     (bytes \<times> peer \<times> string \<times> u32 \<times> channel_view) list \<times> (bytes \<times> string) list" where
  "sweep_lists pending history [] = ([], [])"
| "sweep_lists pending history (c # cs) =
     (let (inbound, candidates) = sweep_lists pending history cs
      in if \<not> lc_is_outbound c \<and> lc_is_channel_ready c \<and> lc_confirmations_required c = Some 0 \<and>
            confs_or_zero (lc_confirmations c) = 0
         then (case lc_funding_txo c of
                 Some (t, ix) \<Rightarrow>
                   (let view = jit_channel_view c pending history
                    in if \<not> funding_known_to_books view
                       then ((lc_channel_id c, lc_counterparty c, t, ix, view) # inbound, candidates)
                       else (inbound, candidates))
               | None \<Rightarrow> (inbound, candidates))
         else if \<not> lc_is_outbound c \<or> lc_is_channel_ready c \<or> 0 < confs_or_zero (lc_confirmations c)
         then (inbound, candidates)
         else case lc_funding_txo c of
                Some (t, _) \<Rightarrow> (inbound, (lc_channel_id c, t) # candidates)
              | None \<Rightarrow> (inbound, candidates))"

definition start_clock :: "string \<Rightarrow> nat \<Rightarrow> dead_map \<Rightarrow> dead_map" where
  "start_clock f now m = (if m f = None then m(f \<mapsto> now) else m)"

text \<open>What the watch adds up for the health report: satoshis owned in unpublished channels, how many channels, and
  the earliest time one was first seen so (0: none).\<close>

type_synonym unpublished = "nat \<times> nat \<times> nat"

definition count_unpublished :: "channel_view \<Rightarrow> nat \<Rightarrow> unpublished \<Rightarrow> unpublished" where
  "count_unpublished view t0 u =
     (let (sats, n, since) = u
      in (sats + our_claimable_sats view, n + 1, if since = 0 \<or> t0 < since then t0 else since))"

definition clock_of :: "string \<Rightarrow> nat \<Rightarrow> dead_map \<Rightarrow> nat" where
  "clock_of f now m = (case m f of Some t0 \<Rightarrow> t0 | None \<Rightarrow> now)"

text \<open>One inbound channel: the audit queues a drop, the watch keeps the clock.\<close>

definition sweep_inbound ::
  "sweep_env \<Rightarrow> (bytes \<times> peer \<times> string \<times> u32 \<times> channel_view) \<Rightarrow>
     dead_map \<times> audit_drop list \<times> unpublished \<Rightarrow> dead_map \<times> audit_drop list \<times> unpublished" where
  "sweep_inbound env entry acc =
     (let (chan_id, peer, f, vout, view) = entry; (m, drops, u) = acc; now = se_now env; t0 = clock_of f now m;
          op_key = outpoint_key f vout;
          status = (if se_provider env \<and> se_active_lsp env = Some peer then se_status env op_key else None);
          nothing_owned = (refuse_reason_channel view = None);
          gone = (status = Some ''abandoned'' \<or> status = Some ''cancelled'' \<or> status = Some ''orphan'');
          holding = (status = Some ''held'' \<or> status = Some ''paid'' \<or> status = Some ''funded'')
      in if gone \<and> nothing_owned
         then (m(f := None),
               if list_ex (\<lambda>(id, _, _). id = chan_id) drops then drops else drops @ [(chan_id, peer, op_key)], u)
         else if gone then (start_clock f now m, drops, count_unpublished view t0 u)
         else if holding \<and> watch_applies view
         then (start_clock f now m, drops, if WATCH_FLOOR_MS \<le> now - t0 then count_unpublished view t0 u else u)
         else if status = Some ''published'' \<or> status = Some ''confirmed'' then (m(f := None), drops, u)
         else if watch_applies view
         then (if se_tx_known env f = Some False then (start_clock f now m, drops, u) else (m(f := None), drops, u))
         else (m, drops, u))"

text \<open>One outbound candidate.\<close>

definition sweep_candidate ::
  "sweep_env \<Rightarrow> (bytes \<times> string) \<Rightarrow> dead_map \<times> (bytes \<times> string) list \<Rightarrow> dead_map \<times> (bytes \<times> string) list" where
  "sweep_candidate env entry acc =
     (let (chan_id, f) = entry; (m, discards) = acc;
          in_pending = (f \<in> se_pending env); in_history = (f \<in> se_history env);
          quorum_knows = (if in_pending \<or> in_history then Some True else se_tx_known env f)
      in case verdict_of in_pending in_history quorum_knows (m f) (se_now env) of
           Alive \<Rightarrow> (m(f := None), discards)
         | Unknown \<Rightarrow> (m, discards)
         | Watching \<Rightarrow> (start_clock f (se_now env) m, discards)
         | Dead \<Rightarrow> (m(f := None), discards @ [(chan_id, f)]))"

text \<open>A sweep gives the channels it discarded, with their funding, and the totals it stores.\<close>

definition sweep ::
  "dead_map \<times> audit_drop list \<Rightarrow> sweep_env \<Rightarrow> (dead_map \<times> audit_drop list) \<times> (bytes \<times> string) list \<times> unpublished" where
  "sweep st env =
     (let (m, drops) = st;
          (inbound, candidates) = sweep_lists (se_pending env) (se_history env) (se_channels env);
          live = set (map (\<lambda>(_, f). f) candidates) \<union> set (map (\<lambda>(_, _, f, _, _). f) inbound);
          m = m |` live;
          (m, drops, u) = fold (sweep_inbound env) inbound (m, drops, 0, 0, 0);
          (m, discards) = fold (sweep_candidate env) candidates (m, [])
      in ((m, drops), discards, u))"

section \<open>The tick\<close>

text \<open>The audit's queued drops and the provider's messages are judged on the channels as they stand;
  \<open>close_ok\<close> says whether LDK's force close without a broadcast succeeds. A successful one takes the
  channel off the list.\<close>

definition drop_channel ::
  "(bytes \<Rightarrow> bool) \<Rightarrow> live_channel \<Rightarrow> live_channel list \<times> live_channel list \<Rightarrow> live_channel list \<times> live_channel list" where
  "drop_channel close_ok c acc =
     (let (channels, dropped) = acc
      in if close_ok (lc_channel_id c)
         then (filter (\<lambda>x. lc_channel_id x \<noteq> lc_channel_id c) channels, dropped @ [c]) else (channels, dropped))"

definition judge_drop ::
  "(bytes \<Rightarrow> bool) \<Rightarrow> peer option \<Rightarrow> string set \<Rightarrow> string set \<Rightarrow> peer \<Rightarrow> live_channel option \<Rightarrow>
     live_channel list \<times> live_channel list \<Rightarrow> live_channel list \<times> live_channel list" where
  "judge_drop close_ok active_lsp pending history sender found acc =
     (case found of
        None \<Rightarrow> acc
      | Some c \<Rightarrow>
          (case refuse_reason (sender = lc_counterparty c) (active_lsp = Some sender) (jit_channel_view c pending history) of
             Some _ \<Rightarrow> acc
           | None \<Rightarrow> drop_channel close_ok c acc))"

definition audit_one ::
  "(bytes \<Rightarrow> bool) \<Rightarrow> peer option \<Rightarrow> string set \<Rightarrow> string set \<Rightarrow> audit_drop \<Rightarrow>
     live_channel list \<times> live_channel list \<Rightarrow> live_channel list \<times> live_channel list" where
  "audit_one close_ok active_lsp pending history ad acc =
     (let (chan_id, peer, _) = ad
      in judge_drop close_ok active_lsp pending history peer (find (\<lambda>c. lc_channel_id c = chan_id) (fst acc)) acc)"

definition abandon_one ::
  "(txid \<Rightarrow> string) \<Rightarrow> (bytes \<Rightarrow> bool) \<Rightarrow> peer option \<Rightarrow> string set \<Rightarrow> string set \<Rightarrow> peer \<times> jit_funding_abandoned \<Rightarrow>
     live_channel list \<times> live_channel list \<Rightarrow> live_channel list \<times> live_channel list" where
  "abandon_one txid_hex close_ok active_lsp pending history msg acc =
     (let (sender, a) = msg
      in judge_drop close_ok active_lsp pending history sender
           (find (\<lambda>c. lc_funding_txo c = Some (txid_hex (jfa_funding_txid a), jfa_output_index a)) (fst acc)) acc)"

definition jit_abandons_tick ::
  "(txid \<Rightarrow> string) \<Rightarrow> (bytes \<Rightarrow> bool) \<Rightarrow> peer option \<Rightarrow> string set \<Rightarrow> string set \<Rightarrow> audit_drop list \<Rightarrow>
     (peer \<times> jit_funding_abandoned) list \<Rightarrow> live_channel list \<Rightarrow> live_channel list \<times> live_channel list" where
  "jit_abandons_tick txid_hex close_ok active_lsp pending history audit queued channels =
     fold (abandon_one txid_hex close_ok active_lsp pending history) queued
       (fold (audit_one close_ok active_lsp pending history) audit (channels, []))"

section \<open>Lemmas\<close>

subsection \<open>The rule\<close>

definition owns_nothing :: "peer option \<Rightarrow> string set \<Rightarrow> string set \<Rightarrow> live_channel \<Rightarrow> bool" where
  "owns_nothing active_lsp pending history c =
     (\<not> lc_is_outbound c \<and> lc_confirmations_required c = Some 0 \<and> lc_confirmations c \<in> {None, Some 0} \<and>
      (\<exists>bs. lc_claimable c = Some bs \<and> sum_list bs = 0) \<and> lc_inbound_htlcs c = 0 \<and> lc_outbound_htlcs c = 0 \<and>
      (\<exists>t ix. lc_funding_txo c = Some (t, ix) \<and> t \<notin> pending \<and> t \<notin> history) \<and> active_lsp = Some (lc_counterparty c))"

lemma rule_exact:
  "refuse_reason (sender = lc_counterparty c) (active_lsp = Some sender) (jit_channel_view c pending history) = None \<longleftrightarrow>
     sender = lc_counterparty c \<and> owns_nothing active_lsp pending history c"
  by (auto simp: refuse_reason_def refuse_reason_channel_def owns_nothing_def jit_channel_view_def confs_or_zero_def
      u64_max_def word_neq_0_conv [symmetric] simp del: sum_list_eq_0_iff split: option.splits)

text \<open>What the tick has done so far: the dropped channels are listed ones that own nothing, and exactly
  their ids are gone from the list.\<close>

definition drops_sound ::
  "peer option \<Rightarrow> string set \<Rightarrow> string set \<Rightarrow> live_channel list \<Rightarrow> live_channel list \<times> live_channel list \<Rightarrow> bool" where
  "drops_sound active_lsp pending history channels acc =
     (list_all (\<lambda>c. c \<in> set channels \<and> owns_nothing active_lsp pending history c) (snd acc) \<and>
      fst acc = filter (\<lambda>c. lc_channel_id c \<notin> lc_channel_id ` set (snd acc)) channels)"

lemma drop_channel_sound:
  assumes "drops_sound active_lsp pending history channels acc" and "c \<in> set (fst acc)"
    and "owns_nothing active_lsp pending history c"
  shows "drops_sound active_lsp pending history channels (drop_channel close_ok c acc)"
  using assms
  by (cases acc) (auto simp: drops_sound_def drop_channel_def Let_def conj_commute)

lemma judge_drop_sound:
  assumes "drops_sound active_lsp pending history channels acc"
  shows "drops_sound active_lsp pending history channels
    (judge_drop close_ok active_lsp pending history sender (find p (fst acc)) acc)"
proof (cases "find p (fst acc)")
  case (Some c)
  hence "c \<in> set (fst acc)" by (metis find_Some_iff nth_mem)
  with Some assms show ?thesis
    by (auto simp: judge_drop_def rule_exact intro: drop_channel_sound split: option.splits)
qed (simp add: assms judge_drop_def)

lemma fold_preserves: "(\<And>x acc. P acc \<Longrightarrow> P (f x acc)) \<Longrightarrow> P acc \<Longrightarrow> P (fold f xs acc)"
  by (induction xs arbitrary: acc) auto

subsection \<open>The clocks\<close>

definition inbound_fundings :: "sweep_env \<Rightarrow> string set" where
  "inbound_fundings env =
     set (map (\<lambda>(_, _, f, _, _). f) (fst (sweep_lists (se_pending env) (se_history env) (se_channels env))))"

abbreviation candidate_fundings :: "sweep_env \<Rightarrow> string set" where
  "candidate_fundings env \<equiv>
     set (map (\<lambda>(_, f). f) (snd (sweep_lists (se_pending env) (se_history env) (se_channels env))))"

text \<open>How a funding looked at one sweep: quiet when nothing knew it, unseen when a server also said so.\<close>

definition quiet :: "string \<Rightarrow> sweep_env \<Rightarrow> bool" where
  "quiet f env = (f \<in> candidate_fundings env \<and> f \<notin> se_pending env \<and> f \<notin> se_history env \<and> se_tx_known env f \<noteq> Some True)"

definition unseen :: "string \<Rightarrow> sweep_env \<Rightarrow> bool" where
  "unseen f env = (quiet f env \<and> se_tx_known env f = Some False)"

lemma inbound_leaves_others:
  "f \<notin> set (map (\<lambda>(_, _, f, _, _). f) inb) \<Longrightarrow> fst (fold (sweep_inbound env) inb (m, drops, u)) f = m f"
proof (induction inb arbitrary: m drops u)
  case (Cons x inb)
  obtain id p g ix v where x: "x = (id, p, g, ix, v)" by (metis prod_cases5)
  obtain m' d' u' where step: "sweep_inbound env x (m, drops, u) = (m', d', u')" by (metis prod_cases3)
  from Cons.prems x have "f \<noteq> g" by simp
  with step x have "m' f = m f" by (auto simp: sweep_inbound_def Let_def start_clock_def split: if_splits)
  with Cons step show ?case by simp
qed simp

text \<open>One candidate's effect on the clock of a funding, and when it is discarded.\<close>

lemma candidate_other: "g \<noteq> f \<Longrightarrow> fst (sweep_candidate env (cid, g) (m, ds)) f = m f"
  by (auto simp: sweep_candidate_def Let_def start_clock_def split: verdict.splits)

lemma candidate_clock:
  assumes "f \<in> candidate_fundings env"
  shows "fst (sweep_candidate env (cid, f) (m, ds)) f \<in>
     (if quiet f env then {m f, None} \<union> (if unseen f env then {Some (se_now env)} else {}) else {None})"
  using assms
  by (auto simp: sweep_candidate_def verdict_of_def quiet_def unseen_def Let_def start_clock_def
      split: option.splits bool.splits if_splits)

lemma candidate_discards:
  assumes "f \<in> candidate_fundings env" and "(i, f) \<in> set (snd (sweep_candidate env (cid, g) (m, ds)))" and "(i, f) \<notin> set ds"
  shows "unseen f env \<and> (\<exists>t0. m f = Some t0 \<and> t0 + DEAD_FLOOR_MS \<le> se_now env)"
  using assms
  by (auto simp: sweep_candidate_def verdict_of_def quiet_def unseen_def Let_def DEAD_FLOOR_MS_def
      split: option.splits bool.splits if_splits)

text \<open>The pass over the candidates, for one funding whose clock was \<open>before\<close> the pass: the clocks it may end
  with, and when it is discarded.\<close>

definition clocks_after :: "string \<Rightarrow> sweep_env \<Rightarrow> nat option \<Rightarrow> nat option set" where
  "clocks_after f env before = {before, None} \<union> (if unseen f env then {Some (se_now env)} else {})"

definition dead_long :: "string \<Rightarrow> sweep_env \<Rightarrow> nat option \<Rightarrow> bool" where
  "dead_long f env before = (unseen f env \<and> (\<exists>t0. before = Some t0 \<and> t0 + DEAD_FLOOR_MS \<le> se_now env))"

lemma candidate_turn:
  assumes "f \<in> candidate_fundings env" and "m f \<in> clocks_after f env before"
    and "\<forall>i. (i, f) \<in> set ds \<longrightarrow> dead_long f env before" and "sweep_candidate env (cid, g) (m, ds) = (m1, d1)"
  shows "m1 f \<in> clocks_after f env before" and "\<forall>i. (i, f) \<in> set d1 \<longrightarrow> dead_long f env before"
    and "\<not> quiet f env \<Longrightarrow> g = f \<or> m f = None \<Longrightarrow> m1 f = None"
proof -
  have clock: "m1 f \<in> (if g = f then (if quiet f env then {m f, None} \<union> (if unseen f env then {Some (se_now env)} else {}) else {None})
      else {m f})"
    using candidate_other [of g f env cid m ds] candidate_clock [OF assms(1), of cid m ds] assms(4) by auto
  with assms(2) show "m1 f \<in> clocks_after f env before" by (auto simp: clocks_after_def split: if_splits)
  show "\<not> quiet f env \<Longrightarrow> g = f \<or> m f = None \<Longrightarrow> m1 f = None" using clock by (auto split: if_splits)
  show "\<forall>i. (i, f) \<in> set d1 \<longrightarrow> dead_long f env before"
  proof (intro allI impI)
    fix i
    assume i: "(i, f) \<in> set d1"
    show "dead_long f env before"
    proof (cases "(i, f) \<in> set ds")
      case False
      with i assms(4) candidate_discards [OF assms(1), of i cid g m ds] assms(2) show ?thesis
        by (auto simp: dead_long_def clocks_after_def DEAD_FLOOR_MS_def)
    qed (use assms(3) in blast)
  qed
qed

lemma candidates_pass:
  assumes "f \<in> candidate_fundings env"
  shows "fold (sweep_candidate env) cs (m, ds) = (m', ds') \<Longrightarrow> m f \<in> clocks_after f env before \<Longrightarrow>
      \<forall>i. (i, f) \<in> set ds \<longrightarrow> dead_long f env before \<Longrightarrow>
    m' f \<in> clocks_after f env before \<and> (\<forall>i. (i, f) \<in> set ds' \<longrightarrow> dead_long f env before) \<and>
    (\<not> quiet f env \<longrightarrow> f \<in> set (map (\<lambda>(_, f). f) cs) \<or> m f = None \<longrightarrow> m' f = None)"
proof (induction cs arbitrary: m ds)
  case (Cons x cs)
  obtain cid g where x: "x = (cid, g)" by (cases x)
  obtain m1 d1 where step: "sweep_candidate env (cid, g) (m, ds) = (m1, d1)"
    by (cases "sweep_candidate env (cid, g) (m, ds)")
  note turn = candidate_turn [OF assms Cons.prems(2,3) step]
  from Cons.prems(1) x step have "fold (sweep_candidate env) cs (m1, d1) = (m', ds')" by simp
  from Cons.IH [OF this turn(1,2)] turn(3) x show ?case by auto
qed simp

lemma candidates_leave_others:
  assumes "f \<notin> set (map (\<lambda>(_, f). f) cs)"
  shows "fold (sweep_candidate env) cs (m, ds) = (m', ds') \<Longrightarrow> m' f = m f \<and> ((i, f) \<in> set ds' \<longrightarrow> (i, f) \<in> set ds)"
  using assms
proof (induction cs arbitrary: m ds)
  case (Cons x cs)
  obtain cid g where x: "x = (cid, g)" by (cases x)
  obtain m1 d1 where step: "sweep_candidate env (cid, g) (m, ds) = (m1, d1)"
    by (cases "sweep_candidate env (cid, g) (m, ds)")
  have "m1 f = m f" using candidate_other [of g f env cid m ds] step Cons.prems(2) x by auto
  moreover have "(i, f) \<in> set d1 \<longrightarrow> (i, f) \<in> set ds"
    using step Cons.prems(2) x by (auto simp: sweep_candidate_def Let_def split: verdict.splits)
  ultimately show ?case using Cons x step by auto
qed simp

text \<open>A whole sweep, for a funding that is not also an inbound channel's.\<close>

lemma sweep_clock:
  assumes "sweep (m, drops) env = ((m', drops'), discards, u)" and "f \<notin> inbound_fundings env"
  shows "m' f \<noteq> None \<Longrightarrow> quiet f env \<and> (m' f = m f \<or> unseen f env \<and> m' f = Some (se_now env))"
    and "(i, f) \<in> set discards \<Longrightarrow> dead_long f env (m f)"
proof -
  obtain inb cs where lists: "sweep_lists (se_pending env) (se_history env) (se_channels env) = (inb, cs)"
    by (cases "sweep_lists (se_pending env) (se_history env) (se_channels env)")
  define live where "live = set (map (\<lambda>(_, f). f) cs) \<union> set (map (\<lambda>(_, _, f, _, _). f) inb)"
  obtain m1 d1 u1 where fold1: "fold (sweep_inbound env) inb (m |` live, drops, 0, 0, 0) = (m1, d1, u1)"
    by (metis prod_cases3)
  have fold2: "fold (sweep_candidate env) cs (m1, []) = (m', discards)"
    using assms(1) unfolding sweep_def lists Let_def prod.case live_def [symmetric] fold1 by (simp split: prod.splits)
  have m1: "m1 f = (m |` live) f"
    using inbound_leaves_others [of f inb env "m |` live" drops "(0, 0, 0)"] assms(2) lists fold1
    by (simp add: inbound_fundings_def)
  have in_cs: "f \<in> set (map (\<lambda>(_, f). f) cs)" if "f \<in> candidate_fundings env" using that lists by simp
  have result: "m' f \<in> clocks_after f env (m f) \<and> (\<forall>i. (i, f) \<in> set discards \<longrightarrow> dead_long f env (m f)) \<and>
      (\<not> quiet f env \<longrightarrow> m' f = None)" if "f \<in> candidate_fundings env"
    using candidates_pass [OF that fold2, of "m f"] m1 in_cs [OF that]
    by (auto simp: clocks_after_def restrict_map_def)
  have other: "m' f = None \<and> (i, f) \<notin> set discards" if "f \<notin> candidate_fundings env"
  proof -
    from that assms(2) lists have "f \<notin> live" by (simp add: live_def inbound_fundings_def)
    with that lists candidates_leave_others [of f cs env m1 "[]" m' discards i] fold2 m1 show ?thesis by simp
  qed
  show "m' f \<noteq> None \<Longrightarrow> quiet f env \<and> (m' f = m f \<or> unseen f env \<and> m' f = Some (se_now env))"
    using result other by (cases "f \<in> candidate_fundings env") (auto simp: clocks_after_def split: if_splits)
  show "(i, f) \<in> set discards \<Longrightarrow> dead_long f env (m f)"
    using result other by (cases "f \<in> candidate_fundings env") auto
qed

subsection \<open>Runs of sweeps\<close>

text \<open>A running clock was started at a sweep that found the funding unseen, and every sweep since found it quiet.\<close>

definition clock_justified :: "string \<Rightarrow> sweep_env list \<Rightarrow> nat \<Rightarrow> bool" where
  "clock_justified f envs t0 = (\<exists>before e0 since. envs = before @ e0 # since \<and> se_now e0 = t0 \<and> unseen f e0 \<and> list_all (quiet f) since)"

lemma clock_justified_snoc:
  "clock_justified f envs t0 \<Longrightarrow> quiet f env \<Longrightarrow> clock_justified f (envs @ [env]) t0"
  unfolding clock_justified_def
proof (elim exE conjE)
  fix before e0 since
  assume "envs = before @ e0 # since" "se_now e0 = t0" "unseen f e0" "list_all (quiet f) since" "quiet f env"
  thus "\<exists>before e0 since. envs @ [env] = before @ e0 # since \<and> se_now e0 = t0 \<and> unseen f e0 \<and> list_all (quiet f) since"
    by (intro exI [of _ before] exI [of _ e0] exI [of _ "since @ [env]"]) simp
qed

lemma clock_justified_now: "unseen f env \<Longrightarrow> clock_justified f (envs @ [env]) (se_now env)"
  unfolding clock_justified_def by (intro exI [of _ envs] exI [of _ env] exI [of _ "[]"]) simp

lemma run_clock_justified:
  "list_all (\<lambda>env. f \<notin> inbound_fundings env) envs \<Longrightarrow> fst (final_state sweep (Map.empty, []) envs) f = Some t0 \<Longrightarrow>
     clock_justified f envs t0"
proof (induction envs arbitrary: t0 rule: rev_induct)
  case (snoc env envs)
  obtain m drops where st: "final_state sweep (Map.empty, []) envs = (m, drops)"
    by (cases "final_state sweep (Map.empty, []) envs")
  obtain m' drops' ds u where sw: "sweep (m, drops) env = ((m', drops'), ds, u)" by (metis prod.exhaust)
  have m': "m' f = Some t0" using snoc.prems(2) st sw by simp
  have "f \<notin> inbound_fundings env" using snoc.prems(1) by simp
  from sweep_clock(1) [OF sw this] m'
  have "quiet f env" and "m f = Some t0 \<or> unseen f env \<and> t0 = se_now env" by auto
  with snoc.IH [of t0] snoc.prems(1) st show ?case
    by (auto intro: clock_justified_snoc clock_justified_now)
qed simp

section \<open>Properties\<close>


text \<open>An outbound channel nothing has seen, listed alone.\<close>

definition example_open :: live_channel where
  "example_open = \<lparr>lc_channel_id = [1], lc_counterparty = [2], lc_is_outbound = True, lc_is_channel_ready = False,
     lc_confirmations_required = Some 3, lc_confirmations = None, lc_funding_txo = Some (''aa'', 0),
     lc_inbound_htlcs = 0, lc_outbound_htlcs = 0, lc_claimable = Some [5000]\<rparr>"

definition example_sweep :: "nat \<Rightarrow> bool option \<Rightarrow> sweep_env" where
  "example_sweep now known = \<lparr>se_channels = [example_open], se_pending = {}, se_history = {}, se_now = now,
     se_provider = False, se_active_lsp = None, se_status = (\<lambda>_. None), se_tx_known = (\<lambda>_. known)\<rparr>"

lemma example_sweep_lists:
  "sweep_lists (se_pending (example_sweep t k)) (se_history (example_sweep t k)) (se_channels (example_sweep t k)) = ([], [([1], ''aa'')])"
  by (simp add: example_sweep_def example_open_def confs_or_zero_def)

text \<open>A clock for that channel, and what one sweep makes of it.\<close>

definition example_clock :: "nat option \<Rightarrow> dead_map" where
  "example_clock t0 f = (if f = ''aa'' then t0 else None)"

lemma example_clock_simps [simp]:
  "example_clock t0 |` {''aa''} = example_clock t0" "example_clock t0 ''aa'' = t0"
  "(example_clock t0)(''aa'' := t1) = example_clock t1"
  by (auto simp: restrict_map_def example_clock_def fun_eq_iff)

lemma example_clock_none: "Map.empty = example_clock None"
  by (simp add: example_clock_def fun_eq_iff)

lemma example_env [simp]:
  "se_tx_known (example_sweep now k) f = k" "se_now (example_sweep now k) = now"
  "f \<notin> se_pending (example_sweep now k)" "f \<notin> se_history (example_sweep now k)"
  by (simp_all add: example_sweep_def)

lemma example_sweep_turn:
  "sweep (example_clock t0, []) (example_sweep now k) =
     (let (m, ds) = sweep_candidate (example_sweep now k) ([1], ''aa'') (example_clock t0, []) in ((m, []), ds, 0, 0, 0))"
  using example_sweep_lists [of now k] by (simp add: sweep_def)

lemma example_candidate:
  "sweep_candidate (example_sweep now (Some False)) ([1], ''aa'') (example_clock None, []) = (example_clock (Some now), [])"
  "sweep_candidate (example_sweep now None) ([1], ''aa'') (example_clock t0, []) = (example_clock t0, [])"
  "7200000 \<le> now - t \<Longrightarrow> sweep_candidate (example_sweep now (Some False)) ([1], ''aa'') (example_clock (Some t), []) =
     (example_clock None, [([1], ''aa'')])"
  by (simp_all add: sweep_candidate_def verdict_of_def DEAD_FLOOR_MS_def start_clock_def)



end
