(* ===== verification/Pool_Base.thy ===== *)
theory Pool_Base
  imports LIJ_Prelude "HOL-Library.Product_Lexorder"
begin

text \<open>
  Ground of the coin pool (\<open>patches/joinstr-v2\<close> and \<open>lij-core/src/tatara\<close>): results of fallible code that may
  also abort, scripts, transactions, and sums of \<open>u64\<close> values. Bitcoin values are the bitcoin crate's, with
  their consensus encoding; SHA-256 is an argument of the definitions that use it.
\<close>

section \<open>Outcomes\<close>

text \<open>\<open>Abort\<close> is a panic (the release profile aborts on one) or a call that does not return. Error texts are the
  fixed part of the source's.\<close>

datatype 'a outcome = Ok 'a | Err string | Abort

fun and_then :: "'a outcome \<Rightarrow> ('a \<Rightarrow> 'b outcome) \<Rightarrow> 'b outcome" where
  "and_then (Ok x) f = f x"
| "and_then (Err e) f = Err e"
| "and_then Abort f = Abort"

definition ensure :: "bool \<Rightarrow> string \<Rightarrow> 'a outcome \<Rightarrow> 'a outcome" where
  "ensure b e k = (if b then k else Err e)"

definition some_or :: "string \<Rightarrow> 'a option \<Rightarrow> ('a \<Rightarrow> 'b outcome) \<Rightarrow> 'b outcome" where
  "some_or e m f = (case m of Some x \<Rightarrow> f x | None \<Rightarrow> Err e)"

definition some_or_abort :: "'a option \<Rightarrow> ('a \<Rightarrow> 'b outcome) \<Rightarrow> 'b outcome" where
  "some_or_abort m f = (case m of Some x \<Rightarrow> f x | None \<Rightarrow> Abort)"

text \<open>Indexing, and \<open>div_ceil\<close> of a \<open>u64\<close>, which panics on zero.\<close>

definition at :: "'a list \<Rightarrow> nat \<Rightarrow> ('a \<Rightarrow> 'b outcome) \<Rightarrow> 'b outcome" where
  "at xs i f = (if i < length xs then f (xs ! i) else Abort)"

definition div_ceil_or_abort :: "nat \<Rightarrow> nat \<Rightarrow> (nat \<Rightarrow> 'b outcome) \<Rightarrow> 'b outcome" where
  "div_ceil_or_abort a b f = (if b = 0 then Abort else f (div_ceil a b))"

fun collect_ok :: "('a \<Rightarrow> 'b outcome) \<Rightarrow> 'a list \<Rightarrow> 'b list outcome" where
  "collect_ok f [] = Ok []"
| "collect_ok f (x # xs) = and_then (f x) (\<lambda>y. and_then (collect_ok f xs) (\<lambda>ys. Ok (y # ys)))"

fun fold_ok :: "('a \<Rightarrow> 's \<Rightarrow> 's outcome) \<Rightarrow> 'a list \<Rightarrow> 's \<Rightarrow> 's outcome" where
  "fold_ok f [] s = Ok s"
| "fold_ok f (x # xs) s = and_then (f x s) (fold_ok f xs)"

lemma and_then_Ok: "and_then m f = Ok y \<longleftrightarrow> (\<exists>x. m = Ok x \<and> f x = Ok y)"
  by (cases m) auto

lemma ensure_Ok [simp]: "ensure b e k = Ok x \<longleftrightarrow> b \<and> k = Ok x"
  by (simp add: ensure_def)

lemma some_or_Ok: "some_or e m f = Ok y \<longleftrightarrow> (\<exists>x. m = Some x \<and> f x = Ok y)"
  by (cases m) (auto simp: some_or_def)

lemma some_or_abort_Ok: "some_or_abort m f = Ok y \<longleftrightarrow> (\<exists>x. m = Some x \<and> f x = Ok y)"
  by (cases m) (auto simp: some_or_abort_def)

lemma at_Ok: "at xs i f = Ok y \<longleftrightarrow> i < length xs \<and> f (xs ! i) = Ok y"
  by (simp add: at_def)

lemma div_ceil_or_abort_Ok: "div_ceil_or_abort a b f = Ok y \<longleftrightarrow> b \<noteq> 0 \<and> f (div_ceil a b) = Ok y"
  by (simp add: div_ceil_or_abort_def)

lemmas outcome_Ok = and_then_Ok ensure_Ok some_or_Ok some_or_abort_Ok at_Ok div_ceil_or_abort_Ok

lemma ensure_True [simp]: "ensure True e k = k"
  by (simp add: ensure_def)

lemma some_or_Some [simp]: "some_or e (Some x) f = f x"
  by (simp add: some_or_def)

lemma some_or_abort_Some [simp]: "some_or_abort (Some x) f = f x"
  by (simp add: some_or_abort_def)

lemma at_less [simp]: "i < length xs \<Longrightarrow> at xs i f = f (xs ! i)"
  by (simp add: at_def)

lemma div_ceil_or_abort_pos [simp]: "0 < b \<Longrightarrow> div_ceil_or_abort a b f = f (div_ceil a b)"
  by (simp add: div_ceil_or_abort_def)

lemma collect_ok_map: "(\<And>x. x \<in> set xs \<Longrightarrow> f x = Ok (g x)) \<Longrightarrow> collect_ok f xs = Ok (map g xs)"
  by (induction xs) auto

lemma collect_ok_all: "(\<And>x. x \<in> set xs \<Longrightarrow> \<exists>y. f x = Ok y \<and> P y) \<Longrightarrow> \<exists>ys. collect_ok f xs = Ok ys \<and> list_all P ys"
proof (induction xs)
  case (Cons x xs)
  from Cons.prems obtain y where "f x = Ok y" "P y" by auto
  moreover from Cons obtain ys where "collect_ok f xs = Ok ys" "list_all P ys" by auto
  ultimately show ?case by simp
qed simp

lemma collect_ok_Ok: "collect_ok f xs = Ok ys \<longleftrightarrow> list_all2 (\<lambda>x y. f x = Ok y) xs ys"
  by (induction xs arbitrary: ys) (auto simp: and_then_Ok list_all2_Cons1)

lemma fold_ok_append: "fold_ok f (xs @ ys) s = and_then (fold_ok f xs s) (fold_ok f ys)"
proof (induction xs arbitrary: s)
  case (Cons x xs)
  thus ?case by (cases "f x s") auto
qed simp

text \<open>An invariant of a loop that every turn keeps and that lets every turn succeed.\<close>

lemma fold_ok_inv:
  assumes "\<And>i s. i < length xs \<Longrightarrow> P i s \<Longrightarrow> \<exists>s'. f (xs ! i) s = Ok s' \<and> P (Suc i) s'" and "P 0 s"
  shows "\<exists>s'. fold_ok f xs s = Ok s' \<and> P (length xs) s'"
  using assms
proof (induction xs arbitrary: s P)
  case (Cons x xs)
  from Cons.prems(1) [of 0] Cons.prems(2) obtain s1 where s1: "f x s = Ok s1" "P (Suc 0) s1" by auto
  have "\<exists>s'. fold_ok f xs s1 = Ok s' \<and> P (Suc (length xs)) s'"
    by (rule Cons.IH [of "\<lambda>i. P (Suc i)"]) (use Cons.prems(1) [of "Suc _"] s1 in auto)
  with s1 show ?case by simp
qed simp

lemma fold_ok_keeps:
  assumes "fold_ok f xs s = Ok s'" and "P 0 s"
    and "\<And>i s s'. i < length xs \<Longrightarrow> P i s \<Longrightarrow> f (xs ! i) s = Ok s' \<Longrightarrow> P (Suc i) s'"
  shows "P (length xs) s'"
  using assms
proof (induction xs arbitrary: s P)
  case (Cons x xs)
  from Cons.prems(1) obtain s1 where s1: "f x s = Ok s1" "fold_ok f xs s1 = Ok s'" by (auto simp: and_then_Ok)
  have "P (Suc 0) s1" using Cons.prems(3) [of 0] Cons.prems(2) s1 by simp
  hence "P (Suc (length xs)) s'"
    by (intro Cons.IH [of s1 "\<lambda>i. P (Suc i)"]) (use s1 Cons.prems(3) [of "Suc _"] in auto)
  thus ?case by simp
qed simp

section \<open>Sums of u64 values\<close>

text \<open>\<open>Iterator::sum\<close> wraps, like the plain operators.\<close>

definition wrap_sum64 :: "nat list \<Rightarrow> nat" where
  "wrap_sum64 xs = foldl wrap_add64 0 xs"

lemma foldl_wrap_add64: "a + sum_list xs \<le> u64_max \<Longrightarrow> foldl wrap_add64 a xs = a + sum_list xs"
  by (induction xs arbitrary: a) (auto simp: wrap_add64_exact)

lemma wrap_sum64_exact: "sum_list xs \<le> u64_max \<Longrightarrow> wrap_sum64 xs = sum_list xs"
  using foldl_wrap_add64 [of 0 xs] by (simp add: wrap_sum64_def)

lemma div_ceil_le: "0 < b \<Longrightarrow> div_ceil a b \<le> a"
  by (cases a) (simp_all add: div_ceil_def div_add_self2)

lemma div_ceil_mono: "a \<le> a' \<Longrightarrow> div_ceil a b \<le> div_ceil a' b"
  by (simp add: div_ceil_def div_le_mono)

section \<open>Scripts and transactions\<close>

definition is_p2wpkh :: "script_buf \<Rightarrow> bool" where
  "is_p2wpkh s = (length s = 22 \<and> s ! 0 = 0 \<and> s ! 1 = 0x14)"

definition is_p2tr :: "script_buf \<Rightarrow> bool" where
  "is_p2tr s = (length s = 34 \<and> s ! 0 = 0x51 \<and> s ! 1 = 0x20)"

definition is_p2wsh :: "script_buf \<Rightarrow> bool" where
  "is_p2wsh s = (length s = 34 \<and> s ! 0 = 0 \<and> s ! 1 = 0x20)"

text \<open>The weight of an output: four times its value, the compact length of its script and the script.\<close>

definition compact_size_len :: "nat \<Rightarrow> nat" where
  "compact_size_len n = (if n < 253 then 1 else if n < 65536 then 3 else if n < 4294967296 then 5 else 9)"

definition txout_weight :: "script_buf \<Rightarrow> nat" where
  "txout_weight s = 4 * (8 + compact_size_len (length s) + length s)"

record txout =
  to_value :: nat
  to_script :: script_buf

type_synonym outpoint = "txid \<times> u32"

record txin =
  previous_output :: outpoint
  script_sig :: script_buf
  ti_sequence :: u32
  ti_witness :: "bytes list"

record transaction =
  tx_version :: nat
  tx_lock_time :: u32
  tx_input :: "txin list"
  tx_output :: "txout list"

text \<open>A lock time counts blocks only below 500 million.\<close>

definition lock_time_from_height :: "u32 \<Rightarrow> u32 option" where
  "lock_time_from_height h = (if h < 500000000 then Some h else None)"

text \<open>\<open>Iterator::position\<close>.\<close>

fun position :: "('a \<Rightarrow> bool) \<Rightarrow> 'a list \<Rightarrow> nat option" where
  "position p [] = None"
| "position p (x # xs) = (if p x then Some 0 else map_option Suc (position p xs))"

lemma position_Some: "position p xs = Some i \<Longrightarrow> i < length xs \<and> p (xs ! i)"
  by (induction xs arbitrary: i) (auto split: if_splits)

lemma position_exists: "x \<in> set xs \<Longrightarrow> p x \<Longrightarrow> \<exists>i. position p xs = Some i"
  by (induction xs) auto

definition str_bytes :: "string \<Rightarrow> bytes" where
  "str_bytes s = map of_char s"

definition u32_le_bytes :: "nat \<Rightarrow> bytes" where
  "u32_le_bytes n = map (\<lambda>i. of_nat (n div 256 ^ i mod 256)) [0..<4]"

definition u64_le_bytes :: "nat \<Rightarrow> bytes" where
  "u64_le_bytes n = map (\<lambda>i. of_nat (n div 256 ^ i mod 256)) [0..<8]"

text \<open>The bytes of a hash; as 32-byte arrays hashes are compared like the numbers they spell.\<close>

definition hash_bytes :: "hash256 \<Rightarrow> bytes" where
  "hash_bytes h = map (\<lambda>i. of_nat (unat h div 256 ^ (31 - i) mod 256)) [0..<32]"

section \<open>Consensus encoding and hashes\<close>

definition var_int :: "nat \<Rightarrow> bytes" where
  "var_int n =
     (if n \<le> 0xFC then [of_nat n]
      else if n \<le> 0xFFFF then 0xFD # map (\<lambda>i. of_nat (n div 256 ^ i mod 256)) [0..<2]
      else if n \<le> 0xFFFFFFFF then 0xFE # u32_le_bytes n
      else 0xFF # u64_le_bytes n)"

definition ser_script :: "script_buf \<Rightarrow> bytes" where
  "ser_script s = var_int (length s) @ s"

definition ser_outpoint :: "outpoint \<Rightarrow> bytes" where
  "ser_outpoint op = hash_bytes (fst op) @ u32_le_bytes (unat (snd op))"

definition ser_txout :: "txout \<Rightarrow> bytes" where
  "ser_txout out = u64_le_bytes (to_value out) @ ser_script (to_script out)"

definition ser_txin :: "txin \<Rightarrow> bytes" where
  "ser_txin i = ser_outpoint (previous_output i) @ ser_script (script_sig i) @ u32_le_bytes (unat (ti_sequence i))"

definition ser_vec :: "('a \<Rightarrow> bytes) \<Rightarrow> 'a list \<Rightarrow> bytes" where
  "ser_vec f xs = var_int (length xs) @ concat (map f xs)"

text \<open>SHA-256 is the only hash; it is an argument. A transaction id leaves the witnesses out.\<close>

type_synonym sha256 = "bytes \<Rightarrow> hash256"

definition compute_txid :: "sha256 \<Rightarrow> transaction \<Rightarrow> txid" where
  "compute_txid sha tx =
     sha (hash_bytes (sha (u32_le_bytes (tx_version tx) @ ser_vec ser_txin (tx_input tx) @ ser_vec ser_txout (tx_output tx) @
       u32_le_bytes (unat (tx_lock_time tx)))))"

definition tagged_hash :: "sha256 \<Rightarrow> string \<Rightarrow> bytes list \<Rightarrow> hash256" where
  "tagged_hash sha tag parts =
     (let t = hash_bytes (sha (str_bytes tag)) in sha (t @ t @ concat parts))"

end
