(* ===== verification/Pool_Plan.thy ===== *)
theory Pool_Plan
  imports Pool_Base
begin

text \<open>
  The plan of a coin pool (\<open>patches/joinstr-v2/src/pool.rs\<close>): the pool's parameters and their validation, the fee
  rules, and the amounts of the pre-signed exits of a chain, of every order of leaving and of a binary tree.
  \<open>u64\<close> arithmetic wraps as in the release profile; \<open>usize\<close> counts are natural numbers, of which the sum over the
  classes, taken before anything is validated, wraps at the 32 bits of the wasm target. A call that panics or does not
  return is \<open>Abort\<close>.
\<close>

section \<open>Constants\<close>

definition SHARED_WEIGHT :: nat where "SHARED_WEIGHT = 214"
definition TX_OVERHEAD_WEIGHT :: nat where "TX_OVERHEAD_WEIGHT = 42"
definition KEY_PATH_INPUT_WEIGHT :: nat where "KEY_PATH_INPUT_WEIGHT = 230"
definition P2TR_OUTPUT_WEIGHT :: nat where "P2TR_OUTPUT_WEIGHT = 172"
definition P2A_OUTPUT_WEIGHT :: nat where "P2A_OUTPUT_WEIGHT = 52"
definition MAX_PEERS :: nat where "MAX_PEERS = 100"
definition MAX_GROUP :: nat where "MAX_GROUP = 250"
definition ANCHOR_VALUE :: nat where "ANCHOR_VALUE = 240"
definition MAX_ANY_ORDER :: nat where "MAX_ANY_ORDER = 7"
definition MAX_MONEY_SAT :: nat where "MAX_MONEY_SAT = 2100000000000000"
definition MAX_FEE_RATE_MILLI :: nat where "MAX_FEE_RATE_MILLI = 1000000"
definition MAX_INPUTS_PER_PEER :: nat where "MAX_INPUTS_PER_PEER = 100"

lemmas pool_consts = SHARED_WEIGHT_def TX_OVERHEAD_WEIGHT_def KEY_PATH_INPUT_WEIGHT_def P2TR_OUTPUT_WEIGHT_def
  P2A_OUTPUT_WEIGHT_def MAX_PEERS_def MAX_GROUP_def ANCHOR_VALUE_def MAX_ANY_ORDER_def MAX_MONEY_SAT_def
  MAX_FEE_RATE_MILLI_def MAX_INPUTS_PER_PEER_def

section \<open>Parameters\<close>

datatype fee_split = Equal | ByExit
datatype payout_type = P2tr | P2wsh
datatype pool_structure = Chain | AnyOrder | Tree

record pool_class =
  cls_amount :: nat
  cls_peers :: nat

record params =
  p_id :: string
  p_peers :: nat
  p_classes :: "pool_class list"
  p_fee_rate_milli :: nat
  p_exits :: "nat list"
  p_exit_rates_milli :: "nat \<times> nat"
  p_fee_split :: fee_split
  p_anchor :: bool
  p_structure :: pool_structure
  p_payout_type :: payout_type

definition pool_fee :: "nat \<Rightarrow> nat \<Rightarrow> nat" where
  "pool_fee weight rate_milli = div_ceil (wrap_mul64 weight rate_milli) 4000"

definition pool_input_weight :: "script_buf \<Rightarrow> nat outcome" where
  "pool_input_weight spk =
     (if is_p2wpkh spk then Ok 272 else if is_p2tr spk then Ok 230
      else Err ''only P2WPKH and P2TR inputs are allowed'')"

definition default_exits :: "nat \<Rightarrow> nat list" where
  "default_exits peers = replicate (peers - 2) 1 @ [min peers 2]"

record exit_cost =
  ec_payouts :: nat
  ec_weight :: nat
  ec_rate_milli :: nat
  ec_fee :: nat

record exit_amounts =
  ea_payouts :: "nat list"
  ea_weight :: nat
  ea_rate_milli :: nat
  ea_fee :: nat
  ea_pool :: "nat option"

record amounts =
  am_pools :: "nat list"
  am_exits :: "exit_amounts list"

datatype plan_out = Payout (plan_position: nat) (plan_value: nat) | Pool (plan_index: nat) (plan_value: nat)

record exit_plan =
  ep_from :: nat
  ep_outs :: "plan_out list"
  ep_fee :: nat
  ep_weight :: nat
  ep_rate_milli :: nat
  ep_depth :: nat

record exit_set =
  es_plans :: "exit_plan list"
  es_pools :: "nat list"

datatype tree_child = PayoutChild nat | NodeChild nat

record tree_node =
  tn_lo :: nat
  tn_hi :: nat
  tn_depth :: nat
  tn_children :: "tree_child list"

section \<open>The shapes of the exits\<close>

text \<open>The breadth-first split of the payouts. The queue grows for ever when it holds a range of fewer than two
  payouts.\<close>

definition tree_child_of ::
  "nat \<Rightarrow> nat \<Rightarrow> nat \<Rightarrow> (nat \<times> nat \<times> nat) list \<Rightarrow> nat \<Rightarrow> tree_child \<times> (nat \<times> nat \<times> nat) list \<times> nat" where
  "tree_child_of depth a b queue nxt =
     (if b - a = 1 then (PayoutChild a, queue, nxt) else (NodeChild nxt, queue @ [(a, b, depth + 1)], nxt + 1))"

partial_function (option) tree_loop :: "(nat \<times> nat \<times> nat) list \<Rightarrow> nat \<Rightarrow> tree_node list \<Rightarrow> tree_node list option" where
  [code]: "tree_loop queue nxt nodes =
     (case queue of
        [] \<Rightarrow> Some nodes
      | (lo, hi, depth) # queue \<Rightarrow>
          let mid = lo + div_ceil (hi - lo) 2;
              (c1, queue, nxt) = tree_child_of depth lo mid queue nxt;
              (c2, queue, nxt) = tree_child_of depth mid hi queue nxt
          in tree_loop queue nxt (nodes @ [\<lparr>tn_lo = lo, tn_hi = hi, tn_depth = depth, tn_children = [c1, c2]\<rparr>]))"

definition tree_nodes :: "nat \<Rightarrow> tree_node list option" where
  "tree_nodes peers = tree_loop [(0, peers, 0)] 1 []"

definition any_order_level :: "nat \<Rightarrow> nat list list \<Rightarrow> nat list list" where
  "any_order_level peers level =
     concat (map (\<lambda>path. map (\<lambda>p. path @ [p]) (filter (\<lambda>p. p \<notin> set path) [0..<peers])) level)"

fun any_order_levels :: "nat \<Rightarrow> nat \<Rightarrow> nat list list \<Rightarrow> nat list list" where
  "any_order_levels peers 0 level = []"
| "any_order_levels peers (Suc k) level =
     (let nxt = any_order_level peers level in nxt @ any_order_levels peers k nxt)"

definition any_order_states :: "nat \<Rightarrow> nat list list" where
  "any_order_states peers = [[]] @ any_order_levels peers (peers - 2) [[]]"

section \<open>Costs\<close>

definition with_classes :: "string \<Rightarrow> pool_class list \<Rightarrow> nat \<Rightarrow> params" where
  "with_classes i classes fee_rate_milli =
     (let peers = sum_list (map cls_peers classes) mod 2 ^ 32
      in \<lparr>p_id = i, p_peers = peers, p_classes = classes, p_fee_rate_milli = fee_rate_milli,
          p_exits = default_exits peers, p_exit_rates_milli = (fee_rate_milli, fee_rate_milli),
          p_fee_split = Equal, p_anchor = False, p_structure = Chain, p_payout_type = P2tr\<rparr>)"

definition new_params :: "string \<Rightarrow> nat \<Rightarrow> nat \<Rightarrow> nat \<Rightarrow> params" where
  "new_params i denomination peers fee_rate_milli =
     with_classes i [\<lparr>cls_amount = denomination, cls_peers = peers\<rparr>] fee_rate_milli"

definition class_of :: "params \<Rightarrow> nat \<Rightarrow> pool_class option" where
  "class_of p amount = List.find (\<lambda>c. cls_amount c = amount) (p_classes p)"

definition anchor_value :: "params \<Rightarrow> nat" where
  "anchor_value p = (if p_anchor p then ANCHOR_VALUE else 0)"

definition exit_rate :: "params \<Rightarrow> nat \<Rightarrow> nat" where
  "exit_rate p j =
     (let m = length (p_exits p); (first, last) = p_exit_rates_milli p
      in if m = 1 then first
         else wrap_add64 (wrap_mul64 first (m - 1 - j)) (wrap_mul64 last j) div (m - 1))"

definition exit_cost_of :: "params \<Rightarrow> nat \<Rightarrow> nat \<Rightarrow> exit_cost" where
  "exit_cost_of p j g =
     (let outputs = g + (if j + 1 < length (p_exits p) then 1 else 0);
          weight = TX_OVERHEAD_WEIGHT + KEY_PATH_INPUT_WEIGHT + P2TR_OUTPUT_WEIGHT * outputs +
                   (if p_anchor p then P2A_OUTPUT_WEIGHT else 0);
          rate_milli = exit_rate p j
      in \<lparr>ec_payouts = g, ec_weight = weight, ec_rate_milli = rate_milli, ec_fee = pool_fee weight rate_milli\<rparr>)"

definition exit_costs :: "params \<Rightarrow> exit_cost list" where
  "exit_costs p = map (\<lambda>(j, g). exit_cost_of p j g) (enumerate 0 (p_exits p))"

definition tree_cost :: "params \<Rightarrow> tree_node list \<Rightarrow> tree_node \<Rightarrow> exit_cost" where
  "tree_cost p nodes node =
     (let deepest = Max (set (0 # map tn_depth nodes)); (first, last) = p_exit_rates_milli p; d = tn_depth node;
          rate_milli = (if deepest = 0 then first
                        else wrap_add64 (wrap_mul64 first (deepest - d)) (wrap_mul64 last d) div deepest);
          weight = TX_OVERHEAD_WEIGHT + KEY_PATH_INPUT_WEIGHT + P2TR_OUTPUT_WEIGHT * 2 +
                   (if p_anchor p then P2A_OUTPUT_WEIGHT else 0)
      in \<lparr>ec_payouts = length (filter (\<lambda>c. case c of PayoutChild _ \<Rightarrow> True | _ \<Rightarrow> False) (tn_children node)),
          ec_weight = weight, ec_rate_milli = rate_milli, ec_fee = pool_fee weight rate_milli\<rparr>)"

definition exit_share :: "params \<Rightarrow> nat outcome" where
  "exit_share p =
     (case p_fee_split p of
        ByExit \<Rightarrow> Ok 0
      | Equal \<Rightarrow>
          (case p_structure p of
             Tree \<Rightarrow>
               some_or_abort (tree_nodes (p_peers p)) (\<lambda>nodes.
                 div_ceil_or_abort (wrap_sum64 (map (\<lambda>t. wrap_add64 (ec_fee (tree_cost p nodes t)) (anchor_value p)) nodes))
                   (p_peers p) Ok)
           | _ \<Rightarrow>
               div_ceil_or_abort (wrap_sum64 (map (\<lambda>e. wrap_add64 (ec_fee e) (anchor_value p)) (exit_costs p)))
                 (p_peers p) Ok))"

section \<open>Validation\<close>

definition worst_cut :: "params \<Rightarrow> nat" where
  "worst_cut p =
     (case p_fee_split p of
        Equal \<Rightarrow> 0
      | ByExit \<Rightarrow> Max (set (0 # map (\<lambda>e. div_ceil (wrap_add64 (ec_fee e) (anchor_value p)) (ec_payouts e)) (exit_costs p))))"

definition validate :: "params \<Rightarrow> unit outcome" where
  "validate p =
     ensure (2 \<le> p_peers p \<and> p_peers p \<le> MAX_PEERS) ''peers must be from 2 to 100'' (
     ensure (p_classes p \<noteq> []) ''no denomination'' (
     ensure (length (p_classes p) \<le> MAX_PEERS) ''too many denominations'' (
     ensure (list_all (\<lambda>c. 1 \<le> cls_peers c \<and> cls_peers c \<le> MAX_PEERS \<and> 1 \<le> cls_amount c \<and> cls_amount c \<le> MAX_MONEY_SAT)
               (p_classes p)) ''a denomination is out of range'' (
     ensure (p_fee_rate_milli p \<le> MAX_FEE_RATE_MILLI \<and> fst (p_exit_rates_milli p) \<le> MAX_FEE_RATE_MILLI \<and>
             snd (p_exit_rates_milli p) \<le> MAX_FEE_RATE_MILLI) ''fee rate above'' (
     ensure (length (p_exits p) \<le> MAX_PEERS) ''too many exits'' (
     ensure (sum_list (map cls_peers (p_classes p)) = p_peers p) ''the denominations must add up to the number of peers'' (
     ensure (card (set (map cls_amount (p_classes p))) = length (p_classes p)) ''denominations must be different'' (
     ensure (1 < length (p_classes p) \<longrightarrow> list_all (\<lambda>c. 2 \<le> cls_peers c) (p_classes p))
       ''every denomination needs at least 2 peers'' (
     ensure (0 < p_fee_rate_milli p) ''fee rate must be positive'' (
     ensure (0 < fst (p_exit_rates_milli p) \<and> 0 < snd (p_exit_rates_milli p)) ''exit fee rates must be positive'' (
     ensure (p_exits p \<noteq> []) ''no exits'' (
     ensure (list_all (\<lambda>g. 1 \<le> g \<and> g \<le> MAX_GROUP) (p_exits p)) ''every exit pays 1 to 250 peers'' (
     ensure (sum_list (p_exits p) = p_peers p) ''the exits must pay every peer once'' (
     ensure (p_structure p = AnyOrder \<longrightarrow> 3 \<le> p_peers p \<and> p_peers p \<le> MAX_ANY_ORDER)
       ''a pool with exits in any order has 3 to 7 peers'' (
     ensure (p_structure p = AnyOrder \<longrightarrow> p_exits p = default_exits (p_peers p))
       ''a pool with exits in any order pays one peer per exit'' (
     ensure (p_structure p = Tree \<longrightarrow> p_exits p = default_exits (p_peers p)) ''a tree has no exit groups'' (
     ensure (p_structure p = Tree \<longrightarrow> p_fee_split p = Equal) ''in a tree every peer shares the fees'' (
     ensure (330 + worst_cut p \<le> Min (set (map cls_amount (p_classes p)))) ''payouts would be below dust'' (
     Ok ())))))))))))))))))))"

section \<open>Amounts of a chain\<close>

text \<open>One turn of the loop: exit \<open>j\<close> of \<open>m\<close> pays the next payouts out of the pool value \<open>before\<close>.\<close>

definition exit_turn :: "params \<Rightarrow> nat \<Rightarrow> nat \<Rightarrow> exit_cost \<Rightarrow> nat list \<Rightarrow> nat \<Rightarrow> exit_amounts outcome" where
  "exit_turn p m j c grp before =
     div_ceil_or_abort (wrap_add64 (ec_fee c) (anchor_value p)) (ec_payouts c) (\<lambda>per_payout.
       let payouts = map (\<lambda>a. case p_fee_split p of Equal \<Rightarrow> a | ByExit \<Rightarrow> a - per_payout) grp;
           paid = wrap_add64 (wrap_sum64 payouts) (anchor_value p);
           (fee, pool) = (if j + 1 < m then (ec_fee c, Some (before - wrap_add64 paid (ec_fee c)))
                          else (before - paid, None))
       in Ok \<lparr>ea_payouts = payouts, ea_weight = ec_weight c, ea_rate_milli = ec_rate_milli c, ea_fee = fee,
              ea_pool = pool\<rparr>)"

fun amounts_loop ::
  "params \<Rightarrow> nat \<Rightarrow> nat \<Rightarrow> exit_cost list \<Rightarrow> nat list \<Rightarrow> nat \<Rightarrow> (nat list \<times> exit_amounts list) outcome" where
  "amounts_loop p m j [] rest before = Ok ([], [])"
| "amounts_loop p m j (c # costs) rest before =
     and_then (exit_turn p m j c (take (ec_payouts c) rest) before) (\<lambda>e.
     and_then (amounts_loop p m (j + 1) costs (drop (ec_payouts c) rest)
                 (case ea_pool e of Some after \<Rightarrow> after | None \<Rightarrow> before)) (\<lambda>(pools, exits).
       Ok ((case ea_pool e of Some after \<Rightarrow> after # pools | None \<Rightarrow> pools), e # exits)))"

definition amounts_of :: "params \<Rightarrow> nat list \<Rightarrow> amounts outcome" where
  "amounts_of p ordered =
     and_then (exit_share p) (\<lambda>share.
       let costs = exit_costs p; pool0 = wrap_sum64 (map (\<lambda>a. wrap_add64 a share) ordered)
       in and_then (amounts_loop p (length costs) 0 costs ordered pool0) (\<lambda>(pools, exits).
            Ok \<lparr>am_pools = pool0 # pools, am_exits = exits\<rparr>))"

section \<open>Plans\<close>

fun chain_plans :: "nat \<Rightarrow> nat \<Rightarrow> exit_amounts list \<Rightarrow> exit_plan list" where
  "chain_plans j first [] = []"
| "chain_plans j first (e # es) =
     \<lparr>ep_from = j,
      ep_outs = map (\<lambda>(i, v). Payout (first + i) v) (enumerate 0 (ea_payouts e)) @
                (case ea_pool e of Some v \<Rightarrow> [Pool (j + 1) v] | None \<Rightarrow> []),
      ep_fee = ea_fee e, ep_weight = ea_weight e, ep_rate_milli = ea_rate_milli e, ep_depth = j\<rparr> #
     chain_plans (j + 1) (first + length (ea_payouts e)) es"

definition chain_set :: "params \<Rightarrow> nat list \<Rightarrow> exit_set outcome" where
  "chain_set p ordered =
     and_then (amounts_of p ordered) (\<lambda>am. Ok \<lparr>es_plans = chain_plans 0 0 (am_exits am), es_pools = am_pools am\<rparr>)"

definition any_order_leave ::
  "params \<Rightarrow> nat list \<Rightarrow> nat list list \<Rightarrow> exit_cost \<Rightarrow> nat \<Rightarrow> nat list \<Rightarrow> nat \<Rightarrow>
     nat list \<times> exit_plan list \<Rightarrow> (nat list \<times> exit_plan list) outcome" where
  "any_order_leave p ordered states c si path i acc =
     (let (pools, plans) = acc; anchor = anchor_value p
      in at ordered i (\<lambda>a.
         let v = (case p_fee_split p of Equal \<Rightarrow> a | ByExit \<Rightarrow> a - wrap_add64 (ec_fee c) anchor)
         in some_or_abort (position (\<lambda>s. s = path @ [i]) states) (\<lambda>t.
            at pools si (\<lambda>here.
            at pools t (\<lambda>_.
              let after = here - wrap_add64 (wrap_add64 v anchor) (ec_fee c)
              in Ok (pools[t := after],
                     plans @ [\<lparr>ep_from = si, ep_outs = [Payout i v, Pool t after], ep_fee = ec_fee c,
                               ep_weight = ec_weight c, ep_rate_milli = ec_rate_milli c, ep_depth = length path\<rparr>]))))))"

definition any_order_last ::
  "params \<Rightarrow> nat list \<Rightarrow> exit_cost \<Rightarrow> nat \<Rightarrow> nat list \<Rightarrow> nat list \<Rightarrow>
     nat list \<times> exit_plan list \<Rightarrow> (nat list \<times> exit_plan list) outcome" where
  "any_order_last p ordered c si path left acc =
     (let (pools, plans) = acc; anchor = anchor_value p; per_payout = div_ceil (wrap_add64 (ec_fee c) anchor) 2
      in and_then (collect_ok (\<lambda>i. at ordered i (\<lambda>a.
             Ok (Payout i (case p_fee_split p of Equal \<Rightarrow> a | ByExit \<Rightarrow> a - per_payout)))) left) (\<lambda>outs.
         at pools si (\<lambda>here.
           Ok (pools, plans @ [\<lparr>ep_from = si, ep_outs = outs,
                                ep_fee = here - wrap_add64 (wrap_sum64 (map plan_value outs)) anchor,
                                ep_weight = ec_weight c, ep_rate_milli = ec_rate_milli c, ep_depth = length path\<rparr>]))))"

definition any_order_state ::
  "params \<Rightarrow> nat list \<Rightarrow> nat list list \<Rightarrow> nat \<times> nat list \<Rightarrow>
     nat list \<times> exit_plan list \<Rightarrow> (nat list \<times> exit_plan list) outcome" where
  "any_order_state p ordered states state acc =
     (let (si, path) = state; left = filter (\<lambda>i. i \<notin> set path) [0..<p_peers p]
      in at (exit_costs p) (length path) (\<lambda>c.
           if 3 \<le> length left then fold_ok (any_order_leave p ordered states c si path) left acc
           else any_order_last p ordered c si path left acc))"

definition any_order_set :: "params \<Rightarrow> nat list \<Rightarrow> exit_set outcome" where
  "any_order_set p ordered =
     and_then (exit_share p) (\<lambda>share.
       let states = any_order_states (p_peers p);
           pools = replicate (length states) 0;
           pools = pools[0 := wrap_add64 (wrap_sum64 ordered) (wrap_mul64 (p_peers p) share)]
       in and_then (fold_ok (any_order_state p ordered states) (enumerate 0 states) (pools, [])) (\<lambda>(pools, plans).
            Ok \<lparr>es_plans = plans, es_pools = pools\<rparr>))"

fun tree_child_value :: "nat list \<Rightarrow> nat list \<Rightarrow> tree_child \<Rightarrow> nat outcome" where
  "tree_child_value ordered pools (PayoutChild i) = at ordered i Ok"
| "tree_child_value ordered pools (NodeChild j) = at pools j Ok"

definition tree_pool ::
  "params \<Rightarrow> tree_node list \<Rightarrow> nat list \<Rightarrow> nat \<times> tree_node \<Rightarrow> nat list \<Rightarrow> nat list outcome" where
  "tree_pool p nodes ordered node pools =
     (let (i, t) = node
      in and_then (collect_ok (tree_child_value ordered pools) (tn_children t)) (\<lambda>vs.
           Ok (pools[i := foldl wrap_add64 (wrap_add64 (ec_fee (tree_cost p nodes t)) (anchor_value p)) vs])))"

fun tree_out :: "nat list \<Rightarrow> nat list \<Rightarrow> tree_child \<Rightarrow> plan_out outcome" where
  "tree_out ordered pools (PayoutChild i) = at ordered i (\<lambda>v. Ok (Payout i v))"
| "tree_out ordered pools (NodeChild j) = at pools j (\<lambda>v. Ok (Pool j v))"

definition tree_plan :: "params \<Rightarrow> tree_node list \<Rightarrow> nat list \<Rightarrow> nat list \<Rightarrow> nat \<times> tree_node \<Rightarrow> exit_plan outcome" where
  "tree_plan p nodes ordered pools node =
     (let (i, t) = node; c = tree_cost p nodes t
      in and_then (collect_ok (tree_out ordered pools) (tn_children t)) (\<lambda>outs.
         at pools i (\<lambda>here.
           Ok \<lparr>ep_from = i, ep_outs = outs, ep_fee = here - wrap_add64 (wrap_sum64 (map plan_value outs)) (anchor_value p),
               ep_weight = ec_weight c, ep_rate_milli = ec_rate_milli c, ep_depth = tn_depth t\<rparr>)))"

definition tree_set :: "params \<Rightarrow> nat list \<Rightarrow> exit_set outcome" where
  "tree_set p ordered =
     some_or_abort (tree_nodes (p_peers p)) (\<lambda>nodes.
     and_then (fold_ok (tree_pool p nodes ordered) (rev (enumerate 0 nodes)) (replicate (length nodes) 0)) (\<lambda>pools.
     and_then (exit_share p) (\<lambda>share.
       let pools = pools[0 := wrap_add64 (wrap_sum64 ordered) (wrap_mul64 (p_peers p) share)]
       in and_then (collect_ok (tree_plan p nodes ordered pools) (enumerate 0 nodes)) (\<lambda>plans.
            Ok \<lparr>es_plans = plans, es_pools = pools\<rparr>))))"

definition exit_set_of :: "params \<Rightarrow> nat list \<Rightarrow> exit_set outcome" where
  "exit_set_of p ordered =
     (case p_structure p of
        Chain \<Rightarrow> chain_set p ordered | AnyOrder \<Rightarrow> any_order_set p ordered | Tree \<Rightarrow> tree_set p ordered)"

section \<open>What a validated pool gives\<close>

lemma validate_facts:
  assumes "validate p = Ok ()"
  shows "2 \<le> p_peers p" "p_peers p \<le> 100" "p_exits p \<noteq> []" "length (p_exits p) \<le> 100" "sum_list (p_exits p) = p_peers p"
    "list_all (\<lambda>g. 1 \<le> g \<and> g \<le> 250) (p_exits p)" "p_fee_rate_milli p \<le> 1000000" "0 < p_fee_rate_milli p"
    "fst (p_exit_rates_milli p) \<le> 1000000" "snd (p_exit_rates_milli p) \<le> 1000000"
    "\<And>c. c \<in> set (p_classes p) \<Longrightarrow> 330 + worst_cut p \<le> cls_amount c \<and> cls_amount c \<le> 2100000000000000"
  using assms by (auto simp: validate_def list_all_iff pool_consts)

text \<open>The payouts a validated pool is asked for: one per peer, each of one of its classes.\<close>

definition payouts_fit :: "params \<Rightarrow> nat list \<Rightarrow> bool" where
  "payouts_fit p ordered = (length ordered = p_peers p \<and> set ordered \<subseteq> cls_amount ` set (p_classes p))"

lemma payouts_fit_bounds:
  assumes "validate p = Ok ()" and "payouts_fit p ordered" and "a \<in> set ordered"
  shows "330 + worst_cut p \<le> a" and "a \<le> 2100000000000000"
  using assms validate_facts(11) by (fastforce simp: payouts_fit_def)+

lemma sum_list_bound: "(\<And>x. x \<in> set xs \<Longrightarrow> x \<le> b) \<Longrightarrow> sum_list xs \<le> length xs * b" for b :: nat
  by (induction xs) (auto simp: add_mono)

subsection \<open>No wrap-around\<close>

lemma weighted_mean_le:
  fixes a b r n j :: nat
  assumes "a \<le> r" and "b \<le> r" and "j \<le> n"
  shows "a * (n - j) + b * j \<le> r * n"
proof -
  have "a * (n - j) + b * j \<le> r * (n - j) + r * j" using assms by (intro add_mono mult_le_mono1)
  also have "\<dots> = r * n" using assms by (simp flip: distrib_left)
  finally show ?thesis .
qed

lemma exit_rate_exact:
  assumes "validate p = Ok ()" and "j < length (p_exits p)"
  shows "exit_rate p j = (if length (p_exits p) = 1 then fst (p_exit_rates_milli p)
      else (fst (p_exit_rates_milli p) * (length (p_exits p) - 1 - j) + snd (p_exit_rates_milli p) * j) div (length (p_exits p) - 1))"
    and "exit_rate p j \<le> 1000000"
proof -
  let ?n = "length (p_exits p) - 1" and ?a = "fst (p_exit_rates_milli p)" and ?b = "snd (p_exit_rates_milli p)"
  note v = validate_facts [OF assms(1)]
  have le: "?a * (?n - j) + ?b * j \<le> 1000000 * ?n" using v assms(2) by (intro weighted_mean_le) auto
  also have "\<dots> \<le> 100000000" using v by simp
  finally have small: "?a * (?n - j) + ?b * j \<le> u64_max" by (simp add: u64_max_def)
  hence parts: "?a * (?n - j) \<le> u64_max" "?b * j \<le> u64_max" by linarith+
  show eq: "exit_rate p j = (if length (p_exits p) = 1 then ?a else (?a * (?n - j) + ?b * j) div ?n)"
    using small parts by (simp add: exit_rate_def Let_def case_prod_unfold wrap_mul64_exact wrap_add64_exact)
  show "exit_rate p j \<le> 1000000"
  proof (cases "length (p_exits p) = 1")
    case True
    thus ?thesis using eq v by simp
  next
    case False
    hence "0 < ?n" using v(3) by (cases "p_exits p") auto
    have "(?a * (?n - j) + ?b * j) div ?n \<le> 1000000 * ?n div ?n" by (rule div_le_mono [OF le])
    also have "\<dots> = 1000000" using \<open>0 < ?n\<close> by simp
    finally show ?thesis using eq False by simp
  qed
qed

lemma pool_fee_exact: "w \<le> 1000000 \<Longrightarrow> r \<le> 1000000 \<Longrightarrow> pool_fee w r = div_ceil (w * r) 4000"
  using mult_le_mono [of w 1000000 r 1000000] by (simp add: pool_fee_def wrap_mul64_exact u64_max_def)

lemma pool_fee_le: "w \<le> 1000000 \<Longrightarrow> r \<le> 1000000 \<Longrightarrow> pool_fee w r \<le> 250000001"
proof -
  assume le: "w \<le> 1000000" "r \<le> 1000000"
  have "pool_fee w r * 4000 < w * r + 4000" using pool_fee_exact [OF le] div_ceil_bounds(2) [of 4000 "w * r"] by simp
  moreover have "w * r \<le> 1000000 * 1000000" using le by (intro mult_le_mono)
  ultimately show ?thesis by linarith
qed

lemma exit_costs_nth: "j < length (p_exits p) \<Longrightarrow> exit_costs p ! j = exit_cost_of p j (p_exits p ! j)"
  by (simp add: exit_costs_def nth_enumerate_eq)

lemma length_exit_costs [simp]: "length (exit_costs p) = length (p_exits p)"
  by (simp add: exit_costs_def)

lemma exit_costs_payouts: "map ec_payouts (exit_costs p) = p_exits p"
  by (rule nth_equalityI) (simp_all add: exit_costs_nth exit_cost_of_def Let_def)

lemma exit_cost_bounds:
  assumes "validate p = Ok ()" and "c \<in> set (exit_costs p)"
  shows "1 \<le> ec_payouts c" and "ec_payouts c \<le> 250" and "ec_fee c \<le> 250000001"
proof -
  from assms(2) obtain j where j: "j < length (p_exits p)" "c = exit_costs p ! j" by (metis in_set_conv_nth length_exit_costs)
  have g: "1 \<le> p_exits p ! j" "p_exits p ! j \<le> 250"
    using validate_facts(6) [OF assms(1)] j(1) by (auto simp: list_all_length)
  with j show "1 \<le> ec_payouts c" "ec_payouts c \<le> 250" by (auto simp: exit_costs_nth exit_cost_of_def Let_def)
  show "ec_fee c \<le> 250000001"
    using j g exit_rate_exact(2) [OF assms(1) j(1)]
    by (auto simp: exit_costs_nth exit_cost_of_def Let_def pool_consts intro!: pool_fee_le)
qed

lemma anchor_value_le: "anchor_value p \<le> 240"
  by (simp add: anchor_value_def pool_consts)

lemma cost_with_anchor:
  assumes "validate p = Ok ()" and "c \<in> set (exit_costs p)"
  shows "wrap_add64 (ec_fee c) (anchor_value p) = ec_fee c + anchor_value p" and "ec_fee c + anchor_value p \<le> 250000241"
  using exit_cost_bounds(3) [OF assms] anchor_value_le [of p] by (auto intro!: wrap_add64_exact simp: u64_max_def)

definition exits_total :: "params \<Rightarrow> nat" where
  "exits_total p = sum_list (map (\<lambda>e. ec_fee e + anchor_value p) (exit_costs p))"

lemma exits_total_le:
  assumes "validate p = Ok ()"
  shows "exits_total p \<le> 25000024100"
proof -
  have "exits_total p \<le> length (exit_costs p) * 250000241"
    unfolding exits_total_def
    using sum_list_bound [of "map (\<lambda>e. ec_fee e + anchor_value p) (exit_costs p)" 250000241] cost_with_anchor(2) [OF assms]
    by auto
  also have "\<dots> \<le> 100 * 250000241" using validate_facts(4) [OF assms] by simp
  finally show ?thesis by simp
qed

lemma exit_share_chain:
  assumes "validate p = Ok ()" and "p_structure p \<noteq> Tree"
  shows "exit_share p = Ok (case p_fee_split p of Equal \<Rightarrow> div_ceil (exits_total p) (p_peers p) | ByExit \<Rightarrow> 0)"
proof -
  have eq: "map (\<lambda>e. wrap_add64 (ec_fee e) (anchor_value p)) (exit_costs p) = map (\<lambda>e. ec_fee e + anchor_value p) (exit_costs p)"
    using cost_with_anchor(1) [OF assms(1)] by simp
  have "wrap_sum64 (map (\<lambda>e. wrap_add64 (ec_fee e) (anchor_value p)) (exit_costs p)) = exits_total p"
    unfolding eq using exits_total_le [OF assms(1)] by (simp add: exits_total_def wrap_sum64_exact u64_max_def)
  thus ?thesis using assms(2) validate_facts(1) [OF assms(1)]
    by (auto simp: exit_share_def split: fee_split.splits pool_structure.splits)
qed

section \<open>The exits of a chain\<close>

text \<open>The payouts of one exit over the naturals, and what a chain of exits takes out of the pool.\<close>

definition exit_payouts :: "params \<Rightarrow> exit_cost \<Rightarrow> nat list \<Rightarrow> nat list" where
  "exit_payouts p c grp =
     (case p_fee_split p of
        Equal \<Rightarrow> grp | ByExit \<Rightarrow> map (\<lambda>a. a - div_ceil (ec_fee c + anchor_value p) (ec_payouts c)) grp)"

fun chain_due :: "params \<Rightarrow> exit_cost list \<Rightarrow> nat list \<Rightarrow> nat" where
  "chain_due p [] rest = 0"
| "chain_due p (c # costs) rest =
     sum_list (exit_payouts p c (take (ec_payouts c) rest)) + anchor_value p + ec_fee c +
     chain_due p costs (drop (ec_payouts c) rest)"

fun chain_payouts :: "params \<Rightarrow> exit_cost list \<Rightarrow> nat list \<Rightarrow> nat list list" where
  "chain_payouts p [] rest = []"
| "chain_payouts p (c # costs) rest =
     exit_payouts p c (take (ec_payouts c) rest) # chain_payouts p costs (drop (ec_payouts c) rest)"

text \<open>A chain of exits is balanced when each exit's input is exactly its payouts, the anchor, its fee and the
  next pool output.\<close>

fun balanced :: "nat \<Rightarrow> nat \<Rightarrow> exit_amounts list \<Rightarrow> bool" where
  "balanced anchor before [] = False"
| "balanced anchor before [e] = (ea_pool e = None \<and> before = sum_list (ea_payouts e) + anchor + ea_fee e)"
| "balanced anchor before (e # es) =
     (case ea_pool e of
        None \<Rightarrow> False
      | Some after \<Rightarrow> before = sum_list (ea_payouts e) + anchor + ea_fee e + after \<and> balanced anchor after es)"

definition pays_cost :: "exit_cost \<Rightarrow> exit_amounts \<Rightarrow> bool" where
  "pays_cost c e = (ec_fee c \<le> ea_fee e \<and> ea_weight e = ec_weight c \<and> ea_rate_milli e = ec_rate_milli c)"

lemma exit_turn_exact:
  assumes "validate p = Ok ()" and "c \<in> set (exit_costs p)"
    and "sum_list (exit_payouts p c grp) + anchor_value p + ec_fee c \<le> before" and "before \<le> u64_max"
  shows "exit_turn p m j c grp before =
    Ok \<lparr>ea_payouts = exit_payouts p c grp, ea_weight = ec_weight c, ea_rate_milli = ec_rate_milli c,
        ea_fee = (if j + 1 < m then ec_fee c else before - (sum_list (exit_payouts p c grp) + anchor_value p)),
        ea_pool = (if j + 1 < m then Some (before - (sum_list (exit_payouts p c grp) + anchor_value p + ec_fee c)) else None)\<rparr>"
proof -
  have pay: "map (\<lambda>a. case p_fee_split p of Equal \<Rightarrow> a | ByExit \<Rightarrow> a - div_ceil (ec_fee c + anchor_value p) (ec_payouts c)) grp =
      exit_payouts p c grp"
    by (simp add: exit_payouts_def split: fee_split.splits)
  have "sum_list (exit_payouts p c grp) \<le> u64_max" "sum_list (exit_payouts p c grp) + anchor_value p \<le> u64_max"
    "sum_list (exit_payouts p c grp) + anchor_value p + ec_fee c \<le> u64_max" using assms(3,4) by linarith+
  thus ?thesis using exit_cost_bounds(1) [OF assms(1,2)] cost_with_anchor(1) [OF assms(1,2)]
    by (simp add: exit_turn_def pay wrap_sum64_exact wrap_add64_exact Let_def)
qed

lemma amounts_loop_exact:
  assumes "validate p = Ok ()" and "set costs \<subseteq> set (exit_costs p)" and "costs \<noteq> []" and "j + length costs = m"
    and "chain_due p costs rest \<le> before" and "before \<le> u64_max"
  shows "\<exists>pools exits. amounts_loop p m j costs rest before = Ok (pools, exits) \<and> balanced (anchor_value p) before exits \<and>
    map ea_payouts exits = chain_payouts p costs rest \<and> list_all2 pays_cost costs exits \<and>
    pools = List.map_filter ea_pool exits \<and> list_all (\<lambda>v. v \<le> u64_max) pools"
  using assms(2-)
proof (induction costs arbitrary: j rest before)
  case (Cons c costs)
  let ?pay = "exit_payouts p c (take (ec_payouts c) rest)"
  have c: "c \<in> set (exit_costs p)" using Cons.prems(1) by simp
  have due: "sum_list ?pay + anchor_value p + ec_fee c \<le> before" using Cons.prems(4) by simp
  note turn = exit_turn_exact [OF assms(1) c due Cons.prems(5), of m j]
  show ?case
  proof (cases "costs = []")
    case True
    with Cons.prems(3) turn due show ?thesis by (simp add: map_filter_simps pays_cost_def)
  next
    case False
    let ?after = "before - (sum_list ?pay + anchor_value p + ec_fee c)"
    from False Cons.prems(3) have j: "j + 1 < m" by (cases costs) auto
    have le: "chain_due p costs (drop (ec_payouts c) rest) \<le> ?after" using Cons.prems(4) by simp
    have max: "?after \<le> u64_max" by (rule order_trans [OF diff_le_self Cons.prems(5)])
    have sub: "set costs \<subseteq> set (exit_costs p)" "j + 1 + length costs = m" using Cons.prems by simp_all
    from Cons.IH [OF sub(1) False sub(2) le max] obtain pools exits where rec:
      "amounts_loop p m (j + 1) costs (drop (ec_payouts c) rest) ?after = Ok (pools, exits)"
      "balanced (anchor_value p) ?after exits" "map ea_payouts exits = chain_payouts p costs (drop (ec_payouts c) rest)"
      "list_all2 pays_cost costs exits" "pools = List.map_filter ea_pool exits"
      "list_all (\<lambda>v. v \<le> u64_max) pools"
      by blast
    obtain e es where exits: "exits = e # es" using rec(2) by (cases exits) auto
    let ?e = "\<lparr>ea_payouts = ?pay, ea_weight = ec_weight c, ea_rate_milli = ec_rate_milli c, ea_fee = ec_fee c,
      ea_pool = Some ?after\<rparr>"
    have "balanced (anchor_value p) before (?e # exits)" using rec(2) due exits by simp
    moreover have "pays_cost c ?e" by (simp add: pays_cost_def)
    ultimately show ?thesis using turn rec j max
      by (intro exI [of _ "?after # pools"] exI [of _ "?e # exits"]) (simp add: map_filter_simps)
  qed
qed simp

lemma chain_due_equal:
  assumes "p_fee_split p = Equal" and "sum_list (map ec_payouts costs) = length rest"
  shows "chain_due p costs rest = sum_list rest + sum_list (map (\<lambda>c. ec_fee c + anchor_value p) costs)"
  using assms(2)
proof (induction costs arbitrary: rest)
  case (Cons c costs)
  have "sum_list rest = sum_list (take (ec_payouts c) rest) + sum_list (drop (ec_payouts c) rest)"
    by (metis append_take_drop_id sum_list_append)
  with Cons.IH [of "drop (ec_payouts c) rest"] Cons.prems assms(1) show ?case by (simp add: exit_payouts_def)
qed simp

lemma sum_list_cut:
  fixes k :: nat
  assumes "\<And>a. a \<in> set xs \<Longrightarrow> k \<le> a"
  shows "sum_list (map (\<lambda>a. a - k) xs) + length xs * k = sum_list xs"
  using assms
proof (induction xs)
  case (Cons a xs)
  have "k \<le> a" and "sum_list (map (\<lambda>a. a - k) xs) + length xs * k = sum_list xs" using Cons by simp_all
  thus ?case by simp
qed simp

lemma chain_due_by_exit:
  assumes "p_fee_split p = ByExit" and "sum_list (map ec_payouts costs) = length rest" and "list_all (\<lambda>c. 1 \<le> ec_payouts c) costs"
    and "\<And>a c. a \<in> set rest \<Longrightarrow> c \<in> set costs \<Longrightarrow> div_ceil (ec_fee c + anchor_value p) (ec_payouts c) \<le> a"
  shows "chain_due p costs rest \<le> sum_list rest"
  using assms(2-)
proof (induction costs arbitrary: rest)
  case (Cons c costs)
  let ?g = "take (ec_payouts c) rest" and ?k = "div_ceil (ec_fee c + anchor_value p) (ec_payouts c)"
  have split: "sum_list rest = sum_list ?g + sum_list (drop (ec_payouts c) rest)" by (metis append_take_drop_id sum_list_append)
  have len: "length ?g = ec_payouts c" using Cons.prems(1) by simp
  have "ec_fee c + anchor_value p \<le> length ?g * ?k"
    using div_ceil_bounds(1) [of "ec_payouts c" "ec_fee c + anchor_value p"] Cons.prems(2) len by (simp add: mult.commute)
  moreover have "sum_list (map (\<lambda>a. a - ?k) ?g) + length ?g * ?k = sum_list ?g"
    by (rule sum_list_cut, rule Cons.prems(3)) (auto dest: in_set_takeD)
  moreover have "chain_due p costs (drop (ec_payouts c) rest) \<le> sum_list (drop (ec_payouts c) rest)"
  proof (rule Cons.IH)
    show "sum_list (map ec_payouts costs) = length (drop (ec_payouts c) rest)" using Cons.prems(1) by simp
    show "list_all (\<lambda>c. 1 \<le> ec_payouts c) costs" using Cons.prems(2) by simp
    show "div_ceil (ec_fee d + anchor_value p) (ec_payouts d) \<le> a" if "a \<in> set (drop (ec_payouts c) rest)" "d \<in> set costs" for a d
      by (rule Cons.prems(3)) (use that in \<open>auto dest: in_set_dropD\<close>)
  qed
  ultimately show ?case using split assms(1) by (simp add: exit_payouts_def)
qed simp

lemma per_payout_le_worst:
  assumes "p_fee_split p = ByExit" and "validate p = Ok ()" and "c \<in> set (exit_costs p)"
  shows "div_ceil (ec_fee c + anchor_value p) (ec_payouts c) \<le> worst_cut p"
proof -
  let ?cut = "\<lambda>e. div_ceil (wrap_add64 (ec_fee e) (anchor_value p)) (ec_payouts e)"
  have "?cut c \<le> Max (set (0 # map ?cut (exit_costs p)))" by (rule Max_ge) (use assms(3) in auto)
  thus ?thesis using assms(1) cost_with_anchor(1) [OF assms(2,3)] by (simp add: worst_cut_def)
qed

text \<open>What every peer adds to the pool covers all exits.\<close>

definition pool_zero :: "params \<Rightarrow> nat list \<Rightarrow> nat" where
  "pool_zero p ordered =
     sum_list ordered + length ordered * (case p_fee_split p of Equal \<Rightarrow> div_ceil (exits_total p) (p_peers p) | ByExit \<Rightarrow> 0)"

lemma chain_due_le_pool_zero:
  assumes "validate p = Ok ()" and "payouts_fit p ordered"
  shows "chain_due p (exit_costs p) ordered \<le> pool_zero p ordered"
proof (cases "p_fee_split p")
  case Equal
  have "exits_total p \<le> p_peers p * div_ceil (exits_total p) (p_peers p)"
    using div_ceil_bounds(1) [of "p_peers p" "exits_total p"] validate_facts(1) [OF assms(1)] by (simp add: mult.commute)
  with Equal assms(2) chain_due_equal [OF Equal, of "exit_costs p" ordered] validate_facts(5) [OF assms(1)]
  show ?thesis by (simp add: pool_zero_def payouts_fit_def exit_costs_payouts exits_total_def)
next
  case ByExit
  have "chain_due p (exit_costs p) ordered \<le> sum_list ordered"
  proof (rule chain_due_by_exit [OF ByExit])
    show "sum_list (map ec_payouts (exit_costs p)) = length ordered"
      using assms(2) validate_facts(5) [OF assms(1)] by (simp add: exit_costs_payouts payouts_fit_def)
    show "list_all (\<lambda>c. 1 \<le> ec_payouts c) (exit_costs p)" using exit_cost_bounds(1) [OF assms(1)] by (simp add: list_all_iff)
    show "div_ceil (ec_fee c + anchor_value p) (ec_payouts c) \<le> a" if "a \<in> set ordered" "c \<in> set (exit_costs p)" for a c
      using per_payout_le_worst [OF ByExit assms(1) that(2)] payouts_fit_bounds(1) [OF assms that(1)] by simp
  qed
  thus ?thesis using ByExit by (simp add: pool_zero_def)
qed

lemma pool_zero_exact:
  assumes "validate p = Ok ()" and "payouts_fit p ordered" and "exit_share p = Ok share"
    and "share = (case p_fee_split p of Equal \<Rightarrow> div_ceil (exits_total p) (p_peers p) | ByExit \<Rightarrow> 0)"
  shows "wrap_sum64 (map (\<lambda>a. wrap_add64 a share) ordered) = pool_zero p ordered" and "pool_zero p ordered \<le> u64_max"
    and "wrap_add64 (wrap_sum64 ordered) (wrap_mul64 (p_peers p) share) = pool_zero p ordered"
proof -
  have len: "length ordered \<le> 100" "length ordered = p_peers p" using assms(2) validate_facts(2) [OF assms(1)] by (auto simp: payouts_fit_def)
  have share: "share \<le> 25000024100"
    using assms(4) exits_total_le [OF assms(1)] div_ceil_le [of "p_peers p" "exits_total p"] validate_facts(1) [OF assms(1)]
    by (auto split: fee_split.splits)
  have "sum_list ordered \<le> length ordered * 2100000000000000"
    by (rule sum_list_bound) (rule payouts_fit_bounds(2) [OF assms(1,2)])
  hence sum: "sum_list ordered \<le> 100 * 2100000000000000" using len(1) by linarith
  have all: "length ordered * share \<le> 100 * 25000024100" using len share by (intro mult_le_mono) auto
  have zero: "pool_zero p ordered = sum_list ordered + length ordered * share" by (simp add: pool_zero_def assms(4))
  show max: "pool_zero p ordered \<le> u64_max" using zero sum all by (simp add: u64_max_def)
  have eq: "map (\<lambda>a. wrap_add64 a share) ordered = map (\<lambda>a. a + share) ordered"
  proof (rule map_cong [OF refl])
    fix a assume "a \<in> set ordered"
    with payouts_fit_bounds(2) [OF assms(1,2)] have "a \<le> 2100000000000000" by blast
    thus "wrap_add64 a share = a + share" using share by (intro wrap_add64_exact) (simp add: u64_max_def)
  qed
  have "sum_list (map (\<lambda>a. a + share) ordered) = sum_list ordered + length ordered * share"
    by (induction ordered) auto
  thus "wrap_sum64 (map (\<lambda>a. wrap_add64 a share) ordered) = pool_zero p ordered"
    unfolding eq using zero max by (simp add: wrap_sum64_exact)
  have "sum_list ordered \<le> u64_max" "length ordered * share \<le> u64_max" using zero max by linarith+
  thus "wrap_add64 (wrap_sum64 ordered) (wrap_mul64 (p_peers p) share) = pool_zero p ordered"
    using zero max len by (simp add: wrap_sum64_exact wrap_mul64_exact wrap_add64_exact)
qed

lemma amounts_exact:
  assumes "validate p = Ok ()" and "payouts_fit p ordered" and "p_structure p \<noteq> Tree"
  shows "\<exists>exits. amounts_of p ordered =
      Ok \<lparr>am_pools = pool_zero p ordered # List.map_filter ea_pool exits, am_exits = exits\<rparr> \<and>
    balanced (anchor_value p) (pool_zero p ordered) exits \<and>
    map ea_payouts exits = chain_payouts p (exit_costs p) ordered \<and>
    list_all2 pays_cost (exit_costs p) exits"
proof -
  note share = exit_share_chain [OF assms(1,3)]
  note zero = pool_zero_exact [OF assms(1,2) share refl]
  have "exit_costs p \<noteq> []" using validate_facts(3) [OF assms(1)] by (metis length_0_conv length_exit_costs)
  from amounts_loop_exact [OF assms(1) order_refl this _ chain_due_le_pool_zero [OF assms(1,2)] zero(2), of 0]
  obtain pools exits where
    "amounts_loop p (length (exit_costs p)) 0 (exit_costs p) ordered (pool_zero p ordered) = Ok (pools, exits)"
    "balanced (anchor_value p) (pool_zero p ordered) exits" "map ea_payouts exits = chain_payouts p (exit_costs p) ordered"
    "list_all2 pays_cost (exit_costs p) exits" "pools = List.map_filter ea_pool exits"
    by auto
  thus ?thesis using share zero(1) by (intro exI [of _ exits]) (simp add: amounts_of_def Let_def)
qed

section \<open>Funded plans\<close>

text \<open>A plan is funded when the pool output it spends holds exactly what it pays out, the anchor and its fee, and
  every pool output it makes has the value the plan of its spender expects.\<close>

definition outs_match :: "nat list \<Rightarrow> plan_out list \<Rightarrow> bool" where
  "outs_match pools outs =
     list_all (\<lambda>out. case out of Pool i v \<Rightarrow> i < length pools \<and> pools ! i = v | Payout _ _ \<Rightarrow> True) outs"

definition plan_funded :: "nat \<Rightarrow> nat list \<Rightarrow> exit_plan \<Rightarrow> bool" where
  "plan_funded anchor pools q =
     (ep_from q < length pools \<and> pools ! ep_from q = sum_list (map plan_value (ep_outs q)) + anchor + ep_fee q \<and>
      outs_match pools (ep_outs q))"

definition pays_rate :: "exit_plan \<Rightarrow> bool" where
  "pays_rate q = (pool_fee (ep_weight q) (ep_rate_milli q) \<le> ep_fee q)"

definition payout_positions :: "exit_plan \<Rightarrow> nat list" where
  "payout_positions q = List.map_filter (\<lambda>out. case out of Payout i _ \<Rightarrow> Some i | Pool _ _ \<Rightarrow> None) (ep_outs q)"

lemma payout_outs [simp]:
  "map (plan_value \<circ> (\<lambda>(i, v). Payout (first + i) v)) (enumerate k vs) = vs"
  by (rule nth_equalityI) (simp_all add: nth_enumerate_eq)

lemma payout_outs_positions [simp]:
  "List.map_filter (case_plan_out (\<lambda>i _. Some i) (\<lambda>_ _. None)) (map (\<lambda>(i, v). Payout (first + i) v) (enumerate k vs)) =
     [first + k..<first + k + length vs]"
proof (induction vs arbitrary: k)
  case (Cons v vs)
  have "[first + k..<first + k + length (v # vs)] = (first + k) # [first + Suc k..<first + Suc k + length vs]"
    by (subst upt_conv_Cons) simp_all
  with Cons [of "Suc k"] show ?case by (simp add: map_filter_simps del: upt_Suc)
qed (simp add: map_filter_simps)

lemma chain_plans_funded:
  "balanced anchor before es \<Longrightarrow> j = length done \<Longrightarrow>
     list_all (plan_funded anchor (done @ before # List.map_filter ea_pool es)) (chain_plans j first es)"
proof (induction anchor before es arbitrary: j "done" first rule: balanced.induct)
  case (2 anchor before e)
  thus ?case by (auto simp: plan_funded_def outs_match_def list_all_iff)
next
  case (3 anchor before e e' es)
  then obtain after where after: "ea_pool e = Some after" "before = sum_list (ea_payouts e) + anchor + ea_fee e + after"
    "balanced anchor after (e' # es)" by (auto split: option.splits)
  have "list_all (plan_funded anchor ((done @ [before]) @ after # List.map_filter ea_pool (e' # es)))
      (chain_plans (j + 1) (first + length (ea_payouts e)) (e' # es))"
    by (rule "3.IH") (use after "3.prems" in auto)
  with after "3.prems"(2) show ?case by (auto simp: plan_funded_def outs_match_def list_all_iff map_filter_simps nth_append)
qed simp

lemma chain_plans_pay_rate:
  "list_all2 pays_cost costs es \<Longrightarrow> list_all (\<lambda>c. ec_fee c = pool_fee (ec_weight c) (ec_rate_milli c)) costs \<Longrightarrow>
     list_all pays_rate (chain_plans j first es)"
  by (induction arbitrary: j first rule: list_all2_induct) (auto simp: pays_cost_def pays_rate_def)

lemma exit_costs_fee: "list_all (\<lambda>c. ec_fee c = pool_fee (ec_weight c) (ec_rate_milli c)) (exit_costs p)"
  by (auto simp: exit_costs_def exit_cost_of_def Let_def list_all_iff)

lemma map_filter_append: "List.map_filter f (xs @ ys) = List.map_filter f xs @ List.map_filter f ys"
  by (induction xs) (auto simp: map_filter_simps split: option.splits)

lemma chain_plans_positions:
  "concat (map payout_positions (chain_plans j first es)) = [first..<first + length (concat (map ea_payouts es))]"
proof (induction es arbitrary: j first)
  case (Cons e es)
  have "payout_positions (hd (chain_plans j first (e # es))) = [first..<first + length (ea_payouts e)]"
    by (simp add: payout_positions_def map_filter_append map_filter_simps split: option.splits)
  moreover have "[first..<first + (a + b)] = [first..<first + a] @ [first + a..<first + a + b]" for a b
    using upt_add_eq_append [of first "first + a" b] by (simp add: add.assoc)
  ultimately show ?case using Cons [of "j + 1" "first + length (ea_payouts e)"] by simp
qed simp

lemma chain_payouts_length:
  "sum_list (map ec_payouts costs) = length rest \<Longrightarrow> length (concat (chain_payouts p costs rest)) = length rest"
proof (induction costs arbitrary: rest)
  case (Cons c costs)
  thus ?case using Cons.IH [of "drop (ec_payouts c) rest"] by (simp add: exit_payouts_def split: fee_split.splits)
qed simp

text \<open>The pool outputs a plan makes; a list of plans is linked when each spends a pool output that stands at the start
  or that an earlier one makes.\<close>

definition pool_indices :: "exit_plan \<Rightarrow> nat set" where
  "pool_indices q = set (List.map_filter (\<lambda>out. case out of Pool i _ \<Rightarrow> Some i | Payout _ _ \<Rightarrow> None) (ep_outs q))"

fun linked :: "nat set \<Rightarrow> exit_plan list \<Rightarrow> bool" where
  "linked made [] = True"
| "linked made (q # qs) = (ep_from q \<in> made \<and> linked (made \<union> pool_indices q) qs)"

lemma linked_append: "linked made (qs @ rs) = (linked made qs \<and> linked (made \<union> \<Union> (pool_indices ` set qs)) rs)"
  by (induction qs arbitrary: made) (auto simp: Un_assoc)

lemma linked_nth:
  "(\<And>t. t < length qs \<Longrightarrow> ep_from (qs ! t) \<in> made \<union> (\<Union>s<t. pool_indices (qs ! s))) \<Longrightarrow> linked made qs"
proof (induction qs arbitrary: made)
  case (Cons q qs)
  have "linked (made \<union> pool_indices q) qs"
  proof (rule Cons.IH)
    fix t assume "t < length qs"
    hence "ep_from (qs ! t) \<in> made \<union> (\<Union>s<Suc t. pool_indices ((q # qs) ! s))" using Cons.prems [of "Suc t"] by simp
    moreover have "(\<Union>s<Suc t. pool_indices ((q # qs) ! s)) = pool_indices q \<union> (\<Union>s<t. pool_indices (qs ! s))"
      by (simp add: lessThan_Suc_eq_insert_0)
    ultimately show "ep_from (qs ! t) \<in> made \<union> pool_indices q \<union> (\<Union>s<t. pool_indices (qs ! s))" by auto
  qed
  thus ?case using Cons.prems [of 0] by simp
qed simp

definition positions_below :: "nat \<Rightarrow> exit_plan \<Rightarrow> bool" where
  "positions_below n q = (\<forall>i\<in>set (payout_positions q). i < n)"

lemma positions_below_concat:
  "concat (map payout_positions qs) = [0..<n] \<Longrightarrow> list_all (positions_below n) qs"
proof -
  assume eq: "concat (map payout_positions qs) = [0..<n]"
  have "set (payout_positions q) \<subseteq> set (concat (map payout_positions qs))" if "q \<in> set qs" for q using that by auto
  thus ?thesis unfolding eq by (fastforce simp: list_all_iff positions_below_def)
qed

lemma chain_plans_linked: "balanced anchor before es \<Longrightarrow> j \<in> made \<Longrightarrow> linked made (chain_plans j first es)"
proof (induction anchor before es arbitrary: j first made rule: balanced.induct)
  case (3 anchor before e e' es)
  then obtain after where after: "ea_pool e = Some after" "balanced anchor after (e' # es)" by (auto split: option.splits)
  have "linked (made \<union> pool_indices (hd (chain_plans j first (e # e' # es))))
      (chain_plans (j + 1) (first + length (ea_payouts e)) (e' # es))"
    by (rule "3.IH") (use after in \<open>auto simp: pool_indices_def map_filter_append map_filter_simps\<close>)
  thus ?case using "3.prems"(2) by simp
qed auto

text \<open>What the set of exits of a pool promises: every plan is funded and pays its fee rate, pays out payouts of the pool
  only, and spends what an earlier one made.\<close>

definition set_funded :: "params \<Rightarrow> nat list \<Rightarrow> exit_set \<Rightarrow> bool" where
  "set_funded p ordered es =
     (es_pools es \<noteq> [] \<and>
      (case exit_share p of Ok share \<Rightarrow> es_pools es ! 0 = sum_list ordered + p_peers p * share | _ \<Rightarrow> False) \<and>
      list_all (plan_funded (anchor_value p) (es_pools es)) (es_plans es) \<and> list_all pays_rate (es_plans es) \<and>
      linked {0} (es_plans es) \<and> list_all (positions_below (p_peers p)) (es_plans es))"

lemma chain_set_funded:
  assumes "validate p = Ok ()" and "payouts_fit p ordered" and "p_structure p = Chain"
  shows "\<exists>es. chain_set p ordered = Ok es \<and> set_funded p ordered es \<and>
    concat (map payout_positions (es_plans es)) = [0..<p_peers p]"
proof -
  from amounts_exact [OF assms(1,2)] assms(3) obtain exits where exits:
    "amounts_of p ordered = Ok \<lparr>am_pools = pool_zero p ordered # List.map_filter ea_pool exits, am_exits = exits\<rparr>"
    "balanced (anchor_value p) (pool_zero p ordered) exits"
    "map ea_payouts exits = chain_payouts p (exit_costs p) ordered" "list_all2 pays_cost (exit_costs p) exits"
    by auto
  have "length (concat (map ea_payouts exits)) = p_peers p"
    using chain_payouts_length [of "exit_costs p" ordered p] assms(2) validate_facts(5) [OF assms(1)] exits(3)
    by (simp add: exit_costs_payouts payouts_fit_def)
  moreover from this have "list_all (positions_below (p_peers p)) (chain_plans 0 0 exits)"
    by (intro positions_below_concat) (simp add: chain_plans_positions)
  ultimately show ?thesis
    using exits chain_plans_funded [OF exits(2), of 0 "[]" 0] chain_plans_linked [OF exits(2), of 0 "{0}" 0] chain_plans_pay_rate [OF exits(4) exit_costs_fee, of 0 0]
    chain_plans_positions [of 0 0 exits]
    exit_share_chain [OF assms(1)] assms(2,3)
    by (simp add: chain_set_def set_funded_def pool_zero_def payouts_fit_def)
qed

end
