(* ===== verification/Pool_Shapes.thy ===== *)
theory Pool_Shapes
  imports Pool_Plan
begin

text \<open>
  The exits of a pool as a binary tree. The breadth-first loop ends exactly for two or more payouts, its nodes refer
  to every other node and to every payout once, and the values its pool outputs are given fund every exit in full.
\<close>

lemma upt_split: "i \<le> j \<Longrightarrow> j \<le> k \<Longrightarrow> [i..<k] = [i..<j] @ [j..<k]"
  by (metis le_add_diff_inverse upt_add_eq_append)

section \<open>The tree loop\<close>

definition node_refs :: "tree_node \<Rightarrow> nat list" where
  "node_refs t = List.map_filter (\<lambda>c. case c of NodeChild j \<Rightarrow> Some j | PayoutChild _ \<Rightarrow> None) (tn_children t)"

definition payout_refs :: "tree_node \<Rightarrow> nat list" where
  "payout_refs t = List.map_filter (\<lambda>c. case c of PayoutChild i \<Rightarrow> Some i | NodeChild _ \<Rightarrow> None) (tn_children t)"

definition queue_payouts :: "(nat \<times> nat \<times> nat) list \<Rightarrow> nat multiset" where
  "queue_payouts queue = sum_list (map (\<lambda>(lo, hi, _). mset [lo..<hi]) queue)"

text \<open>What holds at the head of the loop: the queue's ranges are the nodes numbered from \<open>length nodes\<close> on.\<close>

definition tree_inv :: "nat \<Rightarrow> (nat \<times> nat \<times> nat) list \<Rightarrow> nat \<Rightarrow> tree_node list \<Rightarrow> bool" where
  "tree_inv peers queue nxt nodes =
     (nxt = length nodes + length queue \<and> 1 \<le> nxt \<and> list_all (\<lambda>(lo, hi, _). lo + 2 \<le> hi) queue \<and>
      mset (concat (map node_refs nodes)) = mset [1..<nxt] \<and>
      mset (concat (map payout_refs nodes)) + queue_payouts queue = mset [0..<peers] \<and>
      (\<forall>i<length nodes. \<forall>j\<in>set (node_refs (nodes ! i)). i < j) \<and> list_all (\<lambda>t. length (tn_children t) = 2) nodes)"

definition tree_measure :: "(nat \<times> nat \<times> nat) list \<Rightarrow> nat" where
  "tree_measure queue = sum_list (map (\<lambda>(lo, hi, _). 2 * (hi - lo) - 1) queue)"

lemma tree_split:
  assumes "lo + 2 \<le> hi" and "mid = lo + div_ceil (hi - lo) 2"
  shows "lo < mid" and "mid < hi"
  using assms by (auto simp: div_ceil_def)

definition child_payouts :: "tree_child \<Rightarrow> nat multiset" where
  "child_payouts c = (case c of PayoutChild i \<Rightarrow> {#i#} | NodeChild _ \<Rightarrow> {#})"

lemma tree_child_payouts:
  assumes "tree_child_of depth a b queue nxt = (c, queue', nxt')" and "a < b"
  shows "child_payouts c + queue_payouts queue' = mset [a..<b] + queue_payouts queue"
proof (cases "b - a = 1")
  case True
  hence "b = Suc a" by simp
  with True assms show ?thesis by (auto simp: tree_child_of_def child_payouts_def)
next
  case False
  with assms show ?thesis by (auto simp: tree_child_of_def child_payouts_def queue_payouts_def)
qed

text \<open>One turn of the loop, by whether each half is a single payout.\<close>

lemma tree_inv_step:
  assumes inv: "tree_inv peers ((lo, hi, depth) # queue) nxt nodes" and mid: "mid = lo + div_ceil (hi - lo) 2"
    and c1: "tree_child_of depth lo mid queue nxt = (c1, queue1, nxt1)"
    and c2: "tree_child_of depth mid hi queue1 nxt1 = (c2, queue2, nxt2)"
  shows "tree_inv peers queue2 nxt2 (nodes @ [\<lparr>tn_lo = lo, tn_hi = hi, tn_depth = depth, tn_children = [c1, c2]\<rparr>])"
    and "tree_measure queue2 < tree_measure ((lo, hi, depth) # queue)"
proof -
  have range: "lo + 2 \<le> hi" using inv by (simp add: tree_inv_def)
  note mid = tree_split [OF range mid]
  have "[lo..<hi] = [lo..<mid] @ [mid..<hi]" by (rule upt_split) (use mid in simp_all)
  hence payouts: "mset [lo..<hi] = mset [lo..<mid] + mset [mid..<hi]" by (simp only: mset_append)
  show "tree_measure queue2 < tree_measure ((lo, hi, depth) # queue)"
    using c1 c2 mid by (auto simp: tree_child_of_def tree_measure_def split: if_splits)
  let ?t = "\<lparr>tn_lo = lo, tn_hi = hi, tn_depth = depth, tn_children = [c1, c2]\<rparr>"
  have inv': "nxt = length nodes + Suc (length queue)" "list_all (\<lambda>(lo, hi, _). lo + 2 \<le> hi) queue"
    and old_refs: "mset (concat (map node_refs nodes)) = mset [1..<nxt]"
    and old_payouts: "mset (concat (map payout_refs nodes)) + queue_payouts ((lo, hi, depth) # queue) = mset [0..<peers]"
    and later: "\<forall>i<length nodes. \<forall>j\<in>set (node_refs (nodes ! i)). i < j" "list_all (\<lambda>t. length (tn_children t) = 2) nodes"
    using inv unfolding tree_inv_def by (simp, simp, blast, blast, blast, blast)
  have refs: "node_refs ?t = [nxt..<nxt2]"
    using c1 c2 by (auto simp: tree_child_of_def node_refs_def map_filter_simps upt_conv_Cons split: if_splits)
  have "mset (payout_refs ?t) + queue_payouts queue2 = child_payouts c1 + (child_payouts c2 + queue_payouts queue2)"
    by (simp add: payout_refs_def child_payouts_def map_filter_simps split: tree_child.splits)
  also have "\<dots> = mset [mid..<hi] + (child_payouts c1 + queue_payouts queue1)"
    unfolding tree_child_payouts [OF c2 mid(2)] by (simp only: ac_simps)
  also have "\<dots> = mset [lo..<hi] + queue_payouts queue"
    unfolding tree_child_payouts [OF c1 mid(1)] payouts by (simp only: ac_simps)
  finally have pays: "mset (payout_refs ?t) + queue_payouts queue2 = mset [lo..<hi] + queue_payouts queue" .
  have queue: "nxt2 = Suc (length nodes) + length queue2" "nxt \<le> nxt2" "list_all (\<lambda>(lo, hi, _). lo + 2 \<le> hi) queue2"
    using inv' c1 c2 mid by (auto simp: tree_child_of_def split: if_splits)
  have "[1..<nxt2] = [1..<nxt] @ [nxt..<nxt2]" by (rule upt_split) (use inv' queue(2) in simp_all)
  hence "mset [1..<nxt2] = mset [1..<nxt] + mset [nxt..<nxt2]" by (simp only: mset_append)
  hence nodes: "mset (concat (map node_refs (nodes @ [?t]))) = mset [1..<nxt2]"
    unfolding map_append concat_append mset_append old_refs by (simp add: refs del: mset_upt)
  have "mset (concat (map payout_refs (nodes @ [?t]))) + queue_payouts queue2 =
      mset (concat (map payout_refs nodes)) + (mset (payout_refs ?t) + queue_payouts queue2)" by (simp add: union_assoc)
  also have "\<dots> = mset [0..<peers]" unfolding pays old_payouts [symmetric] by (simp add: queue_payouts_def)
  finally have payouts: "mset (concat (map payout_refs (nodes @ [?t]))) + queue_payouts queue2 = mset [0..<peers]" .
  have "\<forall>i<length (nodes @ [?t]). \<forall>j\<in>set (node_refs ((nodes @ [?t]) ! i)). i < j"
    using later(1) inv'(1) refs by (auto simp: nth_append less_Suc_eq)
  with later(2) queue nodes payouts show "tree_inv peers queue2 nxt2 (nodes @ [?t])"
    unfolding tree_inv_def by simp
qed

lemma tree_loop_returns:
  "tree_inv peers queue nxt nodes \<Longrightarrow> \<exists>nodes'. tree_loop queue nxt nodes = Some nodes' \<and> tree_inv peers [] (length nodes') nodes'"
proof (induction "tree_measure queue" arbitrary: queue nxt nodes rule: less_induct)
  case less
  show ?case
  proof (cases queue)
    case Nil
    with less.prems show ?thesis by (subst tree_loop.simps) (simp add: tree_inv_def)
  next
    case (Cons entry rest)
    obtain lo hi depth where entry: "entry = (lo, hi, depth)" by (metis prod_cases3)
    define mid where "mid = lo + div_ceil (hi - lo) 2"
    obtain c1 queue1 nxt1 where c1: "tree_child_of depth lo mid rest nxt = (c1, queue1, nxt1)" by (metis prod_cases3)
    obtain c2 queue2 nxt2 where c2: "tree_child_of depth mid hi queue1 nxt1 = (c2, queue2, nxt2)" by (metis prod_cases3)
    note step = tree_inv_step [OF less.prems [unfolded Cons entry] mid_def c1 c2]
    have "tree_loop queue nxt nodes = tree_loop queue2 nxt2 (nodes @ [\<lparr>tn_lo = lo, tn_hi = hi, tn_depth = depth, tn_children = [c1, c2]\<rparr>])"
      by (subst tree_loop.simps) (simp add: Cons entry Let_def c1 c2 flip: mid_def)
    with less.hyps [OF step(2) [folded Cons entry] step(1)] Cons entry show ?thesis by simp
  qed
qed

text \<open>A range of fewer than two payouts puts an empty range on the queue, which puts itself back for ever.\<close>

lemma tree_loop_stuck:
  assumes "tree_loop queue nxt nodes = Some nodes'"
  shows "\<not> list_ex (\<lambda>(lo, hi, _). hi < lo + 2) queue"
proof (rule tree_loop.raw_induct [where P = "\<lambda>queue _ _ _. \<not> list_ex (\<lambda>(lo, hi, _). hi < lo + 2) queue", OF _ assms], rule notI)
  fix f :: "(nat \<times> nat \<times> nat) list \<Rightarrow> nat \<Rightarrow> tree_node list \<Rightarrow> tree_node list option"
  fix queue nxt nodes nodes'
  assume IH: "\<And>queue nxt nodes nodes'. f queue nxt nodes = Some nodes' \<Longrightarrow> \<not> list_ex (\<lambda>(lo, hi, _). hi < lo + 2) queue"
    and body: "(case queue of
        [] \<Rightarrow> Some nodes
      | (lo, hi, depth) # queue \<Rightarrow>
          let mid = lo + div_ceil (hi - lo) 2;
              (c1, queue, nxt) = tree_child_of depth lo mid queue nxt;
              (c2, queue, nxt) = tree_child_of depth mid hi queue nxt
          in f queue nxt (nodes @ [\<lparr>tn_lo = lo, tn_hi = hi, tn_depth = depth, tn_children = [c1, c2]\<rparr>])) = Some nodes'"
    and short: "list_ex (\<lambda>(lo, hi, _). hi < lo + 2) queue"
  then obtain lo hi depth rest where queue: "queue = (lo, hi, depth) # rest" by (cases queue) auto
  define mid where "mid = lo + div_ceil (hi - lo) 2"
  obtain c1 queue1 nxt1 where c1: "tree_child_of depth lo mid rest nxt = (c1, queue1, nxt1)" by (metis prod_cases3)
  obtain c2 queue2 nxt2 where c2: "tree_child_of depth mid hi queue1 nxt1 = (c2, queue2, nxt2)" by (metis prod_cases3)
  have "f queue2 nxt2 (nodes @ [\<lparr>tn_lo = lo, tn_hi = hi, tn_depth = depth, tn_children = [c1, c2]\<rparr>]) = Some nodes'"
    using body by (simp add: queue Let_def c1 c2 flip: mid_def)
  moreover have "list_ex (\<lambda>(lo, hi, _). hi < lo + 2) queue2"
  proof (cases "hi < lo + 2")
    case True
    hence "mid = lo \<or> mid = lo + 1" "hi - mid \<noteq> 1" by (auto simp: mid_def div_ceil_def)
    with True c1 c2 show ?thesis by (auto simp: tree_child_of_def split: if_splits)
  next
    case False
    with short queue c1 c2 show ?thesis by (auto simp: tree_child_of_def split: if_splits)
  qed
  ultimately show False using IH by blast
qed

definition tree_wf :: "nat \<Rightarrow> tree_node list \<Rightarrow> bool" where
  "tree_wf peers nodes =
     (mset (concat (map node_refs nodes)) = mset [1..<length nodes] \<and>
      mset (concat (map payout_refs nodes)) = mset [0..<peers] \<and>
      (\<forall>i<length nodes. \<forall>j\<in>set (node_refs (nodes ! i)). i < j) \<and> list_all (\<lambda>t. length (tn_children t) = 2) nodes \<and> nodes \<noteq> [])"

lemma tree_nodes_wf:
  assumes "2 \<le> peers"
  shows "\<exists>nodes. tree_nodes peers = Some nodes \<and> tree_wf peers nodes"
proof -
  have "tree_inv peers [(0, peers, 0)] 1 []" using assms by (simp add: tree_inv_def queue_payouts_def)
  from tree_loop_returns [OF this] obtain nodes where
    nodes: "tree_nodes peers = Some nodes" "tree_inv peers [] (length nodes) nodes" by (auto simp: tree_nodes_def)
  hence "tree_wf peers nodes" by (auto simp: tree_inv_def tree_wf_def queue_payouts_def)
  with nodes(1) show ?thesis by blast
qed

lemma tree_nodes_none: "peers < 2 \<Longrightarrow> tree_nodes peers = None"
  using tree_loop_stuck [of "[(0, peers, 0)]" 1 "[]"] by (cases "tree_nodes peers") (auto simp: tree_nodes_def)

section \<open>The values of a tree\<close>

lemma tree_cost_facts:
  assumes "validate p = Ok ()" and "t \<in> set nodes"
  shows "ec_fee (tree_cost p nodes t) \<le> 250000001"
    and "ec_fee (tree_cost p nodes t) = pool_fee (ec_weight (tree_cost p nodes t)) (ec_rate_milli (tree_cost p nodes t))"
proof -
  let ?deepest = "Max (set (0 # map tn_depth nodes))" and ?a = "fst (p_exit_rates_milli p)" and ?b = "snd (p_exit_rates_milli p)"
  have d: "tn_depth t \<le> ?deepest" by (rule Max_ge) (use assms(2) in auto)
  note v = validate_facts [OF assms(1)]
  have "wrap_add64 (wrap_mul64 ?a (?deepest - tn_depth t)) (wrap_mul64 ?b (tn_depth t)) \<le> ?a * (?deepest - tn_depth t) + ?b * tn_depth t"
    by (auto simp: wrap_add64_def wrap_mul64_def intro!: order_trans [OF mod_less_eq_dividend] add_mono)
  also have "\<dots> \<le> 1000000 * ?deepest" using v d by (intro weighted_mean_le) auto
  finally have "wrap_add64 (wrap_mul64 ?a (?deepest - tn_depth t)) (wrap_mul64 ?b (tn_depth t)) div ?deepest \<le> 1000000 * ?deepest div ?deepest"
    by (rule div_le_mono)
  hence rate: "ec_rate_milli (tree_cost p nodes t) \<le> 1000000"
    using v(9) by (auto simp: tree_cost_def Let_def case_prod_unfold simp del: Max.set_eq_fold)
  show "ec_fee (tree_cost p nodes t) = pool_fee (ec_weight (tree_cost p nodes t)) (ec_rate_milli (tree_cost p nodes t))"
    by (simp add: tree_cost_def Let_def case_prod_unfold)
  with rate show "ec_fee (tree_cost p nodes t) \<le> 250000001"
    by (simp add: pool_fee_le) (simp add: tree_cost_def Let_def case_prod_unfold pool_consts pool_fee_le)
qed

lemma sum_list_map_concat: "sum_list (map h (concat xss)) = sum_list (map (\<lambda>xs. sum_list (map h xs)) xss)" for h :: "'a \<Rightarrow> nat"
  by (induction xss) auto

text \<open>An abstract tree of values: node \<open>i\<close> holds its own cost, the values of the nodes it refers to and those of
  its payouts. The root then holds all costs and all payouts, and every node at most that.\<close>

lemma tree_sum:
  fixes f b :: "nat \<Rightarrow> nat" and refs pays :: "nat \<Rightarrow> nat list"
  assumes "\<And>i. k \<le> i \<Longrightarrow> i < n \<Longrightarrow> f i = b i + sum_list (map f (refs i)) + sum_list (map g (pays i))"
    and "mset (concat (map refs [0..<n])) = mset [1..<n]" and "mset (concat (map pays [0..<n])) = mset [0..<m]"
    and "\<And>i j. i < n \<Longrightarrow> j \<in> set (refs i) \<Longrightarrow> i < j" and "k < n"
  shows "f k \<le> sum b {0..<n} + sum g {0..<m}" and "k = 0 \<Longrightarrow> f 0 = sum b {0..<n} + sum g {0..<m}"
proof -
  have split: "concat (map h [0..<n]) = concat (map h [0..<k]) @ concat (map h [k..<n])" for h :: "nat \<Rightarrow> nat list"
    using upt_split [of 0 k n] assms(5) by simp
  have list: "(\<Sum>i = k..<n. sum_list (map h (r i))) = sum_list (map h (concat (map r [k..<n])))"
    for h :: "nat \<Rightarrow> nat" and r :: "nat \<Rightarrow> nat list"
    by (simp add: sum_list_map_concat comp_def sum_list_distinct_conv_sum_set)
  have dist: "distinct (concat (map refs [0..<n]))" "distinct (concat (map pays [0..<n]))"
    using assms(2,3) by (metis distinct_upt mset_eq_imp_distinct_iff)+
  hence dk: "distinct (concat (map refs [k..<n]))" "distinct (concat (map pays [k..<n]))" by (simp_all add: split)
  have sub: "set (concat (map refs [k..<n])) \<subseteq> {Suc k..<n}" "set (concat (map pays [k..<n])) \<subseteq> {0..<m}"
  proof -
    have "set (concat (map refs [0..<n])) = {1..<n}" "set (concat (map pays [0..<n])) = {0..<m}"
      using assms(2,3) by (metis set_mset_mset set_upt)+
    hence "set (concat (map refs [k..<n])) \<subseteq> {1..<n}" "set (concat (map pays [k..<n])) \<subseteq> {0..<m}" by (auto simp: split)
    moreover have "Suc k \<le> j" if j: "j \<in> set (concat (map refs [k..<n]))" for j
    proof -
      from j obtain i where "k \<le> i" "i < n" "j \<in> set (refs i)" by auto
      with assms(4) [of i j] show ?thesis by simp
    qed
    ultimately show "set (concat (map refs [k..<n])) \<subseteq> {Suc k..<n}" "set (concat (map pays [k..<n])) \<subseteq> {0..<m}" by force+
  qed
  have total: "sum f {k..<n} = sum b {k..<n} + sum f (set (concat (map refs [k..<n]))) + sum g (set (concat (map pays [k..<n])))"
    using assms(1) dk by (simp add: sum.distrib list sum_list_distinct_conv_sum_set del: set_concat)
  have head: "sum f {k..<n} = f k + sum f {Suc k..<n}" using assms(5) by (rule sum.atLeast_Suc_lessThan)
  have "sum f (set (concat (map refs [k..<n]))) \<le> sum f {Suc k..<n}" using sub(1) by (intro sum_mono2) auto
  moreover have "sum g (set (concat (map pays [k..<n]))) \<le> sum g {0..<m}" using sub(2) by (intro sum_mono2) auto
  moreover have "sum b {k..<n} \<le> sum b {0..<n}" by (intro sum_mono2) auto
  ultimately show "f k \<le> sum b {0..<n} + sum g {0..<m}" using total head by linarith
  assume "k = 0"
  hence "set (concat (map refs [k..<n])) = {Suc k..<n}" "set (concat (map pays [k..<n])) = {0..<m}"
    using assms(2,3) by (metis One_nat_def set_mset_mset set_upt)+
  thus "f 0 = sum b {0..<n} + sum g {0..<m}" using total head \<open>k = 0\<close> by simp
qed

subsection \<open>The loop over the nodes\<close>

definition child_value :: "nat list \<Rightarrow> (nat \<Rightarrow> nat) \<Rightarrow> tree_child \<Rightarrow> nat" where
  "child_value ordered f c = (case c of PayoutChild i \<Rightarrow> ordered ! i | NodeChild j \<Rightarrow> f j)"

lemma sum_child_values:
  "sum_list (map (child_value ordered f) (tn_children t)) =
     sum_list (map f (node_refs t)) + sum_list (map ((!) ordered) (payout_refs t))"
proof -
  have "sum_list (map (child_value ordered f) cs) =
     sum_list (map f (List.map_filter (\<lambda>c. case c of NodeChild j \<Rightarrow> Some j | PayoutChild _ \<Rightarrow> None) cs)) +
     sum_list (map ((!) ordered) (List.map_filter (\<lambda>c. case c of PayoutChild i \<Rightarrow> Some i | NodeChild _ \<Rightarrow> None) cs))" for cs
    by (induction cs) (auto simp: child_value_def map_filter_simps split: tree_child.splits)
  thus ?thesis by (simp add: node_refs_def payout_refs_def)
qed

lemma in_refs: "c \<in> set (tn_children t) \<Longrightarrow> (case c of NodeChild j \<Rightarrow> j \<in> set (node_refs t) | PayoutChild i \<Rightarrow> i \<in> set (payout_refs t))"
  by (auto simp: node_refs_def payout_refs_def List.map_filter_def image_iff split: tree_child.splits intro!: bexI [of _ c])

lemma tree_wf_refs:
  assumes "tree_wf peers nodes" and "i < length nodes"
  shows "j \<in> set (node_refs (nodes ! i)) \<Longrightarrow> i < j \<and> j < length nodes" and "q \<in> set (payout_refs (nodes ! i)) \<Longrightarrow> q < peers"
proof -
  have mem: "x \<in> set (h (nodes ! i)) \<Longrightarrow> x \<in> set (concat (map h nodes))" for x and h :: "tree_node \<Rightarrow> nat list"
    using assms(2) by (auto intro!: bexI [of _ "nodes ! i"])
  have "set (concat (map node_refs nodes)) = {1..<length nodes}" "set (concat (map payout_refs nodes)) = {0..<peers}"
    using assms(1) unfolding tree_wf_def by (metis set_mset_mset set_upt)+
  with mem [of j node_refs] mem [of q payout_refs] assms
  show "j \<in> set (node_refs (nodes ! i)) \<Longrightarrow> i < j \<and> j < length nodes" "q \<in> set (payout_refs (nodes ! i)) \<Longrightarrow> q < peers"
    by (auto simp: tree_wf_def)
qed

lemma tree_children_ok:
  assumes "tree_wf peers nodes" and "i < length nodes" and "length pools = length nodes" and "length ordered = peers"
  shows "collect_ok (tree_child_value ordered pools) (tn_children (nodes ! i)) =
      Ok (map (child_value ordered ((!) pools)) (tn_children (nodes ! i)))"
    and "\<exists>outs. collect_ok (tree_out ordered pools) (tn_children (nodes ! i)) = Ok outs \<and>
      map plan_value outs = map (child_value ordered ((!) pools)) (tn_children (nodes ! i)) \<and>
      outs_match pools outs"
proof -
  have child: "case c of NodeChild j \<Rightarrow> j < length pools | PayoutChild q \<Rightarrow> q < length ordered"
    if "c \<in> set (tn_children (nodes ! i))" for c
    using in_refs [OF that] tree_wf_refs [OF assms(1,2)] assms(3,4) by (auto split: tree_child.splits)
  show "collect_ok (tree_child_value ordered pools) (tn_children (nodes ! i)) =
      Ok (map (child_value ordered ((!) pools)) (tn_children (nodes ! i)))"
    by (rule collect_ok_map) (use child in \<open>force simp: child_value_def split: tree_child.splits\<close>)
  let ?out = "\<lambda>c. case c of PayoutChild q \<Rightarrow> Payout q (ordered ! q) | NodeChild j \<Rightarrow> Pool j (pools ! j)"
  have "collect_ok (tree_out ordered pools) (tn_children (nodes ! i)) = Ok (map ?out (tn_children (nodes ! i)))"
    by (rule collect_ok_map) (use child in \<open>force split: tree_child.splits\<close>)
  moreover have "map plan_value (map ?out (tn_children (nodes ! i))) = map (child_value ordered ((!) pools)) (tn_children (nodes ! i))"
    by (auto simp: child_value_def split: tree_child.splits)
  moreover have "outs_match pools (map ?out (tn_children (nodes ! i)))"
    using child by (force simp: outs_match_def list_all_iff split: tree_child.splits)
  ultimately show "\<exists>outs. collect_ok (tree_out ordered pools) (tn_children (nodes ! i)) = Ok outs \<and>
      map plan_value outs = map (child_value ordered ((!) pools)) (tn_children (nodes ! i)) \<and>
      outs_match pools outs"
    by blast
qed

text \<open>Node \<open>i\<close> of a list of values holds its cost and its children.\<close>

definition node_full :: "params \<Rightarrow> tree_node list \<Rightarrow> nat list \<Rightarrow> (nat \<Rightarrow> nat) \<Rightarrow> nat \<Rightarrow> bool" where
  "node_full p nodes ordered f i =
     (f i = ec_fee (tree_cost p nodes (nodes ! i)) + anchor_value p + sum_list (map f (node_refs (nodes ! i))) +
        sum_list (map ((!) ordered) (payout_refs (nodes ! i))))"

lemma node_full_cong:
  "f i = g i \<Longrightarrow> (\<And>j. j \<in> set (node_refs (nodes ! i)) \<Longrightarrow> f j = g j) \<Longrightarrow>
     node_full p nodes ordered f i = node_full p nodes ordered g i"
  unfolding node_full_def by (metis (no_types, lifting) map_cong)

definition tree_total :: "params \<Rightarrow> tree_node list \<Rightarrow> nat" where
  "tree_total p nodes = sum_list (map (\<lambda>t. ec_fee (tree_cost p nodes t) + anchor_value p) nodes)"

lemma tree_total_sum: "tree_total p nodes = (\<Sum>i = 0..<length nodes. ec_fee (tree_cost p nodes (nodes ! i)) + anchor_value p)"
  unfolding tree_total_def by (simp add: sum_list_sum_nth)

lemma node_full_bound:
  assumes "tree_wf peers nodes" and "length ordered = peers" and "k < length nodes"
    and "\<And>i. k \<le> i \<Longrightarrow> i < length nodes \<Longrightarrow> node_full p nodes ordered f i"
  shows "f k \<le> tree_total p nodes + sum_list ordered" and "k = 0 \<Longrightarrow> f 0 = tree_total p nodes + sum_list ordered"
proof -
  let ?refs = "\<lambda>i. node_refs (nodes ! i)" and ?pays = "\<lambda>i. payout_refs (nodes ! i)"
  have lists: "map ?refs [0..<length nodes] = map node_refs nodes" "map ?pays [0..<length nodes] = map payout_refs nodes"
    by (rule nth_equalityI; simp)+
  have sum: "sum ((!) ordered) {0..<peers} = sum_list ordered" using assms(2) by (simp add: sum_list_sum_nth)
  have wf: "mset (concat (map ?refs [0..<length nodes])) = mset [1..<length nodes]"
    "mset (concat (map ?pays [0..<length nodes])) = mset [0..<peers]"
    using assms(1) unfolding lists tree_wf_def by blast+
  have full: "f i = ec_fee (tree_cost p nodes (nodes ! i)) + anchor_value p + sum_list (map f (?refs i)) +
      sum_list (map ((!) ordered) (?pays i))" if "k \<le> i" "i < length nodes" for i
    using assms(4) [OF that] by (simp add: node_full_def)
  have later: "i < j" if "i < length nodes" "j \<in> set (?refs i)" for i j using tree_wf_refs(1) [OF assms(1) that] by simp
  note tree = tree_sum [OF full wf later assms(3)]
  show "f k \<le> tree_total p nodes + sum_list ordered" unfolding tree_total_sum sum [symmetric] by (rule tree(1))
  show "k = 0 \<Longrightarrow> f 0 = tree_total p nodes + sum_list ordered" unfolding tree_total_sum sum [symmetric] by (rule tree(2))
qed

lemma refs_length: "length (node_refs t) + length (payout_refs t) = length (tn_children t)"
proof -
  have "length (List.map_filter (\<lambda>c. case c of NodeChild j \<Rightarrow> Some j | PayoutChild _ \<Rightarrow> None) cs) +
      length (List.map_filter (\<lambda>c. case c of PayoutChild i \<Rightarrow> Some i | NodeChild _ \<Rightarrow> None) cs) = length cs" for cs
    by (induction cs) (auto simp: map_filter_simps split: tree_child.splits)
  thus ?thesis by (simp add: node_refs_def payout_refs_def)
qed

lemma tree_total_le:
  assumes "validate p = Ok ()" and "tree_wf (p_peers p) nodes"
  shows "length nodes \<le> 100" and "tree_total p nodes \<le> 25000024100"
proof -
  have "size (mset (concat (map node_refs nodes))) = length nodes - 1" "size (mset (concat (map payout_refs nodes))) = p_peers p"
    using assms(2) unfolding tree_wf_def by (metis length_upt minus_nat.diff_0 size_mset)+
  moreover have "length (concat (map node_refs ts)) + length (concat (map payout_refs ts)) = sum_list (map (length \<circ> tn_children) ts)" for ts
  proof (induction ts)
    case (Cons t ts)
    thus ?case using refs_length [of t] by simp
  qed simp
  moreover have "sum_list (map (length \<circ> tn_children) nodes) = 2 * length nodes"
  proof -
    have eq: "map (length \<circ> tn_children) nodes = map (\<lambda>_. 2) nodes" using assms(2) by (auto simp: tree_wf_def list_all_iff)
    show ?thesis unfolding eq by (simp add: sum_list_triv)
  qed
  ultimately have "length nodes - 1 + p_peers p = 2 * length nodes" by (metis size_mset)
  thus len: "length nodes \<le> 100" using validate_facts(2) [OF assms(1)] by simp
  have "tree_total p nodes \<le> length nodes * 250000241"
    unfolding tree_total_def
    using sum_list_bound [of "map (\<lambda>t. ec_fee (tree_cost p nodes t) + anchor_value p) nodes" 250000241]
      tree_cost_facts(1) [OF assms(1)] anchor_value_le [of p] by fastforce
  also have "\<dots> \<le> 100 * 250000241" using len by simp
  finally show "tree_total p nodes \<le> 25000024100" by simp
qed

lemma tree_pools_full:
  assumes "validate p = Ok ()" and "tree_wf (p_peers p) nodes" and "length ordered = p_peers p" and "sum_list ordered \<le> 210000000000000000"
  shows "\<exists>pools. fold_ok (tree_pool p nodes ordered) (rev (enumerate 0 nodes)) (replicate (length nodes) 0) = Ok pools \<and>
    length pools = length nodes \<and> (\<forall>i<length nodes. node_full p nodes ordered ((!) pools) i)"
proof -
  let ?n = "length nodes" and ?xs = "rev (enumerate 0 nodes)"
  let ?P = "\<lambda>k pools. length pools = ?n \<and> (\<forall>i<?n. ?n - k \<le> i \<longrightarrow> node_full p nodes ordered ((!) pools) i)"
  have "\<exists>pools. fold_ok (tree_pool p nodes ordered) ?xs (replicate ?n 0) = Ok pools \<and> ?P (length ?xs) pools"
  proof (rule fold_ok_inv)
    fix k pools
    assume k: "k < length ?xs" and P: "?P k pools"
    define i where "i = ?n - Suc k"
    have i: "i < ?n" "?xs ! k = (i, nodes ! i)" "?n - k = Suc i" using k by (auto simp: i_def rev_nth nth_enumerate_eq)
    let ?cost = "ec_fee (tree_cost p nodes (nodes ! i))"
    let ?v = "?cost + anchor_value p + sum_list (map (child_value ordered ((!) pools)) (tn_children (nodes ! i)))"
    let ?f = "\<lambda>j. if j = i then ?v else pools ! j"
    have refs: "?f r = pools ! r" if "i \<le> j" "j < ?n" "r \<in> set (node_refs (nodes ! j))" for j r
      using tree_wf_refs(1) [OF assms(2) that(2,3)] that(1) by auto
    have full: "node_full p nodes ordered ?f j" if "i \<le> j" "j < ?n" for j
    proof (cases "j = i")
      case True
      have "map ?f (node_refs (nodes ! i)) = map ((!) pools) (node_refs (nodes ! i))"
        by (rule map_cong [OF refl]) (use refs [of i] i(1) in blast)
      thus ?thesis unfolding True node_full_def by (simp only: sum_child_values if_True refl)
    next
      case False
      hence "node_full p nodes ordered ((!) pools) j" using P i(3) that by simp
      moreover have "node_full p nodes ordered ?f j = node_full p nodes ordered ((!) pools) j"
        by (rule node_full_cong) (use False refs [OF that] in auto)
      ultimately show ?thesis by simp
    qed
    have "?f i \<le> tree_total p nodes + sum_list ordered" by (rule node_full_bound(1) [OF assms(2,3) i(1) full])
    hence max: "?v \<le> u64_max" using tree_total_le(2) [OF assms(1,2)] assms(4) by (simp add: u64_max_def)
    hence "?cost + anchor_value p \<le> u64_max" by linarith
    hence "tree_pool p nodes ordered (?xs ! k) pools = Ok (pools[i := ?v])"
      using max tree_children_ok(1) [OF assms(2) i(1) conjunct1 [OF P] assms(3)]
      by (simp add: tree_pool_def i(2) foldl_wrap_add64 wrap_add64_exact)
    moreover have "node_full p nodes ordered ((!) (pools[i := ?v])) j" if "i \<le> j" "j < ?n" for j
    proof -
      have at: "(!) (pools[i := ?v]) j = ?f j" if "j < ?n" for j using that P by simp
      have "node_full p nodes ordered ((!) (pools[i := ?v])) j = node_full p nodes ordered ?f j"
        by (rule node_full_cong) (use at that(2) tree_wf_refs(1) [OF assms(2) that(2)] in blast)+
      with full [OF that] show ?thesis by simp
    qed
    ultimately show "\<exists>pools'. tree_pool p nodes ordered (?xs ! k) pools = Ok pools' \<and> ?P (Suc k) pools'"
      using P by (auto simp: i_def)
  qed simp
  thus ?thesis by auto
qed

lemma exit_share_tree:
  assumes "validate p = Ok ()" and "p_structure p = Tree" and "tree_nodes (p_peers p) = Some nodes" and "tree_wf (p_peers p) nodes"
  shows "exit_share p = Ok (div_ceil (tree_total p nodes) (p_peers p))"
proof -
  have split: "p_fee_split p = Equal" using assms(1,2) by (simp add: validate_def)
  have eq: "map (\<lambda>t. wrap_add64 (ec_fee (tree_cost p nodes t)) (anchor_value p)) nodes =
      map (\<lambda>t. ec_fee (tree_cost p nodes t) + anchor_value p) nodes"
  proof (rule map_cong [OF refl])
    fix t assume "t \<in> set nodes"
    with tree_cost_facts(1) [OF assms(1)] anchor_value_le [of p]
    have "ec_fee (tree_cost p nodes t) + anchor_value p \<le> 250000241" by fastforce
    thus "wrap_add64 (ec_fee (tree_cost p nodes t)) (anchor_value p) = ec_fee (tree_cost p nodes t) + anchor_value p"
      by (intro wrap_add64_exact) (simp add: u64_max_def)
  qed
  have "wrap_sum64 (map (\<lambda>t. wrap_add64 (ec_fee (tree_cost p nodes t)) (anchor_value p)) nodes) = tree_total p nodes"
    unfolding eq using tree_total_le(2) [OF assms(1,4)] by (simp add: tree_total_def wrap_sum64_exact u64_max_def)
  thus ?thesis using assms(2,3) split validate_facts(1) [OF assms(1)] by (simp add: exit_share_def)
qed

lemma payouts_fit_sum:
  assumes "validate p = Ok ()" and "payouts_fit p ordered"
  shows "sum_list ordered \<le> 210000000000000000"
proof -
  have "sum_list ordered \<le> length ordered * 2100000000000000"
    by (rule sum_list_bound) (rule payouts_fit_bounds(2) [OF assms])
  also have "\<dots> \<le> 100 * 2100000000000000" using assms(2) validate_facts(2) [OF assms(1)] by (simp add: payouts_fit_def)
  finally show ?thesis by simp
qed

text \<open>Every plan of a tree is funded: below the root exactly at its cost, at the root at its cost and the rounding.\<close>

lemma tree_plan_funded:
  assumes wf: "tree_wf (p_peers p) nodes" and "length ordered = p_peers p" and len: "length pools = length nodes"
    and i: "i < length nodes" and val: "pools ! i = here" and "here \<le> u64_max"
    and due: "ec_fee (tree_cost p nodes (nodes ! i)) + anchor_value p + sum_list (map ((!) pools) (node_refs (nodes ! i))) +
      sum_list (map ((!) ordered) (payout_refs (nodes ! i))) \<le> here"
  shows "\<exists>q. tree_plan p nodes ordered pools (i, nodes ! i) = Ok q \<and> plan_funded (anchor_value p) pools q \<and>
    ec_fee (tree_cost p nodes (nodes ! i)) \<le> ep_fee q \<and> ep_weight q = ec_weight (tree_cost p nodes (nodes ! i)) \<and>
    ep_rate_milli q = ec_rate_milli (tree_cost p nodes (nodes ! i))"
proof -
  from tree_children_ok(2) [OF wf i len assms(2)] obtain outs where outs:
    "collect_ok (tree_out ordered pools) (tn_children (nodes ! i)) = Ok outs"
    "map plan_value outs = map (child_value ordered ((!) pools)) (tn_children (nodes ! i))"
    "outs_match pools outs" by blast
  have sum: "sum_list (map plan_value outs) = sum_list (map ((!) pools) (node_refs (nodes ! i))) +
      sum_list (map ((!) ordered) (payout_refs (nodes ! i)))"
    unfolding outs(2) by (rule sum_child_values)
  hence "wrap_add64 (wrap_sum64 (map plan_value outs)) (anchor_value p) = sum_list (map plan_value outs) + anchor_value p"
    using due assms(6) by (simp add: wrap_sum64_exact wrap_add64_exact)
  moreover have "sum_list (map plan_value outs) + anchor_value p \<le> here"
    "ec_fee (tree_cost p nodes (nodes ! i)) \<le> here - (sum_list (map plan_value outs) + anchor_value p)" using sum due by linarith+
  ultimately show ?thesis using outs(1,3) i len val by (simp add: tree_plan_def plan_funded_def Let_def)
qed

text \<open>The plans of a tree follow the nodes: plan \<open>i\<close> spends the pool output of node \<open>i\<close>, which an earlier node made.\<close>

lemma tree_out_refs:
  assumes "collect_ok (tree_out ordered pools) cs = Ok outs"
  shows "List.map_filter (\<lambda>out. case out of Pool i _ \<Rightarrow> Some i | Payout _ _ \<Rightarrow> None) outs =
      List.map_filter (\<lambda>c. case c of NodeChild j \<Rightarrow> Some j | PayoutChild _ \<Rightarrow> None) cs"
    and "List.map_filter (\<lambda>out. case out of Payout i _ \<Rightarrow> Some i | Pool _ _ \<Rightarrow> None) outs =
      List.map_filter (\<lambda>c. case c of PayoutChild i \<Rightarrow> Some i | NodeChild _ \<Rightarrow> None) cs"
proof -
  have "list_all2 (\<lambda>c out. tree_out ordered pools c = Ok out) cs outs" using assms by (simp add: collect_ok_Ok)
  hence "List.map_filter (\<lambda>out. case out of Pool i _ \<Rightarrow> Some i | Payout _ _ \<Rightarrow> None) outs =
        List.map_filter (\<lambda>c. case c of NodeChild j \<Rightarrow> Some j | PayoutChild _ \<Rightarrow> None) cs \<and>
      List.map_filter (\<lambda>out. case out of Payout i _ \<Rightarrow> Some i | Pool _ _ \<Rightarrow> None) outs =
        List.map_filter (\<lambda>c. case c of PayoutChild i \<Rightarrow> Some i | NodeChild _ \<Rightarrow> None) cs"
  proof (induction rule: list_all2_induct)
    case (Cons c cs out outs)
    thus ?case by (cases c) (auto simp: map_filter_simps at_Ok)
  qed (simp add: map_filter_simps)
  thus "List.map_filter (\<lambda>out. case out of Pool i _ \<Rightarrow> Some i | Payout _ _ \<Rightarrow> None) outs =
      List.map_filter (\<lambda>c. case c of NodeChild j \<Rightarrow> Some j | PayoutChild _ \<Rightarrow> None) cs"
    "List.map_filter (\<lambda>out. case out of Payout i _ \<Rightarrow> Some i | Pool _ _ \<Rightarrow> None) outs =
      List.map_filter (\<lambda>c. case c of PayoutChild i \<Rightarrow> Some i | NodeChild _ \<Rightarrow> None) cs" by simp_all
qed

lemma tree_plan_refs:
  assumes "tree_plan p nodes ordered pools (i, t) = Ok q"
  shows "ep_from q = i \<and> pool_indices q = set (node_refs t) \<and> payout_positions q = payout_refs t"
proof -
  from assms obtain outs where outs: "collect_ok (tree_out ordered pools) (tn_children t) = Ok outs" "ep_outs q = outs" "ep_from q = i"
    by (auto simp: tree_plan_def Let_def and_then_Ok at_Ok)
  with tree_out_refs [OF outs(1)] show ?thesis
    by (simp add: pool_indices_def payout_positions_def node_refs_def payout_refs_def)
qed

lemma tree_plans_linked:
  assumes wf: "tree_wf n nodes" and run: "collect_ok (tree_plan p nodes ordered pools) (enumerate 0 nodes) = Ok qs"
  shows "linked {0} qs" and "list_all (positions_below n) qs"
proof -
  have all: "list_all2 (\<lambda>x q. tree_plan p nodes ordered pools x = Ok q) (enumerate 0 nodes) qs"
    using run by (simp add: collect_ok_Ok)
  hence len: "length qs = length nodes" by (auto dest: list_all2_lengthD)
  have plan: "ep_from (qs ! i) = i \<and> pool_indices (qs ! i) = set (node_refs (nodes ! i)) \<and>
      payout_positions (qs ! i) = payout_refs (nodes ! i)" if "i < length nodes" for i
  proof -
    have "tree_plan p nodes ordered pools (i, nodes ! i) = Ok (qs ! i)"
      using list_all2_nthD [OF all, of i] that by (simp add: nth_enumerate_eq)
    thus ?thesis by (rule tree_plan_refs)
  qed
  have "set (concat (map node_refs nodes)) = {1..<length nodes}"
    using wf unfolding tree_wf_def by (metis set_mset_mset set_upt)
  hence parent: "\<exists>s<t. t \<in> set (node_refs (nodes ! s))" if "0 < t" "t < length nodes" for t
  proof -
    have "t \<in> set (concat (map node_refs nodes))" using that \<open>_ = {1..<length nodes}\<close> by simp
    then obtain x where "x \<in> set nodes" "t \<in> set (node_refs x)" by auto
    then obtain s where "s < length nodes" "t \<in> set (node_refs (nodes ! s))" by (metis in_set_conv_nth)
    thus ?thesis using tree_wf_refs(1) [OF wf] by blast
  qed
  show "linked {0} qs"
  proof (rule linked_nth)
    fix t assume t: "t < length qs"
    show "ep_from (qs ! t) \<in> {0} \<union> (\<Union>s<t. pool_indices (qs ! s))"
      using parent [of t] plan t len by (cases "t = 0") fastforce+
  qed
  show "list_all (positions_below n) qs"
    using plan len tree_wf_refs(2) [OF wf] by (fastforce simp: list_all_length positions_below_def)
qed

lemma tree_set_funded:
  assumes "validate p = Ok ()" and "payouts_fit p ordered" and "p_structure p = Tree"
  shows "\<exists>es. tree_set p ordered = Ok es \<and> set_funded p ordered es"
proof -
  obtain nodes where nodes: "tree_nodes (p_peers p) = Some nodes" "tree_wf (p_peers p) nodes"
    using tree_nodes_wf validate_facts(1) [OF assms(1)] by blast
  have len: "length ordered = p_peers p" using assms(2) by (simp add: payouts_fit_def)
  note sum = payouts_fit_sum [OF assms(1,2)]
  from tree_pools_full [OF assms(1) nodes(2) len sum] obtain pools where pools:
    "fold_ok (tree_pool p nodes ordered) (rev (enumerate 0 nodes)) (replicate (length nodes) 0) = Ok pools"
    "length pools = length nodes" "\<And>i. i < length nodes \<Longrightarrow> node_full p nodes ordered ((!) pools) i" by blast
  have n: "0 < length nodes" using nodes(2) by (simp add: tree_wf_def)
  define share where "share = div_ceil (tree_total p nodes) (p_peers p)"
  note share = exit_share_tree [OF assms(1,3) nodes, folded share_def]
  define zero where "zero = sum_list ordered + p_peers p * share"
  have cover: "tree_total p nodes \<le> p_peers p * share"
    using div_ceil_bounds(1) [of "p_peers p" "tree_total p nodes"] validate_facts(1) [OF assms(1)]
    by (simp add: share_def mult.commute)
  have small: "share \<le> 25000024100"
    using div_ceil_le [of "p_peers p" "tree_total p nodes"] tree_total_le(2) [OF assms(1) nodes(2)] validate_facts(1) [OF assms(1)]
    by (simp add: share_def)
  have mul: "p_peers p * share \<le> 100 * 25000024100" using small validate_facts(2) [OF assms(1)] by (intro mult_le_mono) auto
  have max: "zero \<le> u64_max" "sum_list ordered \<le> u64_max" "p_peers p * share \<le> u64_max"
    using sum mul by (auto simp: zero_def u64_max_def)
  hence root: "wrap_add64 (wrap_sum64 ordered) (wrap_mul64 (p_peers p) share) = zero"
    by (simp add: zero_def wrap_sum64_exact wrap_mul64_exact wrap_add64_exact)
  let ?pools = "pools[0 := zero]"
  have refs: "map ((!) ?pools) (node_refs (nodes ! i)) = map ((!) pools) (node_refs (nodes ! i))" if "i < length nodes" for i
    by (rule map_cong [OF refl]) (use tree_wf_refs(1) [OF nodes(2) that] in fastforce)
  have val: "pools ! i \<le> ?pools ! i \<and> ?pools ! i \<le> u64_max" if "i < length nodes" for i
    using node_full_bound [OF nodes(2) len that pools(3)] node_full_bound(2) [OF nodes(2) len n pools(3)] cover max pools(2) that
    by (cases "i = 0") (auto simp: zero_def)
  have plan: "\<exists>q. tree_plan p nodes ordered ?pools (i, nodes ! i) = Ok q \<and> plan_funded (anchor_value p) ?pools q \<and> pays_rate q"
    if i: "i < length nodes" for i
    using tree_plan_funded [OF nodes(2) len _ i refl, of ?pools] val [OF i] refs [OF i] pools(2) pools(3) [OF i]
      tree_cost_facts(2) [OF assms(1), of "nodes ! i" nodes] i
    by (auto simp: node_full_def pays_rate_def)
  have "\<exists>qs. collect_ok (tree_plan p nodes ordered ?pools) (enumerate 0 nodes) = Ok qs \<and>
      list_all (\<lambda>q. plan_funded (anchor_value p) ?pools q \<and> pays_rate q) qs"
  proof (rule collect_ok_all)
    fix x assume "x \<in> set (enumerate 0 nodes)"
    then obtain i where "i < length nodes" "x = (i, nodes ! i)" by (auto simp: in_set_conv_nth nth_enumerate_eq)
    with plan show "\<exists>q. tree_plan p nodes ordered ?pools x = Ok q \<and> plan_funded (anchor_value p) ?pools q \<and> pays_rate q" by simp
  qed
  then obtain qs where qs: "collect_ok (tree_plan p nodes ordered ?pools) (enumerate 0 nodes) = Ok qs"
    "list_all (\<lambda>q. plan_funded (anchor_value p) ?pools q \<and> pays_rate q) qs" by blast
  thus ?thesis using nodes(1) pools(1,2) share root n tree_plans_linked [OF nodes(2) qs(1)]
    by (auto simp: tree_set_def set_funded_def zero_def list_all_iff)
qed

end
