(* ===== verification/Pool_Orders.thy ===== *)
theory Pool_Orders
  imports Pool_Shapes
begin

text \<open>
  A pool whose members leave in any order: a state is the order in which payouts left, breadth first, and every state
  but the last ones has an exit for each payout still in. The value each state's pool output is given funds every exit
  out of it in full.
\<close>

section \<open>The states\<close>

definition order_level :: "nat \<Rightarrow> nat \<Rightarrow> nat list list" where
  "order_level n k = ((any_order_level n) ^^ k) [[]]"

lemma any_order_levels_concat:
  "any_order_levels n k level = concat (map (\<lambda>j. ((any_order_level n) ^^ Suc j) level) [0..<k])"
proof (induction k arbitrary: level)
  case (Suc k)
  have "[0..<Suc k] = 0 # map Suc [0..<k]" by (simp add: map_Suc_upt upt_conv_Cons)
  with Suc show ?case by (simp add: Let_def comp_def funpow_swap1 del: upt_Suc)
qed simp

lemma any_order_states_concat: "any_order_states n = concat (map (order_level n) [0..<Suc (n - 2)])"
proof -
  have "[0..<Suc (n - 2)] = 0 # map Suc [0..<n - 2]" by (simp add: map_Suc_upt upt_conv_Cons)
  thus ?thesis by (simp add: any_order_states_def any_order_levels_concat order_level_def comp_def del: upt_Suc)
qed

lemma set_order_level: "set (order_level n k) = {path. length path = k \<and> distinct path \<and> set path \<subseteq> {0..<n}}"
proof (induction k)
  case 0
  show ?case by (auto simp: order_level_def)
next
  case (Suc k)
  have step: "set (order_level n (Suc k)) = {path @ [i] |path i. path \<in> set (order_level n k) \<and> i < n \<and> i \<notin> set path}"
    by (auto simp: order_level_def any_order_level_def)
  show ?case unfolding step Suc
  proof (intro set_eqI iffI; clarsimp)
    fix path assume path: "length path = Suc k" "distinct path" "set path \<subseteq> {0..<n}"
    then obtain q i where "path = q @ [i]" by (cases path rule: rev_cases) auto
    with path show "\<exists>q i. path = q @ [i] \<and> length q = k \<and> distinct q \<and> set q \<subseteq> {0..<n} \<and> i < n \<and> i \<notin> set q" by auto
  qed
qed

lemma distinct_concat_map:
  assumes "distinct xs" and "\<And>x. x \<in> set xs \<Longrightarrow> distinct (f x)"
    and "\<And>x y. x \<in> set xs \<Longrightarrow> y \<in> set xs \<Longrightarrow> x \<noteq> y \<Longrightarrow> set (f x) \<inter> set (f y) = {}"
  shows "distinct (concat (map f xs))"
  using assms
proof (induction xs)
  case (Cons x xs)
  have "set (f x) \<inter> set (f y) = {}" if "y \<in> set xs" for y using Cons.prems(1,3) that by (metis distinct.simps(2) list.set_intros)
  with Cons show ?case by auto
qed simp

lemma distinct_order_level: "distinct (order_level n k)"
proof (induction k)
  case (Suc k)
  have "distinct (concat (map (\<lambda>path. map (\<lambda>p. path @ [p]) (filter (\<lambda>p. p \<notin> set path) [0..<n])) (order_level n k)))"
    by (rule distinct_concat_map [OF Suc]) (auto simp: distinct_map inj_on_def)
  thus ?case by (simp add: order_level_def any_order_level_def)
qed (simp add: order_level_def)

lemma set_any_order_states:
  "set (any_order_states n) = {path. length path \<le> n - 2 \<and> distinct path \<and> set path \<subseteq> {0..<n}}"
  by (auto simp: any_order_states_concat set_order_level simp del: upt_Suc)

lemma sorted_by_length: "sorted (map length (concat (map (order_level n) [a..<b])))"
proof (induction b)
  case (Suc b)
  have level: "map length (order_level n b) = replicate (length (order_level n b)) b"
    by (rule nth_equalityI) (use set_order_level [of n b] in \<open>auto simp: set_conv_nth\<close>)
  have "\<forall>x\<in>set (concat (map (order_level n) [a..<b])). length x \<le> b" by (auto simp: set_order_level)
  with Suc show ?case by (auto simp: sorted_append level)
qed simp

lemma any_order_later:
  assumes "s < length (any_order_states n)" and "t < length (any_order_states n)"
    and "length (any_order_states n ! s) < length (any_order_states n ! t)"
  shows "s < t"
proof (rule ccontr)
  assume "\<not> s < t"
  hence "map length (any_order_states n) ! t \<le> map length (any_order_states n) ! s"
    using sorted_by_length [of n 0 "Suc (n - 2)"] assms(1) by (intro sorted_nth_mono) (auto simp: any_order_states_concat)
  with assms show False by simp
qed

lemma distinct_any_order_states: "distinct (any_order_states n)"
  unfolding any_order_states_concat
  by (rule distinct_concat_map) (auto simp: distinct_order_level set_order_level simp del: upt_Suc)

section \<open>The values of the states\<close>

definition order_pay :: "params \<Rightarrow> nat list \<Rightarrow> nat \<Rightarrow> nat \<Rightarrow> nat" where
  "order_pay p ordered k i =
     (case p_fee_split p of
        Equal \<Rightarrow> ordered ! i | ByExit \<Rightarrow> ordered ! i - (ec_fee (exit_costs p ! k) + anchor_value p))"

definition order_take :: "params \<Rightarrow> nat list \<Rightarrow> nat \<Rightarrow> nat \<Rightarrow> nat" where
  "order_take p ordered k i = order_pay p ordered k i + anchor_value p + ec_fee (exit_costs p ! k)"

definition order_value :: "params \<Rightarrow> nat list \<Rightarrow> nat list \<Rightarrow> nat" where
  "order_value p ordered path = pool_zero p ordered - (\<Sum>k = 0..<length path. order_take p ordered k (path ! k))"

lemma order_value_Nil [simp]: "order_value p ordered [] = pool_zero p ordered"
  by (simp add: order_value_def)

lemma order_value_snoc: "order_value p ordered (path @ [i]) = order_value p ordered path - order_take p ordered (length path) i"
  by (simp add: order_value_def nth_append)

text \<open>What the exits out of a state still take at most.\<close>

definition order_due :: "params \<Rightarrow> nat list \<Rightarrow> nat list \<Rightarrow> nat" where
  "order_due p ordered path =
     sum ((!) ordered) ({0..<p_peers p} - set path) +
     (case p_fee_split p of
        Equal \<Rightarrow> (\<Sum>k = length path..<length (p_exits p). ec_fee (exit_costs p ! k) + anchor_value p) | ByExit \<Rightarrow> 0)"

lemma any_order_facts:
  assumes "validate p = Ok ()" and "p_structure p = AnyOrder"
  shows "3 \<le> p_peers p" and "length (p_exits p) = p_peers p - 1"
    and "k < p_peers p - 2 \<Longrightarrow> ec_payouts (exit_costs p ! k) = 1" and "ec_payouts (exit_costs p ! (p_peers p - 2)) = 2"
proof -
  have exits: "p_exits p = default_exits (p_peers p)" and peers: "3 \<le> p_peers p" using assms by (auto simp: validate_def)
  show "3 \<le> p_peers p" by (rule peers)
  show len: "length (p_exits p) = p_peers p - 1" using peers by (simp add: exits default_exits_def)
  have nth: "ec_payouts (exit_costs p ! k) = p_exits p ! k" if "k < p_peers p - 1" for k
    using that len by (simp add: exit_costs_nth exit_cost_of_def Let_def)
  show "k < p_peers p - 2 \<Longrightarrow> ec_payouts (exit_costs p ! k) = 1" "ec_payouts (exit_costs p ! (p_peers p - 2)) = 2"
    using nth [of k] nth [of "p_peers p - 2"] peers by (simp_all add: exits default_exits_def nth_append)
qed

lemma order_cut:
  assumes "validate p = Ok ()" and "p_structure p = AnyOrder" and "payouts_fit p ordered" and "p_fee_split p = ByExit"
    and "k < p_peers p - 2" and "i < p_peers p"
  shows "ec_fee (exit_costs p ! k) + anchor_value p \<le> ordered ! i"
proof -
  have c: "exit_costs p ! k \<in> set (exit_costs p)" using any_order_facts(2) [OF assms(1,2)] assms(5) by simp
  have "div_ceil (ec_fee (exit_costs p ! k) + anchor_value p) 1 \<le> worst_cut p"
    using per_payout_le_worst [OF assms(4,1) c] any_order_facts(3) [OF assms(1,2,5)] by simp
  moreover have "330 + worst_cut p \<le> ordered ! i"
    by (rule payouts_fit_bounds(1) [OF assms(1,3)]) (use assms(3,6) in \<open>simp add: payouts_fit_def\<close>)
  ultimately show ?thesis by (simp add: div_ceil_def)
qed

lemma order_due_step:
  assumes "validate p = Ok ()" and "p_structure p = AnyOrder" and "payouts_fit p ordered"
    and "length path < p_peers p - 2" and "i < p_peers p" and "i \<notin> set path"
  shows "order_take p ordered (length path) i + order_due p ordered (path @ [i]) = order_due p ordered path"
proof -
  have "sum ((!) ordered) ({0..<p_peers p} - set path) = ordered ! i + sum ((!) ordered) ({0..<p_peers p} - set path - {i})"
    by (rule sum.remove) (use assms(5,6) in auto)
  moreover have "{0..<p_peers p} - set path - {i} = {0..<p_peers p} - set (path @ [i])" by auto
  moreover have "(\<Sum>k = length path..<length (p_exits p). ec_fee (exit_costs p ! k) + anchor_value p) =
      ec_fee (exit_costs p ! length path) + anchor_value p +
      (\<Sum>k = Suc (length path)..<length (p_exits p). ec_fee (exit_costs p ! k) + anchor_value p)"
    by (rule sum.atLeast_Suc_lessThan) (use any_order_facts(2) [OF assms(1,2)] assms(4) in simp)
  ultimately show ?thesis
    using order_cut [OF assms(1-3) _ assms(4,5)]
    by (auto simp: order_due_def order_take_def order_pay_def split: fee_split.splits)
qed

lemma order_due_le:
  assumes "validate p = Ok ()" and "p_structure p = AnyOrder" and "payouts_fit p ordered"
    and "length path \<le> p_peers p - 2" and "distinct path" and "set path \<subseteq> {0..<p_peers p}"
  shows "order_due p ordered path \<le> order_value p ordered path"
  using assms(4-)
proof (induction path rule: rev_induct)
  case Nil
  have len: "length ordered = p_peers p" using assms(3) by (simp add: payouts_fit_def)
  hence sum: "sum ((!) ordered) {0..<p_peers p} = sum_list ordered" by (simp add: sum_list_sum_nth)
  have "exits_total p = (\<Sum>k = 0..<length (p_exits p). ec_fee (exit_costs p ! k) + anchor_value p)"
    by (simp add: exits_total_def sum_list_sum_nth)
  moreover have "exits_total p \<le> p_peers p * div_ceil (exits_total p) (p_peers p)"
    using div_ceil_bounds(1) [of "p_peers p" "exits_total p"] validate_facts(1) [OF assms(1)] by (simp add: mult.commute)
  ultimately show ?case using sum len by (auto simp: order_due_def pool_zero_def split: fee_split.splits)
next
  case (snoc i path)
  have i: "i < p_peers p" "i \<notin> set path" and k: "length path < p_peers p - 2" using snoc.prems by auto
  have IH: "order_due p ordered path \<le> order_value p ordered path" using snoc by simp
  from order_due_step [OF assms(1-3) k i]
  show ?case using IH by (simp add: order_value_snoc)
qed

section \<open>The loop over the states\<close>

text \<open>Which pool outputs have their value once the first \<open>k\<close> states and the first payouts of the next are done.\<close>

definition values_done :: "params \<Rightarrow> nat list \<Rightarrow> nat \<Rightarrow> nat list \<Rightarrow> nat list \<Rightarrow> bool" where
  "values_done p ordered k left pools =
     (let states = any_order_states (p_peers p)
      in length pools = length states \<and>
         (\<forall>t<length states.
            (states ! t = [] \<or> (\<exists>s<k. states ! t \<noteq> [] \<and> states ! s = butlast (states ! t)) \<or>
             (\<exists>i\<in>set left. states ! t = states ! k @ [i])) \<longrightarrow> pools ! t = order_value p ordered (states ! t)))"

definition plans_good :: "params \<Rightarrow> nat list \<Rightarrow> exit_plan list \<Rightarrow> bool" where
  "plans_good p ordered plans =
     list_all (\<lambda>q. plan_funded (anchor_value p) (map (order_value p ordered) (any_order_states (p_peers p))) q \<and> pays_rate q) plans"

text \<open>A state but the first comes after the state its last payout left, and adds a payout that was there.\<close>

lemma butlast_state:
  assumes "t < length (any_order_states n)" and "any_order_states n ! t \<noteq> []"
  shows "\<exists>s<t. any_order_states n ! s = butlast (any_order_states n ! t)"
proof -
  let ?S = "any_order_states n"
  have "?S ! t \<in> set ?S" using assms(1) by simp
  hence "butlast (?S ! t) \<in> set ?S" by (auto simp: set_any_order_states distinct_butlast dest: in_set_butlastD)
  then obtain s where s: "s < length ?S" "?S ! s = butlast (?S ! t)" by (metis in_set_conv_nth)
  have "s < t" by (rule any_order_later [OF s(1) assms(1)]) (use s assms(2) in simp)
  with s show ?thesis by blast
qed

lemma child_of_state:
  assumes t: "t < length (any_order_states n)" "any_order_states n ! t \<noteq> []" "any_order_states n ! k = butlast (any_order_states n ! t)"
  shows "\<exists>i\<in>set (filter (\<lambda>i. i \<notin> set (any_order_states n ! k)) [0..<n]). any_order_states n ! t = any_order_states n ! k @ [i]"
proof -
  let ?S = "any_order_states n"
  have "?S ! t \<in> set ?S" using t(1) by simp
  hence "distinct (?S ! t)" "set (?S ! t) \<subseteq> {0..<n}" by (auto simp: set_any_order_states)
  moreover have "?S ! t = ?S ! k @ [last (?S ! t)]" using t(2,3) by simp
  ultimately have "last (?S ! t) \<notin> set (?S ! k)" "last (?S ! t) < n"
    by (metis distinct_append disjoint_iff list.set_intros(1), metis atLeastLessThan_iff last_in_set subsetD t(2))
  with \<open>?S ! t = ?S ! k @ [last (?S ! t)]\<close> show ?thesis by auto
qed

lemma values_done_next:
  assumes "values_done p ordered k (filter (\<lambda>i. i \<notin> set (any_order_states (p_peers p) ! k)) [0..<p_peers p]) pools"
    and "k < length (any_order_states (p_peers p))"
  shows "values_done p ordered (Suc k) [] pools"
  using assms child_of_state [of _ "p_peers p" k] by (auto simp: values_done_def Let_def less_Suc_eq)

lemma values_done_before:
  assumes "values_done p ordered k left pools" and "t < length (any_order_states (p_peers p))" and "t \<le> k"
  shows "pools ! t = order_value p ordered (any_order_states (p_peers p) ! t)"
proof (cases "any_order_states (p_peers p) ! t = []")
  case True
  with assms show ?thesis by (simp add: values_done_def Let_def)
next
  case False
  with butlast_state [OF assms(2)] assms show ?thesis unfolding values_done_def Let_def
    by (meson order.strict_trans2)
qed

lemmas values_done_here = values_done_before [OF _ _ order.refl]

lemma values_done_update:
  assumes "values_done p ordered k left pools" and "t < length (any_order_states (p_peers p))"
    and "any_order_states (p_peers p) ! t = any_order_states (p_peers p) ! k @ [i]"
    and "v = order_value p ordered (any_order_states (p_peers p) ! t)"
  shows "values_done p ordered k (left @ [i]) (pools[t := v])"
proof -
  let ?S = "any_order_states (p_peers p)"
  have len: "length pools = length ?S" using assms(1) by (simp add: values_done_def Let_def)
  have "pools[t := v] ! u = order_value p ordered (?S ! u)"
    if u: "u < length ?S" and fin: "?S ! u = [] \<or> (\<exists>s<k. ?S ! u \<noteq> [] \<and> ?S ! s = butlast (?S ! u)) \<or>
      (\<exists>j\<in>set (left @ [i]). ?S ! u = ?S ! k @ [j])" for u
  proof (cases "u = t")
    case True
    thus ?thesis using len assms(2,4) by simp
  next
    case False
    hence "?S ! u \<noteq> ?S ! k @ [i]"
      using nth_eq_iff_index_eq [OF distinct_any_order_states u assms(2)] assms(3) by simp
    with fin have "?S ! u = [] \<or> (\<exists>s<k. ?S ! u \<noteq> [] \<and> ?S ! s = butlast (?S ! u)) \<or> (\<exists>j\<in>set left. ?S ! u = ?S ! k @ [j])"
      by auto
    hence "pools ! u = order_value p ordered (?S ! u)" using assms(1) u unfolding values_done_def Let_def by blast
    thus ?thesis using False by simp
  qed
  thus ?thesis using len by (simp add: values_done_def Let_def)
qed

text \<open>One payout leaving from state \<open>k\<close>.\<close>

lemma leave_ok:
  assumes "validate p = Ok ()" and "p_structure p = AnyOrder" and "payouts_fit p ordered"
    and k: "k < length (any_order_states (p_peers p))" and path: "path = any_order_states (p_peers p) ! k" "length path < p_peers p - 2"
    and i: "i < p_peers p" "i \<notin> set path" and "values_done p ordered k left pools" and "plans_good p ordered plans"
  shows "\<exists>pools' plans'. any_order_leave p ordered (any_order_states (p_peers p)) (exit_costs p ! length path) k path i (pools, plans) =
      Ok (pools', plans') \<and> values_done p ordered k (left @ [i]) pools' \<and> plans_good p ordered plans'"
proof -
  let ?S = "any_order_states (p_peers p)" and ?c = "exit_costs p ! length path"
  have member: "path \<in> set ?S" using k path by simp
  hence child: "path @ [i] \<in> set ?S" using path(2) i by (auto simp: set_any_order_states)
  then obtain t where pos: "position (\<lambda>s. s = path @ [i]) ?S = Some t" using position_exists [OF child, of "\<lambda>s. s = path @ [i]"] by auto
  hence t: "t < length ?S" "?S ! t = path @ [i]" using position_Some [OF pos] by auto
  note here = values_done_here [OF assms(9) k, folded path(1)]
  have len: "length pools = length ?S" "length ordered = p_peers p" using assms(3,9) by (auto simp: values_done_def Let_def payouts_fit_def)
  have c: "?c \<in> set (exit_costs p)" using any_order_facts(2) [OF assms(1,2)] path(2) by simp
  have pay: "(case p_fee_split p of Equal \<Rightarrow> ordered ! i | ByExit \<Rightarrow> ordered ! i - wrap_add64 (ec_fee ?c) (anchor_value p)) =
      order_pay p ordered (length path) i"
    unfolding order_pay_def using cost_with_anchor(1) [OF assms(1) c] by (simp split: fee_split.splits)
  have le: "order_pay p ordered (length path) i \<le> 2100000000000000"
    using payouts_fit_bounds(2) [OF assms(1,3), of "ordered ! i"] len i by (auto simp: order_pay_def split: fee_split.splits)
  hence "order_pay p ordered (length path) i + anchor_value p + ec_fee ?c \<le> u64_max"
    using cost_with_anchor(2) [OF assms(1) c] by (simp add: u64_max_def)
  hence take: "wrap_add64 (wrap_add64 (order_pay p ordered (length path) i) (anchor_value p)) (ec_fee ?c) = order_take p ordered (length path) i"
    by (simp add: wrap_add64_exact order_take_def)
  let ?q = "\<lparr>ep_from = k, ep_outs = [Payout i (order_pay p ordered (length path) i), Pool t (order_value p ordered (path @ [i]))],
    ep_fee = ec_fee ?c, ep_weight = ec_weight ?c, ep_rate_milli = ec_rate_milli ?c, ep_depth = length path\<rparr>"
  have res: "any_order_leave p ordered ?S ?c k path i (pools, plans) = Ok (pools[t := order_value p ordered (path @ [i])], plans @ [?q])"
    using len i k t pos by (simp add: any_order_leave_def pay take here order_value_snoc Let_def)
  have "order_due p ordered path \<le> order_value p ordered path"
    by (rule order_due_le [OF assms(1-3)]) (use member in \<open>auto simp: set_any_order_states\<close>)
  moreover have "order_take p ordered (length path) i \<le> order_due p ordered path"
    using order_due_step [OF assms(1-3) path(2) i] by simp
  ultimately have "plan_funded (anchor_value p) (map (order_value p ordered) ?S) ?q"
    using k t path by (simp add: plan_funded_def outs_match_def order_value_snoc order_take_def)
  moreover have "pays_rate ?q" using exit_costs_fee [of p] c by (simp add: pays_rate_def list_all_iff)
  moreover have "values_done p ordered k (left @ [i]) (pools[t := order_value p ordered (path @ [i])])"
    by (rule values_done_update [OF assms(9) t(1)]) (use t path(1) in simp_all)
  ultimately show ?thesis using res assms(10) by (auto simp: plans_good_def)
qed

text \<open>The last two payouts leave together.\<close>

lemma last_ok:
  assumes "validate p = Ok ()" and "p_structure p = AnyOrder" and "payouts_fit p ordered"
    and k: "k < length (any_order_states (p_peers p))" and path: "path = any_order_states (p_peers p) ! k" "length path = p_peers p - 2"
    and left: "left = filter (\<lambda>i. i \<notin> set path) [0..<p_peers p]"
    and "values_done p ordered k [] pools" and "plans_good p ordered plans"
  shows "\<exists>plans'. any_order_last p ordered (exit_costs p ! length path) k path left (pools, plans) = Ok (pools, plans') \<and>
    plans_good p ordered plans'"
proof -
  let ?S = "any_order_states (p_peers p)" and ?c = "exit_costs p ! length path"
  let ?per = "div_ceil (ec_fee ?c + anchor_value p) 2"
  let ?v = "\<lambda>i. case p_fee_split p of Equal \<Rightarrow> ordered ! i | ByExit \<Rightarrow> ordered ! i - ?per"
  have member: "path \<in> set ?S" using k path by simp
  note here = values_done_here [OF assms(8) k, folded path(1)]
  have len: "length pools = length ?S" "length ordered = p_peers p" using assms(3,8) by (auto simp: values_done_def Let_def payouts_fit_def)
  have c: "?c \<in> set (exit_costs p)" "ec_payouts ?c = 2"
    using any_order_facts [OF assms(1,2)] path(2) by simp_all
  have wrap: "wrap_add64 (ec_fee ?c) (anchor_value p) = ec_fee ?c + anchor_value p" by (rule cost_with_anchor(1) [OF assms(1) c(1)])
  have outs: "collect_ok (\<lambda>i. at ordered i (\<lambda>a. Ok (Payout i (case p_fee_split p of Equal \<Rightarrow> a | ByExit \<Rightarrow> a - ?per)))) left =
      Ok (map (\<lambda>i. Payout i (?v i)) left)"
    by (rule collect_ok_map) (simp add: left len)
  have set_left: "set left = {0..<p_peers p} - set path" "distinct left" by (auto simp: left)
  hence sum_left: "sum_list (map ((!) ordered) left) = sum ((!) ordered) ({0..<p_peers p} - set path)"
    by (simp add: sum_list_distinct_conv_sum_set)
  have card: "length left = 2"
  proof -
    have "card (set left) = p_peers p - length path"
      using member by (simp add: set_left card_Diff_subset set_any_order_states distinct_card)
    thus ?thesis using set_left(2) path(2) any_order_facts(1) [OF assms(1,2)] by (simp add: distinct_card)
  qed
  have "order_due p ordered path \<le> order_value p ordered path"
    by (rule order_due_le [OF assms(1-3)]) (use member in \<open>auto simp: set_any_order_states\<close>)
  moreover have "sum_list (map ?v left) + anchor_value p + ec_fee ?c \<le> order_due p ordered path"
  proof (cases "p_fee_split p")
    case Equal
    have "length (p_exits p) = Suc (length path)" using any_order_facts(1,2) [OF assms(1,2)] path(2) by simp
    hence "(\<Sum>k = length path..<length (p_exits p). ec_fee (exit_costs p ! k) + anchor_value p) = ec_fee ?c + anchor_value p"
      by simp
    thus ?thesis using Equal sum_left by (simp add: order_due_def)
  next
    case ByExit
    have "ec_fee ?c + anchor_value p \<le> 2 * ?per" using div_ceil_bounds(1) [of 2 "ec_fee ?c + anchor_value p"] by simp
    moreover have "sum_list (map (\<lambda>a. a - ?per) (map ((!) ordered) left)) + length (map ((!) ordered) left) * ?per = sum_list (map ((!) ordered) left)"
    proof (rule sum_list_cut)
      fix a assume "a \<in> set (map ((!) ordered) left)"
      hence "a \<in> set ordered" using set_left(1) len by auto
      from payouts_fit_bounds(1) [OF assms(1,3) this] per_payout_le_worst [OF ByExit assms(1) c(1)] c(2)
      show "?per \<le> a" by simp
    qed
    ultimately show ?thesis using ByExit sum_left card by (simp add: order_due_def comp_def)
  qed
  ultimately have due: "sum_list (map ?v left) + anchor_value p + ec_fee ?c \<le> order_value p ordered path" by simp
  have "order_value p ordered path \<le> u64_max"
    using pool_zero_exact(2) [OF assms(1,3) exit_share_chain [OF assms(1)] refl] assms(2)
    by (auto simp: order_value_def intro: order_trans [OF diff_le_self])
  hence sum: "wrap_add64 (wrap_sum64 (map ?v left)) (anchor_value p) = sum_list (map ?v left) + anchor_value p"
    using due by (simp add: wrap_sum64_exact wrap_add64_exact)
  let ?q = "\<lparr>ep_from = k, ep_outs = map (\<lambda>i. Payout i (?v i)) left,
    ep_fee = order_value p ordered path - (sum_list (map ?v left) + anchor_value p),
    ep_weight = ec_weight ?c, ep_rate_milli = ec_rate_milli ?c, ep_depth = length path\<rparr>"
  have "any_order_last p ordered ?c k path left (pools, plans) = Ok (pools, plans @ [?q])"
    unfolding any_order_last_def Let_def prod.case wrap outs using len k by (simp add: here comp_def sum)
  moreover have "plan_funded (anchor_value p) (map (order_value p ordered) ?S) ?q"
    using k path due by (simp add: plan_funded_def outs_match_def list_all_iff comp_def)
  moreover have "pays_rate ?q" using exit_costs_fee [of p] c(1) due by (auto simp: pays_rate_def list_all_iff)
  ultimately show ?thesis using assms(9) by (auto simp: plans_good_def)
qed

lemma state_ok:
  assumes "validate p = Ok ()" and "p_structure p = AnyOrder" and "payouts_fit p ordered"
    and k: "k < length (any_order_states (p_peers p))" and "values_done p ordered k [] pools" and "plans_good p ordered plans"
  shows "\<exists>pools' plans'. any_order_state p ordered (any_order_states (p_peers p)) (k, any_order_states (p_peers p) ! k) (pools, plans) =
      Ok (pools', plans') \<and> values_done p ordered (Suc k) [] pools' \<and> plans_good p ordered plans'"
proof -
  let ?S = "any_order_states (p_peers p)"
  define path where "path = ?S ! k"
  define left where "left = filter (\<lambda>i. i \<notin> set path) [0..<p_peers p]"
  have "path \<in> set ?S" using k path_def by simp
  hence path: "length path \<le> p_peers p - 2" "distinct path" "set path \<subseteq> {0..<p_peers p}" by (auto simp: set_any_order_states)
  have "card (set left) = p_peers p - length path"
  proof -
    have "set left = {0..<p_peers p} - set path" by (auto simp: left_def)
    thus ?thesis using path by (simp add: card_Diff_subset distinct_card)
  qed
  moreover have "distinct left" by (simp add: left_def)
  ultimately have card: "length left = p_peers p - length path" by (metis distinct_card)
  have peers: "3 \<le> p_peers p" "length path < length (exit_costs p)" using any_order_facts(1,2) [OF assms(1,2)] path(1) by auto
  show ?thesis
  proof (cases "length path < p_peers p - 2")
    case True
    let ?P = "\<lambda>j (pools, plans). values_done p ordered k (take j left) pools \<and> plans_good p ordered plans"
    have "\<exists>acc. fold_ok (any_order_leave p ordered ?S (exit_costs p ! length path) k path) left (pools, plans) = Ok acc \<and> ?P (length left) acc"
    proof (rule fold_ok_inv)
      fix j acc assume j: "j < length left" and P: "?P j acc"
      obtain pools1 plans1 where acc: "acc = (pools1, plans1)" by (cases acc)
      have "left ! j \<in> set left" using j by simp
      hence i: "left ! j < p_peers p" "left ! j \<notin> set path" by (auto simp: left_def)
      from leave_ok [OF assms(1-3) k path_def True i] P acc
      show "\<exists>acc'. any_order_leave p ordered ?S (exit_costs p ! length path) k path (left ! j) acc = Ok acc' \<and> ?P (Suc j) acc'"
        using j by (fastforce simp: take_Suc_conv_app_nth)
    qed (use assms(5,6) in simp)
    then obtain pools' plans' where run:
      "fold_ok (any_order_leave p ordered ?S (exit_costs p ! length path) k path) left (pools, plans) = Ok (pools', plans')"
      "values_done p ordered k left pools'" "plans_good p ordered plans'" by auto
    have "values_done p ordered (Suc k) [] pools'"
      by (rule values_done_next [OF _ k]) (use run(2) in \<open>simp add: left_def path_def\<close>)
    moreover have "3 \<le> length left" using True card by simp
    ultimately show ?thesis using run peers(2) unfolding path_def [symmetric]
      by (simp add: any_order_state_def Let_def flip: left_def)
  next
    case False
    hence eq: "length path = p_peers p - 2" using path(1) by simp
    from last_ok [OF assms(1-3) k path_def eq left_def assms(5,6)] obtain plans' where run:
      "any_order_last p ordered (exit_costs p ! length path) k path left (pools, plans) = Ok (pools, plans')"
      "plans_good p ordered plans'" by blast
    have "?S ! t \<noteq> path @ [i]" if "t < length ?S" for t i
    proof
      assume "?S ! t = path @ [i]"
      hence "path @ [i] \<in> set ?S" using that by (metis nth_mem)
      thus False using eq by (simp add: set_any_order_states)
    qed
    hence "values_done p ordered k left pools" using assms(5) by (simp add: values_done_def Let_def path_def)
    hence "values_done p ordered (Suc k) [] pools"
      by (intro values_done_next [OF _ k]) (simp add: left_def path_def)
    moreover have "\<not> 3 \<le> length left" using card eq peers(1) by simp
    ultimately show ?thesis using run peers(2) unfolding path_def [symmetric]
      by (simp add: any_order_state_def Let_def flip: left_def)
  qed
qed

text \<open>The plans are linked: a state is made by the plan of the state its last payout left.\<close>

definition orders_linked :: "params \<Rightarrow> nat \<Rightarrow> nat list \<Rightarrow> exit_plan list \<Rightarrow> bool" where
  "orders_linked p k left plans =
     (let states = any_order_states (p_peers p); made = insert 0 (\<Union> (pool_indices ` set plans))
      in linked {0} plans \<and> list_all (positions_below (p_peers p)) plans \<and>
         (\<forall>t<length states. states ! t \<noteq> [] \<longrightarrow>
            (\<exists>s<k. states ! s = butlast (states ! t)) \<or> (\<exists>i\<in>set left. states ! t = states ! k @ [i]) \<longrightarrow> t \<in> made))"

lemma orders_linked_here:
  assumes "orders_linked p k left plans" and "k < length (any_order_states (p_peers p))"
  shows "k \<in> insert 0 (\<Union> (pool_indices ` set plans))"
proof (cases "any_order_states (p_peers p) ! k = []")
  case True
  have "any_order_states (p_peers p) ! 0 = []" "0 < length (any_order_states (p_peers p))" by (simp_all add: any_order_states_def)
  with True have "k = 0" using nth_eq_iff_index_eq [OF distinct_any_order_states assms(2), of 0] by simp
  thus ?thesis by simp
next
  case False
  let ?S = "any_order_states (p_peers p)"
  from butlast_state [OF assms(2) False] obtain s where "s < k" "?S ! s = butlast (?S ! k)" by blast
  with assms False show ?thesis unfolding orders_linked_def Let_def by blast
qed

lemma leave_linked:
  assumes "orders_linked p k left plans" and "k < length (any_order_states (p_peers p))" and "i < p_peers p"
    and "any_order_leave p ordered (any_order_states (p_peers p)) c k (any_order_states (p_peers p) ! k) i (pools, plans) = Ok (pools', plans')"
  shows "orders_linked p k (left @ [i]) plans'"
proof -
  let ?S = "any_order_states (p_peers p)"
  obtain t v after where t: "position (\<lambda>s. s = ?S ! k @ [i]) ?S = Some t" and plans': "plans' = plans @
      [\<lparr>ep_from = k, ep_outs = [Payout i v, Pool t after], ep_fee = ec_fee c, ep_weight = ec_weight c, ep_rate_milli = ec_rate_milli c,
        ep_depth = length (?S ! k)\<rparr>]"
    using assms(4) by (auto simp: any_order_leave_def Let_def at_Ok some_or_abort_Ok)
  have "u = t" if "u < length ?S" "?S ! u = ?S ! k @ [i]" for u
    using that position_Some [OF t] nth_eq_iff_index_eq [OF distinct_any_order_states that(1), of t] by simp
  with assms(1,3) orders_linked_here [OF assms(1,2)] show ?thesis
    by (auto simp: orders_linked_def Let_def plans' linked_append pool_indices_def positions_below_def payout_positions_def map_filter_simps)
qed

lemma last_outs:
  assumes "any_order_last p ordered c k path left (pools, plans) = Ok (pools', plans')" and "set left \<subseteq> {0..<n}"
  shows "\<exists>q. plans' = plans @ [q] \<and> ep_from q = k \<and> pool_indices q = {} \<and> positions_below n q"
proof -
  let ?f = "\<lambda>per i. at ordered i (\<lambda>a. Ok (Payout i (case p_fee_split p of Equal \<Rightarrow> a | ByExit \<Rightarrow> a - per)))"
  have refs: "List.map_filter (\<lambda>out. case out of Pool i _ \<Rightarrow> Some i | Payout _ _ \<Rightarrow> None) outs = [] \<and>
      List.map_filter (\<lambda>out. case out of Payout i _ \<Rightarrow> Some i | Pool _ _ \<Rightarrow> None) outs = left"
    if "collect_ok (?f per) left = Ok outs" for per outs
  proof -
    from that have "list_all2 (\<lambda>i out. ?f per i = Ok out) left outs" by (simp add: collect_ok_Ok)
    thus ?thesis by (induction rule: list_all2_induct) (auto simp: map_filter_simps at_Ok)
  qed
  from assms(1) obtain per outs q where "collect_ok (?f per) left = Ok outs" "plans' = plans @ [q]" "ep_outs q = outs" "ep_from q = k"
    by (auto simp: any_order_last_def Let_def and_then_Ok at_Ok)
  with refs assms(2) show ?thesis by (auto simp: pool_indices_def positions_below_def payout_positions_def)
qed

lemma orders_linked_next:
  assumes "orders_linked p k (filter (\<lambda>i. i \<notin> set (any_order_states (p_peers p) ! k)) [0..<p_peers p]) plans"
    and "k < length (any_order_states (p_peers p))"
  shows "orders_linked p (Suc k) [] plans"
  using assms(1) child_of_state [of _ "p_peers p" k] by (auto simp: orders_linked_def Let_def less_Suc_eq)

lemma state_linked:
  assumes "orders_linked p k [] plans" and k: "k < length (any_order_states (p_peers p))"
    and "any_order_state p ordered (any_order_states (p_peers p)) (k, any_order_states (p_peers p) ! k) (pools, plans) = Ok (pools', plans')"
  shows "orders_linked p (Suc k) [] plans'"
proof -
  let ?S = "any_order_states (p_peers p)" and ?path = "any_order_states (p_peers p) ! k"
  define left where "left = filter (\<lambda>i. i \<notin> set ?path) [0..<p_peers p]"
  let ?P = "\<lambda>j (pools, plans). orders_linked p k (take j left) plans"
  have "orders_linked p k left plans'"
  proof (cases "3 \<le> length left")
    case True
    with assms(3) obtain c where
      run: "fold_ok (any_order_leave p ordered ?S c k ?path) left (pools, plans) = Ok (pools', plans')"
      by (auto simp: any_order_state_def Let_def left_def at_Ok)
    have "?P (length left) (pools', plans')"
    proof (rule fold_ok_keeps [OF run])
      fix j s s' assume j: "j < length left" and P: "?P j s"
        and turn: "any_order_leave p ordered ?S c k ?path (left ! j) s = Ok s'"
      have "left ! j \<in> set left" using j by simp
      hence "left ! j < p_peers p" by (simp add: left_def)
      with leave_linked [of p k "take j left" "snd s" "left ! j" ordered c "fst s" "fst s'" "snd s'"] P turn k
      show "?P (Suc j) s'" by (auto simp: case_prod_unfold take_Suc_conv_app_nth [OF j])
    qed (use assms(1) in simp)
    thus ?thesis by simp
  next
    case False
    with assms(3) obtain c where last: "any_order_last p ordered c k ?path left (pools, plans) = Ok (pools', plans')"
      by (auto simp: any_order_state_def Let_def left_def at_Ok)
    have "set left \<subseteq> {0..<p_peers p}" by (auto simp: left_def)
    from last_outs [OF last this] obtain q where q: "plans' = plans @ [q]" "ep_from q = k" "pool_indices q = {}" "positions_below (p_peers p) q"
      by blast
    have short: "\<not> (\<exists>t<length ?S. \<exists>i. ?S ! t = ?path @ [i])"
    proof
      assume "\<exists>t<length ?S. \<exists>i. ?S ! t = ?path @ [i]"
      then obtain i where "?path @ [i] \<in> set ?S" by (metis nth_mem)
      hence i: "distinct (?path @ [i])" "set (?path @ [i]) \<subseteq> {0..<p_peers p}" "length ?path < p_peers p - 2"
        by (auto simp: set_any_order_states)
      have "length left = card ({0..<p_peers p} - set ?path)"
        by (simp add: left_def distinct_length_filter Int_def set_diff_eq conj_commute)
      also have "\<dots> = p_peers p - length ?path" using i(1,2) by (subst card_Diff_subset) (auto simp: distinct_card)
      finally show False using i(3) False by simp
    qed
    thus ?thesis using assms(1) q orders_linked_here [OF assms(1) k]
      by (auto simp: orders_linked_def Let_def linked_append)
  qed
  thus ?thesis unfolding left_def by (rule orders_linked_next) (rule k)
qed

lemma any_order_set_funded:
  assumes "validate p = Ok ()" and "payouts_fit p ordered" and "p_structure p = AnyOrder"
  shows "\<exists>es. any_order_set p ordered = Ok es \<and> set_funded p ordered es"
proof -
  let ?S = "any_order_states (p_peers p)"
  have tree: "p_structure p \<noteq> Tree" using assms(3) by simp
  note share = exit_share_chain [OF assms(1) tree]
  note zero = pool_zero_exact [OF assms(1,2) share refl]
  have hd: "?S ! 0 = []" "0 < length ?S" by (simp_all add: any_order_states_def)
  let ?start = "(replicate (length ?S) 0)[0 := pool_zero p ordered]"
  let ?P = "\<lambda>k (pools, plans). values_done p ordered k [] pools \<and> plans_good p ordered plans"
  have "\<exists>acc. fold_ok (any_order_state p ordered ?S) (enumerate 0 ?S) (?start, []) = Ok acc \<and> ?P (length (enumerate 0 ?S)) acc"
  proof (rule fold_ok_inv)
    fix k acc assume k: "k < length (enumerate 0 ?S)" and P: "?P k acc"
    obtain pools plans where acc: "acc = (pools, plans)" by (cases acc)
    from state_ok [OF assms(1,3,2), of k pools plans] k P acc
    show "\<exists>acc'. any_order_state p ordered ?S (enumerate 0 ?S ! k) acc = Ok acc' \<and> ?P (Suc k) acc'"
      by (auto simp: nth_enumerate_eq)
  next
    have "t = 0" if "t < length ?S" "?S ! t = []" for t
      using that hd nth_eq_iff_index_eq [OF distinct_any_order_states that(1) hd(2)] by simp
    hence "?start ! t = order_value p ordered (?S ! t)" if "t < length ?S" "?S ! t = []" for t
      using that hd(2) by (metis length_replicate nth_list_update_eq order_value_Nil)
    thus "?P 0 (?start, [])" by (simp add: values_done_def plans_good_def Let_def)
  qed
  then obtain pools plans where run:
    "fold_ok (any_order_state p ordered ?S) (enumerate 0 ?S) (?start, []) = Ok (pools, plans)"
    "values_done p ordered (length ?S) [] pools" "plans_good p ordered plans" by auto
  have len: "length pools = length ?S" using run(2) by (simp add: values_done_def Let_def)
  have "pools = map (order_value p ordered) ?S"
  proof (rule nth_equalityI)
    fix t assume t: "t < length pools"
    show "pools ! t = map (order_value p ordered) ?S ! t"
      using values_done_before [OF run(2), of t] t len by simp
  qed (simp add: len)
  moreover have "wrap_add64 (wrap_sum64 ordered) (wrap_mul64 (p_peers p) (case p_fee_split p of Equal \<Rightarrow> div_ceil (exits_total p) (p_peers p) | ByExit \<Rightarrow> 0)) =
      pool_zero p ordered" by (rule zero(3))
  moreover have "orders_linked p (length (enumerate 0 ?S)) [] (snd (pools, plans))"
  proof (rule fold_ok_keeps [OF run(1), where P = "\<lambda>k s. orders_linked p k [] (snd s)"])
    fix k s s' assume "k < length (enumerate 0 ?S)" "orders_linked p k [] (snd s)" "any_order_state p ordered ?S (enumerate 0 ?S ! k) s = Ok s'"
    with state_linked [of p k "snd s" ordered "fst s" "fst s'" "snd s'"] show "orders_linked p (Suc k) [] (snd s')"
      by (simp add: nth_enumerate_eq)
  qed (simp add: orders_linked_def Let_def)
  hence "linked {0} plans" "list_all (positions_below (p_peers p)) plans" by (simp_all add: orders_linked_def Let_def)
  ultimately show ?thesis using run hd share assms(2)
    by (auto simp: any_order_set_def set_funded_def plans_good_def list_all_iff Let_def pool_zero_def payouts_fit_def)
qed

lemma exit_set_funded:
  assumes "validate p = Ok ()" and "payouts_fit p ordered"
  shows "\<exists>es. exit_set_of p ordered = Ok es \<and> set_funded p ordered es"
  using chain_set_funded [OF assms] tree_set_funded [OF assms] any_order_set_funded [OF assms]
  by (cases "p_structure p") (auto simp: exit_set_of_def)

section \<open>Properties\<close>

text \<open>C6: every pre-signed exit of a pool is funded. For parameters that pass the validation and one payout per peer of its
  classes, the amounts of the exits are computed without a panic, an endless loop or a wrapped sum for each of the three
  structures; the pool output of the funding holds the payouts and every peer's share, and every exit spends exactly what
  it pays, the anchor and its fee, which is at least its fee rate; every pool output it makes is worth what its own exit
  expects; and it spends a pool output that the funding or an earlier exit makes.\<close>

theorem every_exit_is_funded:
  assumes "validate p = Ok ()" and "payouts_fit p ordered"
  shows "\<exists>es. exit_set_of p ordered = Ok es \<and> set_funded p ordered es"
  by (rule exit_set_funded [OF assms])

theorem every_exit_is_funded_witness:
  "\<exists>es. exit_set_of (new_params ''ab'' 100000 3 2000) [100000, 100000, 100000] = Ok es \<and>
     set_funded (new_params ''ab'' 100000 3 2000) [100000, 100000, 100000] es"
proof (rule every_exit_is_funded)
  show "validate (new_params ''ab'' 100000 3 2000) = Ok ()"
    by (simp add: validate_def new_params_def with_classes_def default_exits_def worst_cut_def pool_consts Let_def)
  show "payouts_fit (new_params ''ab'' 100000 3 2000) [100000, 100000, 100000]"
    by (simp add: payouts_fit_def new_params_def with_classes_def Let_def)
qed

text \<open>C38: the loop that splits the payouts of a tree returns exactly for two or more payouts; then its nodes refer to
  every node but the root once, always to a later one, and to every payout once.\<close>

theorem tree_nodes_returns:
  "(if 2 \<le> peers then \<exists>nodes. tree_nodes peers = Some nodes \<and> tree_wf peers nodes else tree_nodes peers = None)"
  using tree_nodes_wf [of peers] tree_nodes_none [of peers] by simp

end
