(* ===== verification/Pool_Build.thy ===== *)
theory Pool_Build
  imports Pool_Orders "HOL-Library.Product_Lexorder"
begin

text \<open>
  The transactions of a coin pool (\<open>patches/joinstr-v2/src/pool.rs\<close>): the registrations of its inputs and their
  checks, the funding transaction and the pre-signed exits built from them, and the checks made on a built pool. The
  scripts of the pool outputs, which come from the aggregated keys, are an argument.
\<close>

section \<open>What a peer contributes\<close>

definition witness_program :: "script_buf \<Rightarrow> bool" where
  "witness_program s =
     (4 \<le> length s \<and> length s \<le> 42 \<and> 2 \<le> s ! 1 \<and> s ! 1 \<le> 40 \<and> length s - 2 = unat (s ! 1) \<and>
      (s ! 0 = 0 \<or> 0x51 \<le> s ! 0 \<and> s ! 0 \<le> 0x60))"

definition is_op_return :: "script_buf \<Rightarrow> bool" where
  "is_op_return s = (case s of [] \<Rightarrow> False | b # _ \<Rightarrow> b = 0x6a)"

text \<open>The least value nodes relay, at three satoshis per byte of the output and of the input that spends it.\<close>

definition minimal_non_dust :: "script_buf \<Rightarrow> nat" where
  "minimal_non_dust s =
     3000 * (if is_op_return s then 0
             else if witness_program s then 32 + 4 + 1 + 107 div 4 + 4 + 8 + (compact_size_len (length s) + length s)
             else 32 + 4 + 1 + 107 + 4 + 8 + (compact_size_len (length s) + length s)) div 1000"

definition dust_limit :: "script_buf \<Rightarrow> nat" where
  "dust_limit spk = minimal_non_dust spk"

definition p2a_script :: script_buf where
  "p2a_script = [0x51, 0x02, 0x4e, 0x73]"

definition funding_fee :: "params \<Rightarrow> txout list \<Rightarrow> txout option \<Rightarrow> nat outcome" where
  "funding_fee p inputs change =
     div_ceil_or_abort SHARED_WEIGHT (p_peers p) (\<lambda>weight.
       and_then (fold_ok (\<lambda>i weight. and_then (pool_input_weight (to_script i)) (\<lambda>w. Ok (wrap_add64 weight w))) inputs weight)
         (\<lambda>weight.
           let weight = (case change of Some c \<Rightarrow> wrap_add64 weight (txout_weight (to_script c)) | None \<Rightarrow> weight)
           in Ok (pool_fee weight (p_fee_rate_milli p))))"

definition required :: "params \<Rightarrow> nat \<Rightarrow> txout list \<Rightarrow> txout option \<Rightarrow> nat outcome" where
  "required p amount inputs change =
     and_then (exit_share p) (\<lambda>share.
       and_then (funding_fee p inputs change) (\<lambda>fee. Ok (wrap_add64 (wrap_add64 amount share) fee)))"

record input_registration =
  ir_session :: hash256
  ir_amount :: nat
  ir_musig :: bytes
  ir_ring :: bytes
  ir_inputs :: "(outpoint \<times> txout) list"
  ir_change :: "txout option"
  ir_height :: u32

definition input_total :: "input_registration \<Rightarrow> nat" where
  "input_total r = wrap_sum64 (map (\<lambda>(op, out). to_value out) (ir_inputs r))"

definition contribution :: "input_registration \<Rightarrow> nat" where
  "contribution r = wrap_sub64 (input_total r) (case ir_change r of None \<Rightarrow> 0 | Some c \<Rightarrow> to_value c)"

definition prevouts :: "input_registration \<Rightarrow> txout list" where
  "prevouts r = map snd (ir_inputs r)"

section \<open>The registrations together\<close>

record reg_sets =
  rs_sessions :: "hash256 set"
  rs_keys :: "bytes set"
  rs_outpoints :: "outpoint set"
  rs_scripts :: "script_buf set"

definition check_input :: "outpoint \<times> txout \<Rightarrow> reg_sets \<Rightarrow> reg_sets outcome" where
  "check_input i s =
     (case i of (op, out) \<Rightarrow>
       ensure (op \<notin> rs_outpoints s) ''input registered twice'' (
       ensure (to_value out \<le> MAX_MONEY_SAT) ''input is larger than all bitcoin'' (
       and_then (pool_input_weight (to_script out)) (\<lambda>_.
       Ok (s\<lparr>rs_outpoints := insert op (rs_outpoints s)\<rparr>)))))"

definition check_change :: "input_registration \<Rightarrow> reg_sets \<Rightarrow> reg_sets outcome" where
  "check_change r s =
     (case ir_change r of
        None \<Rightarrow> Ok s
      | Some c \<Rightarrow>
          ensure (to_value c \<le> MAX_MONEY_SAT) ''change larger than all bitcoin'' (
          ensure (to_script c \<notin> rs_scripts s) ''duplicate change script'' (
          ensure (dust_limit (to_script c) \<le> to_value c) ''dust change'' (
          ensure (to_value c \<le> input_total r) ''change larger than inputs'' (
          Ok (s\<lparr>rs_scripts := insert (to_script c) (rs_scripts s)\<rparr>))))))"

definition check_registration :: "params \<Rightarrow> input_registration \<Rightarrow> reg_sets \<Rightarrow> reg_sets outcome" where
  "check_registration p r s =
     ensure (class_of p (ir_amount r) \<noteq> None) ''unknown denomination'' (
     ensure (ir_session r \<notin> rs_sessions s) ''duplicate session key'' (
     ensure (ir_musig r \<notin> rs_keys s) ''duplicate musig key'' (
     let s = s\<lparr>rs_sessions := insert (ir_session r) (rs_sessions s), rs_keys := insert (ir_musig r) (rs_keys s)\<rparr> in
     ensure (ir_ring r \<notin> rs_keys s) ''duplicate ring key'' (
     let s = s\<lparr>rs_keys := insert (ir_ring r) (rs_keys s)\<rparr> in
     ensure (ir_inputs r \<noteq> []) ''registration without inputs'' (
     ensure (length (ir_inputs r) \<le> MAX_INPUTS_PER_PEER) ''too many inputs from one peer'' (
     and_then (fold_ok check_input (ir_inputs r) s) (\<lambda>s.
     and_then (check_change r s) (\<lambda>s.
     and_then (required p (ir_amount r) (prevouts r) (ir_change r)) (\<lambda>need.
     ensure (need \<le> input_total r \<and> need \<le> contribution r) ''a peer contributes too little'' (
     Ok s))))))))))"

definition check_input_registrations :: "params \<Rightarrow> input_registration list \<Rightarrow> unit outcome" where
  "check_input_registrations p regs =
     ensure (length regs = p_peers p) ''wrong number of registrations'' (
     ensure (list_all (\<lambda>c. length (filter (\<lambda>r. ir_amount r = cls_amount c) regs) = cls_peers c) (p_classes p))
       ''a denomination needs other peers'' (
     and_then (fold_ok (check_registration p) regs \<lparr>rs_sessions = {}, rs_keys = {}, rs_outpoints = {}, rs_scripts = {}\<rparr>)
       (\<lambda>_. Ok ())))"

definition locktime :: "input_registration list \<Rightarrow> u32" where
  "locktime regs = (case regs of [] \<Rightarrow> 0 | r # rest \<Rightarrow> fold (\<lambda>r h. min (ir_height r) h) rest (ir_height r))"

section \<open>The transactions\<close>

record exit_link =
  el_from :: nat
  el_to :: "(nat \<times> nat) list"
  el_pays :: "(nat \<times> nat) list"
  el_depth :: nat

record pool_txs =
  pt_funding :: transaction
  pt_funding_prevouts :: "txout list"
  pt_pool_vout :: nat
  pt_exits :: "transaction list"
  pt_spent :: "txout list"
  pt_links :: "exit_link list"
  pt_payouts :: "script_buf list"
  pt_payout_amounts :: "nat list"

record pool_payout =
  po_script :: script_buf
  po_amount :: nat
  po_priority :: u8

definition order_key :: "sha256 \<Rightarrow> string \<Rightarrow> string \<Rightarrow> bytes \<Rightarrow> hash256" where
  "order_key sha tag pid data = tagged_hash sha tag [str_bytes pid, data]"

text \<open>Sorting by a key is stable; a higher priority comes first.\<close>

definition payout_order :: "sha256 \<Rightarrow> string \<Rightarrow> pool_payout list \<Rightarrow> pool_payout list" where
  "payout_order sha pid payouts =
     sort_key (\<lambda>p. (255 - po_priority p, order_key sha ''joinstr/v2/payout_order'' pid (po_script p))) payouts"

definition pool_txin :: "outpoint \<Rightarrow> txin" where
  "pool_txin op = \<lparr>previous_output = op, script_sig = [], ti_sequence = 0xfffffffd, ti_witness = []\<rparr>"

definition exit_output :: "(nat \<Rightarrow> script_buf outcome) \<Rightarrow> script_buf list \<Rightarrow> plan_out \<Rightarrow> txout outcome" where
  "exit_output spk order out =
     (case out of
        Payout pos v \<Rightarrow> at order pos (\<lambda>s. Ok \<lparr>to_value = v, to_script = s\<rparr>)
      | Pool i v \<Rightarrow> and_then (spk i) (\<lambda>s. Ok \<lparr>to_value = v, to_script = s\<rparr>))"

definition exit_outputs ::
  "sha256 \<Rightarrow> params \<Rightarrow> exit_plan \<Rightarrow> (nat \<Rightarrow> script_buf outcome) \<Rightarrow> script_buf list \<Rightarrow> nat \<Rightarrow> txout list outcome" where
  "exit_outputs sha p plan spk order k =
     and_then (collect_ok (exit_output spk order) (ep_outs plan)) (\<lambda>outputs.
       let outputs = outputs @ (if p_anchor p then [\<lparr>to_value = ANCHOR_VALUE, to_script = p2a_script\<rparr>] else [])
       in Ok (sort_key (\<lambda>out. tagged_hash sha ''joinstr/v2/exit_output_order''
                                [str_bytes (p_id p), u32_le_bytes k, ser_txout out]) outputs))"

definition vout_of :: "txout list \<Rightarrow> script_buf \<Rightarrow> nat outcome" where
  "vout_of outs s = some_or ''planned output missing'' (position (\<lambda>out. to_script out = s) outs) Ok"

definition link_out ::
  "txout list \<Rightarrow> (nat \<Rightarrow> script_buf outcome) \<Rightarrow> script_buf list \<Rightarrow> plan_out \<Rightarrow> (nat \<times> nat) list \<times> (nat \<times> nat) list \<Rightarrow>
   ((nat \<times> nat) list \<times> (nat \<times> nat) list) outcome" where
  "link_out outs spk order out acc =
     (case (out, acc) of
        (Payout pos v, (to, pays)) \<Rightarrow> at order pos (\<lambda>s. and_then (vout_of outs s) (\<lambda>n. Ok (to, pays @ [(pos, n)])))
      | (Pool i v, (to, pays)) \<Rightarrow> and_then (spk i) (\<lambda>s. and_then (vout_of outs s) (\<lambda>n. Ok (to @ [(i, n)], pays))))"

definition link_of ::
  "exit_plan \<Rightarrow> txout list \<Rightarrow> (nat \<Rightarrow> script_buf outcome) \<Rightarrow> script_buf list \<Rightarrow> exit_link outcome" where
  "link_of plan outs spk order =
     and_then (fold_ok (link_out outs spk order) (ep_outs plan) ([], [])) (\<lambda>(to, pays).
       Ok \<lparr>el_from = ep_from plan, el_to = to, el_pays = pays, el_depth = ep_depth plan\<rparr>)"

type_synonym created = "(outpoint \<times> txout) option list"

definition create_output :: "txid \<Rightarrow> transaction \<Rightarrow> nat \<times> nat \<Rightarrow> created \<Rightarrow> created outcome" where
  "create_output txid tx l made =
     (case l of (i, n) \<Rightarrow> at (tx_output tx) n (\<lambda>out.
        if i < length made then Ok (made[i := Some ((txid, of_nat n), out)]) else Abort))"

text \<open>The loop over the plans: each exit with the output it spends and its link.\<close>

fun build_exits ::
  "sha256 \<Rightarrow> params \<Rightarrow> (nat \<Rightarrow> script_buf outcome) \<Rightarrow> script_buf list \<Rightarrow> u32 \<Rightarrow> nat \<Rightarrow> exit_plan list \<Rightarrow> created \<Rightarrow>
   (transaction \<times> txout \<times> exit_link) list outcome" where
  "build_exits sha p spk order lock t [] made = Ok []"
| "build_exits sha p spk order lock t (plan # plans) made =
     at made (ep_from plan) (\<lambda>from.
     some_or ''an exit spends a pool output that is not built yet'' from (\<lambda>(prev, prev_out).
     and_then (exit_outputs sha p plan spk order (t + 1)) (\<lambda>outputs.
     and_then (link_of plan outputs spk order) (\<lambda>link.
     let tx = \<lparr>tx_version = 2, tx_lock_time = lock, tx_input = [pool_txin prev], tx_output = outputs\<rparr>
     in and_then (fold_ok (create_output (compute_txid sha tx) tx) (el_to link) made) (\<lambda>made.
        and_then (build_exits sha p spk order lock (t + 1) plans made) (\<lambda>rest.
        Ok ((tx, prev_out, link) # rest)))))))"

definition build ::
  "sha256 \<Rightarrow> params \<Rightarrow> input_registration list \<Rightarrow> pool_payout list \<Rightarrow> (nat \<Rightarrow> script_buf outcome) \<Rightarrow> pool_txs outcome" where
  "build sha p regs payouts spk =
     ensure (length regs = p_peers p \<and> length payouts = p_peers p) ''incomplete pool'' (
     some_or ''locktime'' (lock_time_from_height (locktime regs)) (\<lambda>lock.
     let ordered = payout_order sha (p_id p) payouts;
         payout_amounts = map po_amount ordered;
         order = map po_script ordered
     in and_then (exit_set_of p payout_amounts) (\<lambda>es.
     let inputs = sort_key (\<lambda>(op, out). order_key sha ''joinstr/v2/input_order'' (p_id p) (ser_outpoint op))
                    (concat (map ir_inputs regs))
     in and_then (spk 0) (\<lambda>pool_spk.
     at (es_pools es) 0 (\<lambda>pool_0.
     let outputs = sort_key (\<lambda>out. order_key sha ''joinstr/v2/output_order'' (p_id p) (ser_txout out))
                     (\<lparr>to_value = pool_0, to_script = pool_spk\<rparr> # List.map_filter ir_change regs)
     in some_or_abort (position (\<lambda>out. to_script out = pool_spk) outputs) (\<lambda>pool_vout.
     let funding = \<lparr>tx_version = 2, tx_lock_time = lock, tx_input = map (pool_txin \<circ> fst) inputs, tx_output = outputs\<rparr>
     in at outputs pool_vout (\<lambda>pool_out.
     let made = (replicate (length (es_pools es)) None)[0 := Some ((compute_txid sha funding, of_nat pool_vout), pool_out)]
     in and_then (build_exits sha p spk order lock 0 (es_plans es) made) (\<lambda>built.
     Ok \<lparr>pt_funding = funding, pt_funding_prevouts = map snd inputs, pt_pool_vout = pool_vout, pt_exits = map fst built,
         pt_spent = map (fst \<circ> snd) built, pt_links = map (snd \<circ> snd) built, pt_payouts = order,
         pt_payout_amounts = payout_amounts\<rparr>))))))))"

section \<open>The checks on a built pool\<close>

text \<open>A checked sum of the outputs' values.\<close>

definition sum_values :: "txout list \<Rightarrow> nat option" where
  "sum_values outs = foldl (\<lambda>a out. Option.bind a (\<lambda>a. checked_add64 a (to_value out))) (Some 0) outs"

type_synonym created_values = "(outpoint \<times> nat) option list"

definition create_value :: "txid \<Rightarrow> transaction \<Rightarrow> nat \<times> nat \<Rightarrow> created_values \<Rightarrow> created_values outcome" where
  "create_value txid tx l made =
     (case l of (i, n) \<Rightarrow>
        ensure (n < length (tx_output tx)) ''exit link names an output the exit does not have'' (
        ensure (i < length made) ''exit link names an unknown pool output'' (
        Ok (made[i := Some ((txid, of_nat n), to_value (tx_output tx ! n))]))))"

definition check_exit ::
  "sha256 \<Rightarrow> params \<Rightarrow> pool_txs \<Rightarrow> (nat \<Rightarrow> script_buf outcome) \<Rightarrow> nat \<times> transaction \<times> exit_plan \<Rightarrow> created_values \<Rightarrow>
   created_values outcome" where
  "check_exit sha p txs spk e made =
     (case e of (t, tx, plan) \<Rightarrow>
        some_or ''exit spends an unknown pool output'' (if ep_from plan < length made then made ! ep_from plan else None)
          (\<lambda>(prev, prev_value).
        ensure (length (tx_input tx) = 1 \<and> previous_output (hd (tx_input tx)) = prev) ''exit does not spend its pool output'' (
        at (pt_spent txs) t (\<lambda>spent.
        ensure (to_value spent = prev_value) ''exit spends the wrong amount'' (
        and_then (exit_outputs sha p plan spk (pt_payouts txs) (t + 1)) (\<lambda>expected.
        ensure (tx_output tx = expected) ''exit has the wrong outputs'' (
        at (pt_links txs) t (\<lambda>link.
        and_then (link_of plan expected spk (pt_payouts txs)) (\<lambda>expected_link.
        ensure (link = expected_link) ''exit is in the wrong place'' (
        some_or ''exit outputs overflow'' (sum_values (tx_output tx)) (\<lambda>out.
        ensure (checked_sub64 prev_value out = Some (ep_fee plan)) ''exit pays the wrong fee'' (
        fold_ok (create_value (compute_txid sha tx) tx) (el_to link) made))))))))))))"

definition check_txs :: "sha256 \<Rightarrow> params \<Rightarrow> pool_txs \<Rightarrow> (nat \<Rightarrow> script_buf outcome) \<Rightarrow> unit outcome" where
  "check_txs sha p txs spk =
     ensure (length (pt_payouts txs) = p_peers p) ''wrong number of payouts'' (
     ensure (length (pt_payout_amounts txs) = p_peers p) ''wrong number of payouts'' (
     ensure (card (set (pt_payouts txs)) = p_peers p) ''a payout is listed twice'' (
     ensure (list_all (\<lambda>c. length (filter (\<lambda>a. a = cls_amount c) (pt_payout_amounts txs)) = cls_peers c) (p_classes p))
       ''wrong number of payouts of a denomination'' (
     and_then (exit_set_of p (pt_payout_amounts txs)) (\<lambda>es.
     let outputs = tx_output (pt_funding txs)
     in ensure (pt_pool_vout txs < length outputs) ''the pool output index is outside the funding'' (
     let pool = outputs ! pt_pool_vout txs
     in and_then (spk 0) (\<lambda>pool_spk.
     ensure (to_script pool = pool_spk) ''funding pays the wrong pool key'' (
     at (es_pools es) 0 (\<lambda>pool_0.
     ensure (to_value pool = pool_0) ''pool output has the wrong value'' (
     ensure (list_all (\<lambda>i. script_sig i = []) (tx_input (pt_funding txs))) ''funding input with a script sig'' (
     some_or ''funding inputs overflow'' (sum_values (pt_funding_prevouts txs)) (\<lambda>total_in.
     some_or ''funding outputs overflow'' (sum_values outputs) (\<lambda>total_out.
     ensure (total_out < total_in) ''funding pays no fee'' (
     ensure (length (pt_exits txs) = length (es_plans es)) ''wrong number of exits'' (
     ensure (length (pt_spent txs) = length (pt_exits txs) \<and> length (pt_links txs) = length (pt_exits txs))
       ''wrong number of spent outputs or links'' (
     let made = (replicate (length (es_pools es)) None)
                  [0 := Some ((compute_txid sha (pt_funding txs), of_nat (pt_pool_vout txs)), to_value pool)]
     in and_then (fold_ok (check_exit sha p txs spk) (enumerate 0 (zip (pt_exits txs) (es_plans es))) made)
          (\<lambda>_. Ok ())))))))))))))))))"

section \<open>What the registration checks accept\<close>

definition input_fits :: "outpoint \<times> txout \<Rightarrow> bool" where
  "input_fits i = (to_value (snd i) \<le> MAX_MONEY_SAT \<and> (is_p2wpkh (to_script (snd i)) \<or> is_p2tr (to_script (snd i))))"

definition change_fits :: "input_registration \<Rightarrow> bool" where
  "change_fits r =
     (case ir_change r of
        None \<Rightarrow> True
      | Some c \<Rightarrow> to_value c \<le> MAX_MONEY_SAT \<and> dust_limit (to_script c) \<le> to_value c \<and> to_value c \<le> input_total r)"

definition reg_fits :: "params \<Rightarrow> input_registration \<Rightarrow> bool" where
  "reg_fits p r =
     (class_of p (ir_amount r) \<noteq> None \<and> ir_inputs r \<noteq> [] \<and> length (ir_inputs r) \<le> MAX_INPUTS_PER_PEER \<and>
      list_all input_fits (ir_inputs r) \<and> change_fits r \<and>
      (case required p (ir_amount r) (prevouts r) (ir_change r) of
         Ok need \<Rightarrow> need \<le> input_total r \<and> need \<le> contribution r
       | _ \<Rightarrow> False))"

definition reg_keys :: "input_registration \<Rightarrow> bytes list" where
  "reg_keys r = [ir_musig r, ir_ring r]"

definition reg_outpoints :: "input_registration \<Rightarrow> outpoint list" where
  "reg_outpoints r = map fst (ir_inputs r)"

definition reg_scripts :: "input_registration \<Rightarrow> script_buf list" where
  "reg_scripts r = (case ir_change r of None \<Rightarrow> [] | Some c \<Rightarrow> [to_script c])"

lemma input_weight_Ok: "pool_input_weight s = Ok w \<Longrightarrow> is_p2wpkh s \<or> is_p2tr s"
  by (auto simp: pool_input_weight_def split: if_splits)

lemma input_weight_exists: "is_p2wpkh s \<or> is_p2tr s \<Longrightarrow> \<exists>w. pool_input_weight s = Ok w \<and> w \<le> 272 \<and> 0 < w"
  by (auto simp: pool_input_weight_def)

lemma check_input_Ok:
  "check_input i s = Ok s' \<longleftrightarrow> fst i \<notin> rs_outpoints s \<and> input_fits i \<and> s' = s\<lparr>rs_outpoints := insert (fst i) (rs_outpoints s)\<rparr>"
  using input_weight_exists [of "to_script (snd i)"] input_weight_Ok [of "to_script (snd i)"]
  by (cases i) (auto simp: check_input_def input_fits_def and_then_Ok)

lemma check_inputs_Ok:
  "fold_ok check_input is s = Ok s' \<longleftrightarrow>
     distinct (map fst is) \<and> set (map fst is) \<inter> rs_outpoints s = {} \<and> list_all input_fits is \<and>
     s' = s\<lparr>rs_outpoints := set (map fst is) \<union> rs_outpoints s\<rparr>"
proof (induction "is" arbitrary: s)
  case (Cons i "is")
  show ?case by (auto simp: and_then_Ok Cons.IH check_input_Ok)
qed auto

lemma check_change_Ok:
  "check_change r s = Ok s' \<longleftrightarrow>
     change_fits r \<and> set (reg_scripts r) \<inter> rs_scripts s = {} \<and> s' = s\<lparr>rs_scripts := set (reg_scripts r) \<union> rs_scripts s\<rparr>"
  by (auto simp: check_change_def change_fits_def reg_scripts_def split: option.splits)

lemma check_registration_Ok:
  "check_registration p r s = Ok s' \<longleftrightarrow>
     reg_fits p r \<and> ir_session r \<notin> rs_sessions s \<and> distinct (reg_keys r) \<and> set (reg_keys r) \<inter> rs_keys s = {} \<and>
     distinct (reg_outpoints r) \<and> set (reg_outpoints r) \<inter> rs_outpoints s = {} \<and> set (reg_scripts r) \<inter> rs_scripts s = {} \<and>
     s' = \<lparr>rs_sessions = insert (ir_session r) (rs_sessions s), rs_keys = set (reg_keys r) \<union> rs_keys s,
           rs_outpoints = set (reg_outpoints r) \<union> rs_outpoints s, rs_scripts = set (reg_scripts r) \<union> rs_scripts s\<rparr>"
  by (cases s) (auto simp: check_registration_def Let_def and_then_Ok check_inputs_Ok check_change_Ok reg_fits_def reg_keys_def
    reg_outpoints_def split: outcome.splits)

text \<open>The set of registrations seen so far only rules out repetitions.\<close>

lemma check_registrations_Ok:
  "(\<exists>s'. fold_ok (check_registration p) regs s = Ok s') \<longleftrightarrow>
     list_all (reg_fits p) regs \<and> distinct (map ir_session regs) \<and> set (map ir_session regs) \<inter> rs_sessions s = {} \<and>
     distinct (concat (map reg_keys regs)) \<and> set (concat (map reg_keys regs)) \<inter> rs_keys s = {} \<and>
     distinct (concat (map reg_outpoints regs)) \<and> set (concat (map reg_outpoints regs)) \<inter> rs_outpoints s = {} \<and>
     distinct (concat (map reg_scripts regs)) \<and> set (concat (map reg_scripts regs)) \<inter> rs_scripts s = {}"
proof (induction regs arbitrary: s)
  case (Cons r regs)
  have one: "distinct (reg_scripts r)" by (simp add: reg_scripts_def split: option.splits)
  have step: "(\<exists>s'. fold_ok (check_registration p) (r # regs) s = Ok s') \<longleftrightarrow>
      (\<exists>s1. check_registration p r s = Ok s1 \<and> (\<exists>s'. fold_ok (check_registration p) regs s1 = Ok s'))"
    by (auto simp: and_then_Ok)
  show ?case unfolding step check_registration_Ok Cons.IH
    by (simp add: one Int_Un_distrib Int_Un_distrib2 Int_commute del: UN_simps) argo
qed simp

lemma registrations_accepted:
  "check_input_registrations p regs = Ok () \<longleftrightarrow>
     length regs = p_peers p \<and>
     list_all (\<lambda>c. length (filter (\<lambda>r. ir_amount r = cls_amount c) regs) = cls_peers c) (p_classes p) \<and>
     list_all (reg_fits p) regs \<and> distinct (map ir_session regs) \<and> distinct (concat (map reg_keys regs)) \<and>
     distinct (concat (map reg_outpoints regs)) \<and> distinct (concat (map reg_scripts regs))"
  using check_registrations_Ok [of p regs "\<lparr>rs_sessions = {}, rs_keys = {}, rs_outpoints = {}, rs_scripts = {}\<rparr>"]
  by (auto simp: check_input_registrations_def and_then_Ok)

section \<open>What a registration covers\<close>

lemma share_small:
  assumes "validate p = Ok ()"
  shows "\<exists>share. exit_share p = Ok share \<and> share \<le> 25000024100"
proof (cases "p_structure p = Tree")
  case True
  obtain nodes where nodes: "tree_nodes (p_peers p) = Some nodes" "tree_wf (p_peers p) nodes"
    using tree_nodes_wf validate_facts(1) [OF assms] by blast
  have "div_ceil (tree_total p nodes) (p_peers p) \<le> tree_total p nodes" by (rule div_ceil_le) (use validate_facts(1) [OF assms] in simp)
  with exit_share_tree [OF assms True nodes] tree_total_le(2) [OF assms nodes(2)] show ?thesis by auto
next
  case False
  have "div_ceil (exits_total p) (p_peers p) \<le> exits_total p" by (rule div_ceil_le) (use validate_facts(1) [OF assms] in simp)
  with exit_share_chain [OF assms False] exits_total_le [OF assms] show ?thesis by (auto split: fee_split.splits)
qed

text \<open>No byte string in memory has more than \<open>2\<^sup>3\<^sup>1\<close> bytes.\<close>

definition change_short :: "input_registration \<Rightarrow> bool" where
  "change_short r = (case ir_change r of None \<Rightarrow> True | Some c \<Rightarrow> length (to_script c) < 2147483648)"

lemma input_weights:
  assumes "list_all (\<lambda>i. is_p2wpkh (to_script i) \<or> is_p2tr (to_script i)) is" and "w + 272 * length is \<le> u64_max"
  shows "\<exists>w'. fold_ok (\<lambda>i weight. and_then (pool_input_weight (to_script i)) (\<lambda>w. Ok (wrap_add64 weight w))) is w = Ok w' \<and>
     w \<le> w' \<and> w' \<le> w + 272 * length is"
  using assms
proof (induction "is" arbitrary: w)
  case (Cons i "is")
  from Cons.prems input_weight_exists [of "to_script i"] obtain v where v: "pool_input_weight (to_script i) = Ok v" "v \<le> 272" by auto
  have add: "wrap_add64 w v = w + v" using v Cons.prems(2) by (intro wrap_add64_exact) simp
  from Cons.IH [of "w + v"] Cons.prems v obtain w' where
    "fold_ok (\<lambda>i weight. and_then (pool_input_weight (to_script i)) (\<lambda>w. Ok (wrap_add64 weight w))) is (w + v) = Ok w'"
    "w + v \<le> w'" "w' \<le> w + v + 272 * length is" by auto
  with v add show ?case by (intro exI [of _ w']) simp
qed simp

lemma funding_fee_positive:
  assumes "validate p = Ok ()" and "list_all (\<lambda>i. is_p2wpkh (to_script i) \<or> is_p2tr (to_script i)) is" and "length is \<le> 100"
    and "case c of None \<Rightarrow> True | Some c \<Rightarrow> length (to_script c) < 2147483648"
  shows "\<exists>fee. funding_fee p is c = Ok fee \<and> 0 < fee \<and> fee \<le> 2500000000000"
proof -
  note v = validate_facts [OF assms(1)]
  define w0 where "w0 = div_ceil SHARED_WEIGHT (p_peers p)"
  have w0: "0 < w0" "w0 \<le> 214" using v(1,2) div_ceil_le [of "p_peers p" SHARED_WEIGHT] div_ceil_bounds(1) [of "p_peers p" SHARED_WEIGHT]
    by (auto simp: w0_def SHARED_WEIGHT_def intro: Nat.gr0I)
  from input_weights [OF assms(2), of w0] w0 assms(3) obtain w where w: "w0 \<le> w" "w \<le> w0 + 272 * length is"
    "fold_ok (\<lambda>i weight. and_then (pool_input_weight (to_script i)) (\<lambda>w. Ok (wrap_add64 weight w))) is w0 = Ok w"
    by (auto simp: u64_max_def)
  define w' where "w' = (case c of Some c \<Rightarrow> wrap_add64 w (txout_weight (to_script c)) | None \<Rightarrow> w)"
  have small: "w \<le> 27414" using w w0 assms(3) by linarith
  have "wrap_add64 w (txout_weight s) = w + txout_weight s \<and> w + txout_weight s \<le> 9000000000" if "length s < 2147483648" for s :: script_buf
    using that small by (auto simp: txout_weight_def compact_size_len_def u64_max_def intro!: wrap_add64_exact)
  with small have w': "w \<le> w'" "w' \<le> 9000000000"
    using assms(4) by (auto simp: w'_def split: option.splits)
  have rate: "w' * p_fee_rate_milli p \<le> 9000000000 * 1000000" by (intro mult_le_mono) (use w' v(7) in auto)
  hence exact: "wrap_mul64 w' (p_fee_rate_milli p) = w' * p_fee_rate_milli p" by (intro wrap_mul64_exact) (simp add: u64_max_def)
  have "4000 \<le> 3999 + w' * p_fee_rate_milli p" using w w0 w' v(8) by simp
  hence "4000 div 4000 \<le> (3999 + w' * p_fee_rate_milli p) div 4000" by (rule div_le_mono)
  hence "0 < pool_fee w' (p_fee_rate_milli p)" "pool_fee w' (p_fee_rate_milli p) \<le> 2500000000000"
    using rate by (auto simp: pool_fee_def exact div_ceil_def add.commute)
  moreover have "funding_fee p is c = Ok (pool_fee w' (p_fee_rate_milli p))"
    using w(3) v(1) by (simp add: funding_fee_def w0_def w'_def Let_def cong: option.case_cong)
  ultimately show ?thesis by blast
qed

definition change_value :: "input_registration \<Rightarrow> nat" where
  "change_value r = (case ir_change r of None \<Rightarrow> 0 | Some c \<Rightarrow> to_value c)"

definition inputs_value :: "input_registration \<Rightarrow> nat" where
  "inputs_value r = sum_list (map (to_value \<circ> snd) (ir_inputs r))"

lemma reg_totals:
  assumes "reg_fits p r"
  shows "input_total r = inputs_value r" and "inputs_value r \<le> 210000000000000000" and "change_value r \<le> inputs_value r"
    and "contribution r = inputs_value r - change_value r"
proof -
  have "sum_list (map (to_value \<circ> snd) (ir_inputs r)) \<le> length (map (to_value \<circ> snd) (ir_inputs r)) * MAX_MONEY_SAT"
    by (rule sum_list_bound) (use assms in \<open>auto simp: reg_fits_def list_all_iff input_fits_def\<close>)
  also have "\<dots> \<le> 100 * MAX_MONEY_SAT" using assms by (simp add: reg_fits_def pool_consts)
  finally show le: "inputs_value r \<le> 210000000000000000" by (simp add: inputs_value_def pool_consts)
  have eq: "map (\<lambda>(op, out). to_value out) (ir_inputs r) = map (to_value \<circ> snd) (ir_inputs r)" by auto
  show total: "input_total r = inputs_value r"
    using le unfolding input_total_def eq inputs_value_def by (simp add: wrap_sum64_exact u64_max_def)
  show change: "change_value r \<le> inputs_value r"
    using assms total by (auto simp: reg_fits_def change_fits_def change_value_def split: option.splits)
  show "contribution r = inputs_value r - change_value r"
    using change le by (auto simp: contribution_def total change_value_def u64_max_def wrap_sub64_exact split: option.splits)
qed

lemma reg_amount: "reg_fits p r \<Longrightarrow> ir_amount r \<in> cls_amount ` set (p_classes p)"
  by (auto simp: reg_fits_def class_of_def find_None_iff image_iff simp del: not_None_eq dest: sym)

lemma reg_covers:
  assumes "validate p = Ok ()" and "reg_fits p r" and "change_short r" and "exit_share p = Ok share"
  shows "ir_amount r + share + change_value r < inputs_value r"
proof -
  have "list_all (\<lambda>i. is_p2wpkh (to_script i) \<or> is_p2tr (to_script i)) (prevouts r)" "length (prevouts r) \<le> 100"
    using assms(2) by (auto simp: reg_fits_def list_all_iff input_fits_def prevouts_def pool_consts)
  from funding_fee_positive [OF assms(1) this, of "ir_change r"] assms(3) obtain fee where
    fee: "funding_fee p (prevouts r) (ir_change r) = Ok fee" "0 < fee" "fee \<le> 2500000000000" by (auto simp: change_short_def)
  have share: "share \<le> 25000024100" using share_small [OF assms(1)] assms(4) by auto
  have "ir_amount r \<in> cls_amount ` set (p_classes p)" using assms(2) by (rule reg_amount)
  hence amount: "ir_amount r \<le> 2100000000000000" using validate_facts(11) [OF assms(1)] by auto
  have "required p (ir_amount r) (prevouts r) (ir_change r) = Ok (ir_amount r + share + fee)"
    using fee share amount by (simp add: required_def assms(4) wrap_add64_exact u64_max_def)
  hence "ir_amount r + share + fee \<le> contribution r" using assms(2) by (simp add: reg_fits_def)
  with fee(2) reg_totals [OF assms(2)] show ?thesis by simp
qed

text \<open>Two lists of amounts that each fill the classes hold the same amounts.\<close>

definition fills_classes :: "params \<Rightarrow> nat list \<Rightarrow> bool" where
  "fills_classes p amounts =
     (set amounts \<subseteq> cls_amount ` set (p_classes p) \<and> (\<forall>c\<in>set (p_classes p). count (mset amounts) (cls_amount c) = cls_peers c))"

lemma fills_classes_unique:
  assumes "fills_classes p as" and "fills_classes p bs"
  shows "mset as = mset bs"
proof (rule multiset_eqI)
  fix a
  show "count (mset as) a = count (mset bs) a"
  proof (cases "a \<in> cls_amount ` set (p_classes p)")
    case True
    with assms show ?thesis by (auto simp: fills_classes_def)
  next
    case False
    with assms have "a \<notin> set as" "a \<notin> set bs" by (auto simp: fills_classes_def)
    thus ?thesis by (metis in_multiset_in_set not_in_iff)
  qed
qed

lemma count_filter: "length (filter (\<lambda>x. f x = a) xs) = count (mset (map f xs)) a"
  by (induction xs) auto

lemma regs_fill_classes:
  assumes "check_input_registrations p regs = Ok ()"
  shows "fills_classes p (map ir_amount regs)"
proof -
  have "ir_amount r \<in> cls_amount ` set (p_classes p)" if "r \<in> set regs" for r
    using assms that by (intro reg_amount) (simp add: registrations_accepted list_all_iff)
  thus ?thesis using assms by (auto simp: fills_classes_def registrations_accepted list_all_iff count_filter)
qed

text \<open>The inputs hold the amounts, the shares and the change, and leave something for the fee.\<close>

lemma regs_cover:
  assumes "validate p = Ok ()" and "list_all (reg_fits p) regs" and "list_all change_short regs" and "exit_share p = Ok share"
  shows "sum_list (map ir_amount regs) + length regs * share + sum_list (map change_value regs) + length regs \<le> sum_list (map inputs_value regs)"
  using assms(2,3)
proof (induction regs)
  case (Cons r regs)
  with reg_covers [OF assms(1) _ _ assms(4), of r] show ?case by simp
qed simp

section \<open>Building and checking\<close>

lemma sum_list_sort_key [simp]: "sum_list (map f (sort_key g xs)) = sum_list (map f xs)" for f :: "'a \<Rightarrow> nat"
  by (metis mset_map mset_sort sum_mset_sum_list)

lemma sum_values_exact: "sum_list (map to_value outs) \<le> u64_max \<Longrightarrow> sum_values outs = Some (sum_list (map to_value outs))"
proof -
  have "a + sum_list (map to_value outs) \<le> u64_max \<Longrightarrow>
      foldl (\<lambda>a out. Option.bind a (\<lambda>a. checked_add64 a (to_value out))) (Some a) outs = Some (a + sum_list (map to_value outs))" for a
    by (induction outs arbitrary: a) (simp_all add: checked_add64_def add.assoc)
  from this [of 0] show "sum_list (map to_value outs) \<le> u64_max \<Longrightarrow> sum_values outs = Some (sum_list (map to_value outs))"
    by (simp add: sum_values_def)
qed

text \<open>The output of a planned payout or pool output when the script of pool output \<open>i\<close> is \<open>key i\<close>.\<close>

definition planned :: "(nat \<Rightarrow> script_buf) \<Rightarrow> script_buf list \<Rightarrow> plan_out \<Rightarrow> txout" where
  "planned key order out =
     \<lparr>to_value = plan_value out, to_script = (case out of Payout i _ \<Rightarrow> order ! i | Pool i _ \<Rightarrow> key i)\<rparr>"

definition anchor_outs :: "params \<Rightarrow> txout list" where
  "anchor_outs p = (if p_anchor p then [\<lparr>to_value = ANCHOR_VALUE, to_script = p2a_script\<rparr>] else [])"

text \<open>The scripts the pool's outputs get: derived for every pool output, different from each other, from the payouts'
  and from the anchor's.\<close>

definition keys_apart :: "(nat \<Rightarrow> script_buf outcome) \<Rightarrow> (nat \<Rightarrow> script_buf) \<Rightarrow> nat \<Rightarrow> script_buf list \<Rightarrow> bool" where
  "keys_apart spk key n order =
     ((\<forall>i<n. spk i = Ok (key i) \<and> key i \<notin> set order \<and> key i \<noteq> p2a_script) \<and> inj_on key {..<n})"

definition out_in_range :: "nat \<Rightarrow> nat \<Rightarrow> plan_out \<Rightarrow> bool" where
  "out_in_range n m out = (case out of Payout i _ \<Rightarrow> i < n | Pool i _ \<Rightarrow> i < m)"

lemma plan_in_range:
  assumes "plan_funded anchor pools q" and "positions_below n q"
  shows "list_all (out_in_range n (length pools)) (ep_outs q)"
proof -
  have "i \<in> set (payout_positions q)" if "Payout i v \<in> set (ep_outs q)" for i v
    using that by (force simp: payout_positions_def List.map_filter_def)
  moreover have "i < length pools" if "Pool i v \<in> set (ep_outs q)" for i v
    using assms(1) that by (force simp: plan_funded_def outs_match_def list_all_iff)
  ultimately show ?thesis using assms(2)
    by (fastforce simp: list_all_iff out_in_range_def positions_below_def split: plan_out.splits)
qed

lemma exit_outputs_planned:
  assumes "list_all (out_in_range n m) (ep_outs q)" and "length order = n" and "keys_apart spk key m order"
  shows "exit_outputs sha p q spk order k =
    Ok (sort_key (\<lambda>out. tagged_hash sha ''joinstr/v2/exit_output_order'' [str_bytes (p_id p), u32_le_bytes k, ser_txout out])
          (map (planned key order) (ep_outs q) @ anchor_outs p))"
proof -
  have "collect_ok (exit_output spk order) (ep_outs q) = Ok (map (planned key order) (ep_outs q))"
    by (rule collect_ok_map)
      (use assms in \<open>auto simp: list_all_iff out_in_range_def exit_output_def planned_def keys_apart_def split: plan_out.splits\<close>)
  thus ?thesis by (simp add: exit_outputs_def anchor_outs_def)
qed

text \<open>Each planned output is found again among the outputs of the exit.\<close>

lemma link_outs:
  assumes "list_all (out_in_range n m) os" and "length order = n" and "keys_apart spk key m order"
    and "\<And>out. out \<in> set os \<Longrightarrow> to_script (planned key order out) \<in> to_script ` set outs"
  shows "\<exists>to' pays'. fold_ok (link_out outs spk order) os (to, pays) = Ok (to @ to', pays') \<and>
    map fst to' = List.map_filter (\<lambda>out. case out of Pool i _ \<Rightarrow> Some i | Payout _ _ \<Rightarrow> None) os \<and>
    (\<forall>(i, n)\<in>set to'. position (\<lambda>out. to_script out = key i) outs = Some n)"
  using assms(1,4)
proof (induction os arbitrary: to pays)
  case (Cons out os)
  obtain x where x: "x \<in> set outs" "to_script x = to_script (planned key order out)" using Cons.prems(2) [of out] by auto
  obtain v where pos: "position (\<lambda>x. to_script x = to_script (planned key order out)) outs = Some v"
    using position_exists [OF x(1), of "\<lambda>x. to_script x = to_script (planned key order out)"] x(2) by auto
  show ?case
  proof (cases out)
    case (Payout i a)
    have "link_out outs spk order out (to, pays) = Ok (to, pays @ [(i, v)])"
      using Cons.prems(1) assms(2) pos by (simp add: Payout link_out_def vout_of_def planned_def out_in_range_def)
    with Cons.IH [of to "pays @ [(i, v)]"] Cons.prems Payout show ?thesis by (auto simp: map_filter_simps)
  next
    case (Pool i a)
    have "link_out outs spk order out (to, pays) = Ok (to @ [(i, v)], pays)"
      using Cons.prems(1) assms(3) pos by (simp add: Pool link_out_def vout_of_def planned_def out_in_range_def keys_apart_def)
    moreover from Cons.IH [of "to @ [(i, v)]" pays] Cons.prems obtain to' pays' where
      "fold_ok (link_out outs spk order) os (to @ [(i, v)], pays) = Ok ((to @ [(i, v)]) @ to', pays')"
      "map fst to' = List.map_filter (\<lambda>out. case out of Pool i _ \<Rightarrow> Some i | Payout _ _ \<Rightarrow> None) os"
      "\<forall>(i, n)\<in>set to'. position (\<lambda>out. to_script out = key i) outs = Some n" by auto
    ultimately show ?thesis using pos Pool
      by (intro exI [of _ "(i, v) # to'"] exI [of _ pays']) (auto simp: map_filter_simps planned_def)
  qed
qed (simp add: map_filter_simps)

lemma anchor_outs_value: "sum_list (map to_value (anchor_outs p)) = anchor_value p"
  by (simp add: anchor_outs_def anchor_value_def)

lemma exit_turn_ok:
  assumes "plan_funded (anchor_value p) pools q" and "positions_below n q" and "length order = n"
    and keys: "keys_apart spk key (length pools) order"
  shows "\<exists>outs link. exit_outputs sha p q spk order k = Ok outs \<and> link_of q outs spk order = Ok link \<and>
    fst ` set (el_to link) = pool_indices q \<and> sum_list (map to_value outs) + ep_fee q = pools ! ep_from q \<and>
    (\<forall>(i, n)\<in>set (el_to link). i < length pools \<and> n < length outs \<and> to_value (outs ! n) = pools ! i)"
proof -
  note range = plan_in_range [OF assms(1,2)]
  define outs where "outs = sort_key (\<lambda>out. tagged_hash sha ''joinstr/v2/exit_output_order''
    [str_bytes (p_id p), u32_le_bytes k, ser_txout out]) (map (planned key order) (ep_outs q) @ anchor_outs p)"
  have outs: "exit_outputs sha p q spk order k = Ok outs" unfolding outs_def by (rule exit_outputs_planned [OF range assms(3) keys])
  have mem: "set outs = planned key order ` set (ep_outs q) \<union> set (anchor_outs p)" by (simp add: outs_def)
  from link_outs [OF range assms(3) keys, of outs "[]" "[]"] mem obtain to' pays' where link:
    "fold_ok (link_out outs spk order) (ep_outs q) ([], []) = Ok (to', pays')"
    "map fst to' = List.map_filter (\<lambda>out. case out of Pool i _ \<Rightarrow> Some i | Payout _ _ \<Rightarrow> None) (ep_outs q)"
    "\<forall>(i, n)\<in>set to'. position (\<lambda>out. to_script out = key i) outs = Some n" by auto
  have idx: "fst ` set to' = pool_indices q" using arg_cong [OF link(2), of set] by (simp add: pool_indices_def)
  have below: "i < length pools" if "i \<in> pool_indices q" for i
    using range that by (force simp: pool_indices_def List.map_filter_def list_all_iff out_in_range_def split: plan_out.splits)
  have val: "to_value x = pools ! i" if x: "x \<in> set outs" "to_script x = key i" and i: "i < length pools" for x i
  proof -
    from i keys have apart: "key i \<notin> set order" "key i \<noteq> p2a_script" "\<And>j. j < length pools \<Longrightarrow> key j = key i \<Longrightarrow> j = i"
      by (auto simp: keys_apart_def inj_on_def)
    hence "x \<notin> set (anchor_outs p)" using x(2) by (auto simp: anchor_outs_def split: if_splits)
    then obtain out where out: "out \<in> set (ep_outs q)" "x = planned key order out" using x(1) mem by auto
    hence "out_in_range n (length pools) out" using range by (simp add: list_all_iff)
    with out(2) x(2) apart assms(3) obtain v where "out = Pool i v"
      by (cases out) (auto simp: planned_def out_in_range_def, metis nth_mem)
    thus ?thesis using out assms(1) by (auto simp: plan_funded_def outs_match_def list_all_iff planned_def)
  qed
  have "sum_list (map to_value outs) = sum_list (map plan_value (ep_outs q)) + anchor_value p"
    by (simp add: outs_def anchor_outs_value comp_def planned_def)
  hence sum: "sum_list (map to_value outs) + ep_fee q = pools ! ep_from q" using assms(1) by (simp add: plan_funded_def)
  have to: "i < length pools \<and> n < length outs \<and> to_value (outs ! n) = pools ! i" if "(i, n) \<in> set to'" for i n
  proof -
    have "i \<in> pool_indices q" using that unfolding idx [symmetric] by force
    hence "i < length pools" by (rule below)
    moreover from that link(3) have "n < length outs" "to_script (outs ! n) = key i" by (auto dest!: position_Some)
    ultimately show ?thesis using val [of "outs ! n" i] by simp
  qed
  have "link_of q outs spk order = Ok \<lparr>el_from = ep_from q, el_to = to', el_pays = pays', el_depth = ep_depth q\<rparr>"
    using link(1) by (simp add: link_of_def)
  with outs idx sum to show ?thesis by fastforce
qed

text \<open>The pool outputs made so far: worth what their exits expect.\<close>

definition made_ok :: "nat list \<Rightarrow> created \<Rightarrow> bool" where
  "made_ok pools made =
     (length made = length pools \<and>
      (\<forall>i<length pools. case made ! i of None \<Rightarrow> True | Some (op, out) \<Rightarrow> to_value out = pools ! i \<and> pools ! i \<le> u64_max))"

definition made_set :: "created \<Rightarrow> nat set" where
  "made_set made = {i. i < length made \<and> made ! i \<noteq> None}"

definition made_values :: "created \<Rightarrow> created_values" where
  "made_values made = map (map_option (\<lambda>(op, out). (op, to_value out))) made"

lemma create_outputs_ok:
  assumes "made_ok pools made"
    and "\<forall>(i, n)\<in>set ls. i < length pools \<and> n < length (tx_output tx) \<and> to_value (tx_output tx ! n) = pools ! i \<and> pools ! i \<le> u64_max"
  shows "\<exists>made'. fold_ok (create_output txid tx) ls made = Ok made' \<and> made_ok pools made' \<and>
    made_set made' = made_set made \<union> fst ` set ls \<and> fold_ok (create_value txid tx) ls (made_values made) = Ok (made_values made')"
  using assms
proof (induction ls arbitrary: made)
  case (Cons l ls)
  obtain i n where l: "l = (i, n)" by (cases l)
  let ?made = "made[i := Some ((txid, of_nat n), tx_output tx ! n)]"
  have i: "i < length pools" "n < length (tx_output tx)" "to_value (tx_output tx ! n) = pools ! i" "pools ! i \<le> u64_max"
    using Cons.prems(2) by (auto simp: l)
  have len: "length made = length pools" using Cons.prems(1) by (simp add: made_ok_def)
  have ok: "made_ok pools ?made" using Cons.prems(1) i by (auto simp: made_ok_def nth_list_update)
  have set: "made_set ?made = insert i (made_set made)" using i len by (auto simp: made_set_def nth_list_update)
  have steps: "create_output txid tx l made = Ok ?made" "create_value txid tx l (made_values made) = Ok (made_values ?made)"
    using i len by (simp_all add: l create_output_def create_value_def made_values_def map_update)
  from Cons.IH [OF ok] Cons.prems(2) obtain made' where "fold_ok (create_output txid tx) ls ?made = Ok made'" "made_ok pools made'"
    "made_set made' = made_set ?made \<union> fst ` set ls" "fold_ok (create_value txid tx) ls (made_values ?made) = Ok (made_values made')"
    by auto
  with steps show ?case by (simp add: set l)
qed simp

lemma drop_Cons_parts: "drop t xs = y # ys \<Longrightarrow> t < length xs \<and> xs ! t = y \<and> drop (t + 1) xs = ys"
  using Cons_nth_drop_Suc [of t xs] by (cases "t < length xs") auto

text \<open>The loop over the plans builds every exit, and the checks of the built exits pass.\<close>

lemma build_exits_checked:
  assumes "made_ok pools made" and "linked (made_set made) qs" and "list_all (plan_funded (anchor_value p) pools) qs"
    and "list_all (positions_below (length order)) qs" and keys: "keys_apart spk key (length pools) order"
  shows "\<exists>built. build_exits sha p spk order lock t qs made = Ok built \<and> length built = length qs \<and>
    (\<forall>txs. pt_payouts txs = order \<longrightarrow> t \<le> length (pt_spent txs) \<longrightarrow> t \<le> length (pt_links txs) \<longrightarrow>
      drop t (pt_spent txs) = map (fst \<circ> snd) built \<longrightarrow> drop t (pt_links txs) = map (snd \<circ> snd) built \<longrightarrow>
      (\<exists>made'. fold_ok (check_exit sha p txs spk) (enumerate t (zip (map fst built) qs)) (made_values made) = Ok made'))"
  using assms(1-4)
proof (induction qs arbitrary: made t)
  case (Cons q qs)
  from Cons.prems(2) obtain prev out where src: "ep_from q < length made" "made ! ep_from q = Some (prev, out)"
    by (auto simp: made_set_def)
  have val: "to_value out = pools ! ep_from q" "pools ! ep_from q \<le> u64_max"
    using Cons.prems(1) src by (auto simp: made_ok_def dest!: spec [of _ "ep_from q"])
  from exit_turn_ok [of p pools q "length order" order spk key sha "t + 1"] Cons.prems(3,4) keys obtain outs link where
    outs: "exit_outputs sha p q spk order (t + 1) = Ok outs" and link: "link_of q outs spk order = Ok link"
    and idx: "fst ` set (el_to link) = pool_indices q" and sum: "sum_list (map to_value outs) + ep_fee q = pools ! ep_from q"
    and to: "\<forall>(i, n)\<in>set (el_to link). i < length pools \<and> n < length outs \<and> to_value (outs ! n) = pools ! i" by auto
  define tx where "tx = \<lparr>tx_version = 2, tx_lock_time = lock, tx_input = [pool_txin prev], tx_output = outs\<rparr>"
  have le: "to_value (outs ! n) \<le> u64_max" if "n < length outs" for n
  proof -
    have "to_value (outs ! n) \<in> set (map to_value outs)" using that by simp
    hence "to_value (outs ! n) \<le> sum_list (map to_value outs)" by (simp add: member_le_sum_list)
    thus ?thesis using sum val(2) by simp
  qed
  have "\<forall>(i, n)\<in>set (el_to link). i < length pools \<and> n < length (tx_output tx) \<and> to_value (tx_output tx ! n) = pools ! i \<and> pools ! i \<le> u64_max"
    using to le by (fastforce simp: tx_def)
  from create_outputs_ok [OF Cons.prems(1) this, of "compute_txid sha tx"] idx obtain made' where
    made': "fold_ok (create_output (compute_txid sha tx) tx) (el_to link) made = Ok made'" "made_ok pools made'"
    "made_set made' = made_set made \<union> pool_indices q"
    "fold_ok (create_value (compute_txid sha tx) tx) (el_to link) (made_values made) = Ok (made_values made')" by auto
  have prems: "linked (made_set made') qs" "list_all (plan_funded (anchor_value p) pools) qs" "list_all (positions_below (length order)) qs"
    using Cons.prems(2-4) made'(3) by simp_all
  from Cons.IH [OF made'(2) prems, of "t + 1"] obtain built where
    built: "build_exits sha p spk order lock (t + 1) qs made' = Ok built" "length built = length qs"
    and rest: "\<And>txs. pt_payouts txs = order \<Longrightarrow> t + 1 \<le> length (pt_spent txs) \<Longrightarrow> t + 1 \<le> length (pt_links txs) \<Longrightarrow>
      drop (t + 1) (pt_spent txs) = map (fst \<circ> snd) built \<Longrightarrow> drop (t + 1) (pt_links txs) = map (snd \<circ> snd) built \<Longrightarrow>
      \<exists>made''. fold_ok (check_exit sha p txs spk) (enumerate (t + 1) (zip (map fst built) qs)) (made_values made') = Ok made''" by blast
  have run: "build_exits sha p spk order lock t (q # qs) made = Ok ((tx, out, link) # built)"
    using src outs link made'(1) built(1) by (simp add: Let_def flip: tx_def)
  have check: "check_exit sha p txs spk (t, tx, q) (made_values made) = Ok (made_values made')"
    if "pt_payouts txs = order" "t < length (pt_spent txs)" "pt_spent txs ! t = out" "t < length (pt_links txs)" "pt_links txs ! t = link" for txs
    using that src outs link made'(4) sum val sum_values_exact [of outs]
    by (auto simp: check_exit_def made_values_def tx_def pool_txin_def)
  show ?case
  proof (rule exI [of _ "(tx, out, link) # built"], intro conjI allI impI)
    show "build_exits sha p spk order lock t (q # qs) made = Ok ((tx, out, link) # built)" by (rule run)
    show "length ((tx, out, link) # built) = length (q # qs)" using built(2) by simp
    fix txs :: pool_txs assume order: "pt_payouts txs = order" and "t \<le> length (pt_spent txs)" "t \<le> length (pt_links txs)"
      and spent: "drop t (pt_spent txs) = map (fst \<circ> snd) ((tx, out, link) # built)"
      and links: "drop t (pt_links txs) = map (snd \<circ> snd) ((tx, out, link) # built)"
    have s: "t < length (pt_spent txs)" "pt_spent txs ! t = out" "drop (t + 1) (pt_spent txs) = map (fst \<circ> snd) built"
      and l: "t < length (pt_links txs)" "pt_links txs ! t = link" "drop (t + 1) (pt_links txs) = map (snd \<circ> snd) built"
      using drop_Cons_parts [OF spent [simplified]] drop_Cons_parts [OF links [simplified]] by auto
    from rest [OF order _ _ s(3) l(3)] s(1) l(1) obtain made'' where
      "fold_ok (check_exit sha p txs spk) (enumerate (t + 1) (zip (map fst built) qs)) (made_values made') = Ok made''" by auto
    thus "\<exists>made''. fold_ok (check_exit sha p txs spk) (enumerate t (zip (map fst ((tx, out, link) # built)) (q # qs))) (made_values made) = Ok made''"
      using check [OF order s(1,2) l(1,2)] by simp
  qed
qed simp

lemma sum_changes: "sum_list (map to_value (List.map_filter ir_change regs)) = sum_list (map change_value regs)"
  by (induction regs) (auto simp: map_filter_simps change_value_def split: option.splits)

lemma change_scripts: "map to_script (List.map_filter ir_change regs) = concat (map reg_scripts regs)"
  by (induction regs) (auto simp: map_filter_simps reg_scripts_def split: option.splits)

lemma sum_inputs: "sum_list (map (to_value \<circ> snd) (concat (map ir_inputs regs))) = sum_list (map inputs_value regs)"
  by (induction regs) (simp_all add: inputs_value_def comp_def)

text \<open>The payouts in payout order.\<close>

lemma payout_order_parts:
  shows "mset (map f (payout_order sha pid payouts)) = mset (map f payouts)"
    and "set (map f (payout_order sha pid payouts)) = set (map f payouts)"
    and "length (payout_order sha pid payouts) = length payouts"
    and "distinct (map f (payout_order sha pid payouts)) = distinct (map f payouts)"
proof -
  show m: "mset (map f (payout_order sha pid payouts)) = mset (map f payouts)" by (simp add: payout_order_def)
  show "set (map f (payout_order sha pid payouts)) = set (map f payouts)" using m by (rule mset_eq_setD)
  show "length (payout_order sha pid payouts) = length payouts" by (simp add: payout_order_def)
  show "distinct (map f (payout_order sha pid payouts)) = distinct (map f payouts)" using m by (rule mset_eq_imp_distinct_iff)
qed

lemma exit_set_of_pool:
  assumes "validate p = Ok ()" and "fills_classes p (map po_amount payouts)" and "length payouts = p_peers p"
    and "exit_set_of p (map po_amount (payout_order sha pid payouts)) = Ok es"
  shows "set_funded p (map po_amount (payout_order sha pid payouts)) es"
proof -
  have "payouts_fit p (map po_amount (payout_order sha pid payouts))"
    using assms(2,3) payout_order_parts(2) [where f = po_amount and sha = sha and pid = pid and payouts = payouts]
    by (simp add: payouts_fit_def fills_classes_def payout_order_parts(3))
  from exit_set_funded [OF assms(1) this] assms(4) show ?thesis by auto
qed

text \<open>The value of the pool output, and what the inputs leave over it and the change.\<close>

lemma funding_values:
  assumes "validate p = Ok ()" and "check_input_registrations p regs = Ok ()" and "list_all change_short regs"
    and "fills_classes p (map po_amount payouts)" and "set_funded p (map po_amount (payout_order sha pid payouts)) es"
  shows "es_pools es ! 0 + sum_list (map change_value regs) < sum_list (map inputs_value regs)"
proof -
  from assms(5) obtain share where share: "exit_share p = Ok share"
    "es_pools es ! 0 = sum_list (map po_amount (payout_order sha pid payouts)) + p_peers p * share"
    by (auto simp: set_funded_def split: outcome.splits)
  have "mset (map ir_amount regs) = mset (map po_amount payouts)"
    by (rule fills_classes_unique [OF regs_fill_classes [OF assms(2)] assms(4)])
  hence "sum_list (map ir_amount regs) = sum_list (map po_amount (payout_order sha pid payouts))"
    by (metis payout_order_parts(1) sum_mset_sum_list)
  moreover have "length regs = p_peers p" "list_all (reg_fits p) regs" using assms(2) by (auto simp: registrations_accepted)
  ultimately show ?thesis using regs_cover [OF assms(1) _ assms(3) share(1)] share(2) validate_facts(1) [OF assms(1)] by simp
qed

text \<open>The outputs of the funding: the pool output is found by its script.\<close>

lemma pool_output_found:
  assumes "key \<notin> to_script ` set changes"
    and "outs = sort_key f (\<lparr>to_value = v, to_script = key\<rparr> # changes)"
  shows "\<exists>i. position (\<lambda>out. to_script out = key) outs = Some i \<and> i < length outs \<and> outs ! i = \<lparr>to_value = v, to_script = key\<rparr>"
proof -
  have "\<lparr>to_value = v, to_script = key\<rparr> \<in> set outs" unfolding assms(2) by (simp only: set_sort list.set insertI1)
  from position_exists [OF this, of "\<lambda>out. to_script out = key"] obtain i where pos: "position (\<lambda>out. to_script out = key) outs = Some i" by auto
  note i = position_Some [OF pos]
  hence "outs ! i \<in> set outs" by simp
  hence "outs ! i \<in> insert \<lparr>to_value = v, to_script = key\<rparr> (set changes)" unfolding assms(2) by (simp only: set_sort list.set)
  with i assms(1) have "outs ! i = \<lparr>to_value = v, to_script = key\<rparr>" by auto
  with pos i show ?thesis by blast
qed

text \<open>The start of the loop: the funding makes pool output 0.\<close>

lemma first_made:
  assumes "pools \<noteq> []" and "to_value out = pools ! 0" and "pools ! 0 \<le> u64_max"
  shows "made_ok pools ((replicate (length pools) None)[0 := Some (op, out)])"
    and "made_set ((replicate (length pools) None)[0 := Some (op, out)]) = {0}"
    and "made_values ((replicate (length pools) None)[0 := Some (op, out)]) = (replicate (length pools) None)[0 := Some (op, to_value out)]"
  using assms by (auto simp: made_ok_def made_set_def made_values_def nth_list_update map_update split: if_splits)

definition funding_ins :: "sha256 \<Rightarrow> params \<Rightarrow> input_registration list \<Rightarrow> (outpoint \<times> txout) list" where
  "funding_ins sha p regs =
     sort_key (\<lambda>(op, out). order_key sha ''joinstr/v2/input_order'' (p_id p) (ser_outpoint op)) (concat (map ir_inputs regs))"

definition funding_outs :: "sha256 \<Rightarrow> params \<Rightarrow> input_registration list \<Rightarrow> nat \<Rightarrow> script_buf \<Rightarrow> txout list" where
  "funding_outs sha p regs pool_0 pool_spk =
     sort_key (\<lambda>out. order_key sha ''joinstr/v2/output_order'' (p_id p) (ser_txout out))
       (\<lparr>to_value = pool_0, to_script = pool_spk\<rparr> # List.map_filter ir_change regs)"

definition funding_tx :: "sha256 \<Rightarrow> params \<Rightarrow> input_registration list \<Rightarrow> nat \<Rightarrow> script_buf \<Rightarrow> transaction" where
  "funding_tx sha p regs pool_0 pool_spk =
     \<lparr>tx_version = 2, tx_lock_time = locktime regs, tx_input = map (pool_txin \<circ> fst) (funding_ins sha p regs),
      tx_output = funding_outs sha p regs pool_0 pool_spk\<rparr>"

text \<open>The pool as built: \<open>v\<close> is the place of the pool output, \<open>built\<close> the exits.\<close>

definition built_txs ::
  "sha256 \<Rightarrow> params \<Rightarrow> input_registration list \<Rightarrow> pool_payout list \<Rightarrow> nat \<Rightarrow> script_buf \<Rightarrow> nat \<Rightarrow>
   (transaction \<times> txout \<times> exit_link) list \<Rightarrow> pool_txs" where
  "built_txs sha p regs payouts pool_0 pool_spk v built =
     \<lparr>pt_funding = funding_tx sha p regs pool_0 pool_spk, pt_funding_prevouts = map snd (funding_ins sha p regs), pt_pool_vout = v,
      pt_exits = map fst built, pt_spent = map (fst \<circ> snd) built, pt_links = map (snd \<circ> snd) built,
      pt_payouts = map po_script (payout_order sha (p_id p) payouts),
      pt_payout_amounts = map po_amount (payout_order sha (p_id p) payouts)\<rparr>"

lemma build_run:
  assumes valid: "validate p = Ok ()" and regs: "check_input_registrations p regs = Ok ()" and short: "list_all change_short regs"
    and fills: "fills_classes p (map po_amount payouts)" and len: "length payouts = p_peers p"
    and height: "locktime regs < 500000000" and total: "sum_list (map inputs_value regs) \<le> u64_max"
    and es: "exit_set_of p (map po_amount (payout_order sha (p_id p) payouts)) = Ok es"
    and keys: "keys_apart spk key (length (es_pools es)) (map po_script payouts)"
    and change: "key 0 \<notin> set (concat (map reg_scripts regs))"
    and op: "\<And>v. op v = (compute_txid sha (funding_tx sha p regs (es_pools es ! 0) (key 0)), of_nat v)"
  shows "\<exists>v built. position (\<lambda>out. to_script out = key 0) (funding_outs sha p regs (es_pools es ! 0) (key 0)) = Some v \<and>
    v < length (funding_outs sha p regs (es_pools es ! 0) (key 0)) \<and>
    funding_outs sha p regs (es_pools es ! 0) (key 0) ! v = \<lparr>to_value = es_pools es ! 0, to_script = key 0\<rparr> \<and>
    build_exits sha p spk (map po_script (payout_order sha (p_id p) payouts)) (locktime regs) 0 (es_plans es)
      ((replicate (length (es_pools es)) None)[0 := Some (op v, \<lparr>to_value = es_pools es ! 0, to_script = key 0\<rparr>)]) = Ok built \<and>
    length built = length (es_plans es) \<and>
    build sha p regs payouts spk = Ok (built_txs sha p regs payouts (es_pools es ! 0) (key 0) v built) \<and>
    (\<exists>made. fold_ok (check_exit sha p (built_txs sha p regs payouts (es_pools es ! 0) (key 0) v built) spk)
       (enumerate 0 (zip (map fst built) (es_plans es)))
       ((replicate (length (es_pools es)) None)[0 := Some (op v, es_pools es ! 0)]) = Ok made)"
proof -
  let ?pool = "\<lparr>to_value = es_pools es ! 0, to_script = key 0\<rparr>" and ?outs = "funding_outs sha p regs (es_pools es ! 0) (key 0)"
  let ?order = "map po_script (payout_order sha (p_id p) payouts)"
  note parts = payout_order_parts [where sha = sha and pid = "p_id p" and payouts = payouts]
  note funded = exit_set_of_pool [OF valid fills len es]
  have n: "length regs = p_peers p" "length ?order = p_peers p" using regs len parts(3) by (simp_all add: registrations_accepted)
  have keys': "keys_apart spk key (length (es_pools es)) ?order" using keys parts(2) [where f = po_script] by (simp add: keys_apart_def)
  have ne: "es_pools es \<noteq> []" using funded by (simp add: set_funded_def)
  hence spk0: "spk 0 = Ok (key 0)" using keys by (simp add: keys_apart_def)
  have max: "es_pools es ! 0 \<le> u64_max" using funding_values [OF valid regs short fills funded] total by simp
  have "key 0 \<notin> to_script ` set (List.map_filter ir_change regs)" using change change_scripts [of regs] by (metis set_map)
  from pool_output_found [OF this funding_outs_def] obtain v where
    v: "position (\<lambda>out. to_script out = key 0) ?outs = Some v" "v < length ?outs" "?outs ! v = ?pool" by blast
  let ?made = "(replicate (length (es_pools es)) None)[0 := Some (op v, ?pool)]"
  note first = first_made [OF ne, of ?pool "op v", unfolded txout.select_convs, OF refl max]
  have "\<exists>built. build_exits sha p spk ?order (locktime regs) 0 (es_plans es) ?made = Ok built \<and> length built = length (es_plans es) \<and>
    (\<forall>txs. pt_payouts txs = ?order \<longrightarrow> 0 \<le> length (pt_spent txs) \<longrightarrow> 0 \<le> length (pt_links txs) \<longrightarrow>
      drop 0 (pt_spent txs) = map (fst \<circ> snd) built \<longrightarrow> drop 0 (pt_links txs) = map (snd \<circ> snd) built \<longrightarrow>
      (\<exists>made'. fold_ok (check_exit sha p txs spk) (enumerate 0 (zip (map fst built) (es_plans es))) (made_values ?made) = Ok made'))"
    by (rule build_exits_checked [OF _ _ _ _ keys']) (use first funded n(2) in \<open>auto simp: set_funded_def\<close>)
  then obtain built where built: "build_exits sha p spk ?order (locktime regs) 0 (es_plans es) ?made = Ok built" "length built = length (es_plans es)"
    and exits: "\<And>txs. pt_payouts txs = ?order \<Longrightarrow> pt_spent txs = map (fst \<circ> snd) built \<Longrightarrow> pt_links txs = map (snd \<circ> snd) built \<Longrightarrow>
      \<exists>made'. fold_ok (check_exit sha p txs spk) (enumerate 0 (zip (map fst built) (es_plans es))) (made_values ?made) = Ok made'" by auto
  have "build sha p regs payouts spk = Ok (built_txs sha p regs payouts (es_pools es ! 0) (key 0) v built)"
    using n(1) len es spk0 ne v built(1) height op [of v]
    by (simp add: build_def lock_time_from_height_def Let_def built_txs_def funding_tx_def del: sort_key_simps
      flip: funding_outs_def funding_ins_def)
  with v built exits [of "built_txs sha p regs payouts (es_pools es ! 0) (key 0) v built"] first(3) show ?thesis
    by (auto simp: built_txs_def)
qed

section \<open>Properties\<close>

text \<open>C5: a pool built from accepted registrations passes its own checks. For validated parameters of any structure,
  registrations that pass the registration checks, one payout per peer that fill the pool's classes, no script twice, a
  locktime that is a block height and inputs whose sum fits, and pool scripts different from each other and from every
  other script, the funding and every exit are built, and the structural checks of the built pool accept them: the pool
  output has its value, the funding pays a fee, every exit spends the output made for it and pays exactly its fee.\<close>

theorem built_pool_passes_checks:
  assumes valid: "validate p = Ok ()" and regs: "check_input_registrations p regs = Ok ()" and short: "list_all change_short regs"
    and fills: "fills_classes p (map po_amount payouts)" and len: "length payouts = p_peers p" and once: "distinct (map po_script payouts)"
    and height: "locktime regs < 500000000" and total: "sum_list (map inputs_value regs) \<le> u64_max"
    and es: "exit_set_of p (map po_amount (payout_order sha (p_id p) payouts)) = Ok es"
    and keys: "keys_apart spk key (length (es_pools es)) (map po_script payouts)"
    and change: "key 0 \<notin> set (concat (map reg_scripts regs))"
  shows "\<exists>txs. build sha p regs payouts spk = Ok txs \<and> check_txs sha p txs spk = Ok ()"
proof -
  let ?outs = "funding_outs sha p regs (es_pools es ! 0) (key 0)" and ?ins = "funding_ins sha p regs"
  from build_run [OF valid regs short fills len height total es keys change refl] obtain v built made where
    v: "v < length ?outs" "?outs ! v = \<lparr>to_value = es_pools es ! 0, to_script = key 0\<rparr>" and built: "length built = length (es_plans es)"
    and run: "build sha p regs payouts spk = Ok (built_txs sha p regs payouts (es_pools es ! 0) (key 0) v built)"
    and exits: "fold_ok (check_exit sha p (built_txs sha p regs payouts (es_pools es ! 0) (key 0) v built) spk)
       (enumerate 0 (zip (map fst built) (es_plans es))) ((replicate (length (es_pools es)) None)
         [0 := Some ((compute_txid sha (funding_tx sha p regs (es_pools es ! 0) (key 0)), of_nat v), es_pools es ! 0)]) = Ok made" by blast
  note parts = payout_order_parts [where sha = sha and pid = "p_id p" and payouts = payouts]
  note funded = exit_set_of_pool [OF valid fills len es]
  have ne: "es_pools es \<noteq> []" using funded by (simp add: set_funded_def)
  hence spk0: "spk 0 = Ok (key 0)" using keys by (simp add: keys_apart_def)
  note vals = funding_values [OF valid regs short fills funded]
  have ins: "sum_values (map snd ?ins) = Some (sum_list (map inputs_value regs))"
    using sum_values_exact [of "map snd ?ins"] sum_inputs [of regs] total by (simp add: funding_ins_def comp_def)
  have "sum_list (map to_value ?outs) = es_pools es ! 0 + sum_list (map change_value regs)"
    by (simp add: funding_outs_def sum_changes del: sort_key_simps)
  hence outs: "sum_values ?outs = Some (es_pools es ! 0 + sum_list (map change_value regs))"
    using sum_values_exact [of ?outs] vals total by simp
  have "card (set (map po_script (payout_order sha (p_id p) payouts))) = p_peers p"
    using once parts(3) parts(4) [where f = po_script] len distinct_card [of "map po_script (payout_order sha (p_id p) payouts)"] by simp
  moreover have "length (filter (\<lambda>a. a = cls_amount c) (map po_amount (payout_order sha (p_id p) payouts))) = cls_peers c"
    if "c \<in> set (p_classes p)" for c
    using fills that parts(1) [where f = po_amount] count_filter [of "\<lambda>a. a" "cls_amount c" "map po_amount (payout_order sha (p_id p) payouts)"]
    by (simp add: fills_classes_def)
  ultimately have "check_txs sha p (built_txs sha p regs payouts (es_pools es ! 0) (key 0) v built) spk = Ok ()"
    using es spk0 ne v ins outs vals built exits parts(3) len
    by (simp add: check_txs_def built_txs_def Let_def list_all_iff pool_txin_def funding_tx_def)
  with run show ?thesis by blast
qed

definition example_sha :: sha256 where
  "example_sha bs = of_nat (length bs)"

definition example_reg :: "nat \<Rightarrow> input_registration" where
  "example_reg i =
     \<lparr>ir_session = of_nat i, ir_amount = 100000, ir_musig = 2 # replicate 32 (of_nat i), ir_ring = 3 # replicate 32 (of_nat i),
      ir_inputs = [((of_nat i, 0), \<lparr>to_value = 200000, to_script = 0 # 0x14 # replicate 20 1\<rparr>)], ir_change = None, ir_height = 800000\<rparr>"

definition example_payout :: "nat \<Rightarrow> pool_payout" where
  "example_payout i = \<lparr>po_script = 0x51 # 0x20 # replicate 32 (of_nat i), po_amount = 100000, po_priority = 0\<rparr>"

lemma example_valid: "validate (new_params ''ab'' 100000 3 2000) = Ok ()"
  by (simp add: validate_def new_params_def with_classes_def default_exits_def worst_cut_def pool_consts Let_def)

lemma example_registrations:
  "check_input_registrations (new_params ''ab'' 100000 3 2000) (map example_reg [1, 2, 3]) = Ok ()"
proof -
  let ?p = "new_params ''ab'' 100000 3 2000"
  have share: "exit_share ?p = Ok 206"
    by (simp add: exit_share_def exit_costs_def exit_cost_of_def exit_rate_def new_params_def with_classes_def default_exits_def
      pool_consts pool_fee_def Let_def wrap_sum64_def arith_defs u64_max_def div_ceil_def anchor_value_def)
  have fits: "reg_fits ?p (example_reg i)" for i
    unfolding reg_fits_def required_def share
    by (simp add: funding_fee_def example_reg_def prevouts_def input_total_def contribution_def
      change_fits_def input_fits_def class_of_def pool_input_weight_def is_p2wpkh_def new_params_def with_classes_def pool_consts
      pool_fee_def wrap_sum64_def arith_defs u64_max_def div_ceil_def)
  have "list_all (reg_fits ?p) (map example_reg [1, 2, 3])" using fits by (auto simp: list_all_iff)
  thus ?thesis unfolding registrations_accepted
    by (intro conjI) ((assumption | simp add: example_reg_def new_params_def with_classes_def reg_keys_def reg_outpoints_def reg_scripts_def)+)
qed

lemma example_keys: "keys_apart (\<lambda>i. Ok (replicate (i + 35) 1)) (\<lambda>i. replicate (i + 35) 1) n (map po_script (map example_payout [1, 2, 3]))"
  by (auto simp: keys_apart_def inj_on_def p2a_script_def example_payout_def dest: arg_cong [of _ _ length])

theorem built_pool_passes_checks_witness:
  "\<exists>txs. build example_sha (new_params ''ab'' 100000 3 2000) (map example_reg [1, 2, 3]) (map example_payout [1, 2, 3])
       (\<lambda>i. Ok (replicate (i + 35) 1)) = Ok txs \<and>
     check_txs example_sha (new_params ''ab'' 100000 3 2000) txs (\<lambda>i. Ok (replicate (i + 35) 1)) = Ok ()"
proof -
  let ?p = "new_params ''ab'' 100000 3 2000" and ?payouts = "map example_payout [1, 2, 3]"
  have fills: "fills_classes ?p (map po_amount ?payouts)"
    by (simp add: fills_classes_def new_params_def with_classes_def example_payout_def)
  hence "payouts_fit ?p (map po_amount (payout_order example_sha (p_id ?p) ?payouts))"
    using payout_order_parts(2) [where f = po_amount and payouts = ?payouts and sha = example_sha and pid = "p_id ?p"]
    by (simp add: payouts_fit_def fills_classes_def payout_order_parts(3) new_params_def with_classes_def)
  from exit_set_funded [OF example_valid this] obtain es where
    es: "exit_set_of ?p (map po_amount (payout_order example_sha (p_id ?p) ?payouts)) = Ok es" by blast
  show ?thesis
    by (rule built_pool_passes_checks [OF example_valid example_registrations _ fills _ _ _ _ es example_keys])
      (simp_all add: example_reg_def example_payout_def change_short_def new_params_def with_classes_def locktime_def
        inputs_value_def u64_max_def reg_scripts_def)
qed

end
