(* ===== verification/Tatara_Rederive.thy ===== *)
theory Tatara_Rederive
  imports Pool_Build
begin

text \<open>
  What the phone checks of a pool before it signs (\<open>lij-core/src/tatara\<close>): the options of a Phase 1 pool and the
  limits (\<open>caps.rs\<close>), its own re-derivation of the funding and the exits (\<open>rederive.rs\<close>), and the comparison with
  joinstr's build (\<open>checks.rs\<close>). Key aggregation and derivation are the argument \<open>pool_script\<close>; the floating-point fee
  rate of an announcement is a value of a type \<open>'f\<close> with the operations the code applies to it.
\<close>

section \<open>Limits\<close>

definition MIN_PEOPLE :: nat where "MIN_PEOPLE = 3"
definition MAX_PEOPLE :: nat where "MAX_PEOPLE = 6"
definition MAX_INPUTS_PER_MEMBER :: nat where "MAX_INPUTS_PER_MEMBER = 4"
definition MAX_MESSAGE_BYTES :: nat where "MAX_MESSAGE_BYTES = 32 * 1024"
definition RELAY_MIN_SAT_VB :: nat where "RELAY_MIN_SAT_VB = 1"

definition message_size :: "bytes \<Rightarrow> unit outcome" where
  "message_size bs = ensure (length bs \<le> MAX_MESSAGE_BYTES) ''pool message too large'' (Ok ())"

definition wire_network :: "string \<Rightarrow> string" where
  "wire_network name = (if name = ''bitcoin'' \<or> name = ''mainnet'' \<or> name = ''main'' then ''mainnet'' else name)"

definition within_fee_limit_milli :: "nat \<Rightarrow> nat \<Rightarrow> nat \<Rightarrow> bool" where
  "within_fee_limit_milli pool_rate_milli shown_at_join_sat_vb cap_sat_vb =
     (pool_rate_milli \<le> sat_mul64 shown_at_join_sat_vb 1500 \<and> pool_rate_milli \<le> sat_mul64 cap_sat_vb 1000)"

definition within_fee_limit :: "nat \<Rightarrow> nat \<Rightarrow> nat \<Rightarrow> bool" where
  "within_fee_limit pool_rate_sat_vb shown_at_join_sat_vb cap_sat_vb =
     (let limit = sat_mul64 shown_at_join_sat_vb 3 div 2
      in pool_rate_sat_vb \<le> max limit shown_at_join_sat_vb \<and> pool_rate_sat_vb \<le> cap_sat_vb)"

definition registration_inputs :: "nat \<Rightarrow> unit outcome" where
  "registration_inputs n = ensure (1 \<le> n \<and> n \<le> MAX_INPUTS_PER_MEMBER) ''a member registers 1 to 4 inputs'' (Ok ())"

definition one_per_exit :: "nat \<Rightarrow> nat \<Rightarrow> unit outcome" where
  "one_per_exit got exits = ensure (got = exits) ''not one item per exit'' (Ok ())"

section \<open>The announcement of a pool\<close>

datatype broadcast = Now | Staggered | Hold

text \<open>The operations on a fee rate: \<open>milli\<close> and the two tests of \<open>phase1_pool\<close>.\<close>

record 'f rate_ops =
  milli :: "'f \<Rightarrow> nat outcome"
  whole_milli :: "'f \<Rightarrow> bool"
  rate_between :: "nat \<Rightarrow> nat \<Rightarrow> 'f \<Rightarrow> bool"

record 'f pool_event =
  ev_versions :: "string list"
  ev_id :: string
  ev_network :: string
  ev_kind :: string
  ev_denomination :: nat
  ev_peers :: nat
  ev_timeout :: nat
  ev_relays :: "string list"
  ev_fee_rate :: 'f
  ev_broadcast :: broadcast
  ev_denominations :: "pool_class list option"
  ev_exits :: "nat list option"
  ev_exit_fee_rates :: "('f \<times> 'f) option"
  ev_fee_split :: fee_split
  ev_anchor :: "string option"
  ev_structure :: pool_structure
  ev_payout_type :: payout_type
  ev_tor :: bool
  ev_vpn :: bool

definition anchor_of :: "string option \<Rightarrow> bool outcome" where
  "anchor_of a = (case a of None \<Rightarrow> Ok False | Some t \<Rightarrow> if t = ''p2a'' then Ok True else Err ''unknown anchor type'')"

definition event_params :: "'f rate_ops \<Rightarrow> 'f pool_event \<Rightarrow> params outcome" where
  "event_params R ev =
     and_then (milli R (ev_fee_rate ev)) (\<lambda>fee_rate_milli.
     let (r0, r1) = (case ev_exit_fee_rates ev of Some r \<Rightarrow> r | None \<Rightarrow> (ev_fee_rate ev, ev_fee_rate ev))
     in and_then (anchor_of (ev_anchor ev)) (\<lambda>anchor.
     let classes = (case ev_denominations ev of Some cs \<Rightarrow> cs
                    | None \<Rightarrow> [\<lparr>cls_amount = ev_denomination ev, cls_peers = ev_peers ev\<rparr>]);
         p = with_classes (ev_id ev) classes fee_rate_milli
     in ensure (p_peers p = ev_peers ev) ''the denominations do not add up'' (
     let exits = (case ev_exits ev of Some es \<Rightarrow> es | None \<Rightarrow> default_exits (ev_peers ev))
     in and_then (milli R r0) (\<lambda>m0. and_then (milli R r1) (\<lambda>m1.
     let p = p\<lparr>p_exits := exits, p_exit_rates_milli := (m0, m1), p_payout_type := ev_payout_type ev,
               p_fee_split := ev_fee_split ev, p_anchor := anchor, p_structure := ev_structure ev\<rparr>
     in and_then (validate p) (\<lambda>_. Ok p))))))"

record declared =
  dc_sizes :: "nat list"
  dc_max_fee_sat_vb :: nat
  dc_relay :: string
  dc_network :: string
  dc_max_timeout_s :: nat

definition phase1_pool :: "'f rate_ops \<Rightarrow> 'f pool_event \<Rightarrow> declared \<Rightarrow> nat \<Rightarrow> params outcome" where
  "phase1_pool R ev d now_s =
     ensure (ev_versions ev = [''2'']) ''versions must be 2'' (
     ensure (ev_kind ev = ''new_pool'') ''not a new pool'' (
     ensure (wire_network (ev_network ev) = wire_network (dc_network d)) ''pool for another network'' (
     ensure (MIN_PEOPLE \<le> ev_peers ev \<and> ev_peers ev \<le> MAX_PEOPLE) ''a LiJ pool has 3 to 6 people'' (
     ensure (ev_denomination ev \<in> set (dc_sizes d)) ''pool size not declared'' (
     ensure (ev_denominations ev = None) ''one denomination only'' (
     ensure (ev_exits ev = None) ''the default exit plan only'' (
     ensure (ev_exit_fee_rates ev = None) ''one fee rate for the funding and every exit'' (
     ensure (ev_fee_split ev = Equal) ''equal fee split only'' (
     ensure (ev_structure ev = Chain) ''a chain only'' (
     ensure (ev_broadcast ev = Now) ''broadcast now only'' (
     ensure (ev_anchor ev = None) ''no anchor'' (
     ensure (\<not> ev_tor ev \<and> \<not> ev_vpn ev) ''no Tor or VPN transport in Phase 1'' (
     ensure (ev_relays ev = [dc_relay d]) ''the pool must use the declared relay'' (
     ensure (whole_milli R (ev_fee_rate ev)) ''fee rate must be a whole number of thousandths of a sat/vB'' (
     ensure (rate_between R RELAY_MIN_SAT_VB (dc_max_fee_sat_vb d) (ev_fee_rate ev)) ''fee rate outside the range'' (
     ensure (now_s < ev_timeout ev \<and> ev_timeout ev \<le> sat_add64 now_s (dc_max_timeout_s d)) ''timeout outside the window'' (
     and_then (event_params R ev) (\<lambda>p.
     ensure (\<not> (p_peers p \<noteq> ev_peers ev \<or> length (p_classes p) \<noteq> 1 \<or> fst (p_exit_rates_milli p) \<noteq> p_fee_rate_milli p \<or>
                snd (p_exit_rates_milli p) \<noteq> p_fee_rate_milli p \<or> p_anchor p)) ''pool options parsed to something else'' (
     Ok p)))))))))))))))))))"

section \<open>Our own re-derivation\<close>

record member =
  mb_musig :: bytes
  mb_inputs :: "(outpoint \<times> txout) list"
  mb_change :: "txout option"
  mb_height :: u32

record rederived =
  rd_funding :: transaction
  rd_pool_vout :: nat
  rd_exits :: "transaction list"
  rd_pools :: "nat list"
  rd_exit_share :: nat
  rd_pool_scripts :: "script_buf list"

definition tagged :: "sha256 \<Rightarrow> string \<Rightarrow> bytes list \<Rightarrow> hash256" where
  "tagged sha tag parts = (let t = hash_bytes (sha (str_bytes tag)) in sha (t @ t @ concat parts))"

definition own_fee :: "nat \<Rightarrow> nat \<Rightarrow> nat outcome" where
  "own_fee weight rate_milli = some_or ''fee overflow'' (checked_mul64 weight rate_milli) (\<lambda>x. Ok (div_ceil x 4000))"

definition own_input_weight :: "script_buf \<Rightarrow> nat outcome" where
  "own_input_weight spk =
     (if is_p2wpkh spk then Ok 272 else if is_p2tr spk then Ok 230 else Err ''an input is neither P2WPKH nor P2TR'')"

definition default_plan :: "nat \<Rightarrow> nat list" where
  "default_plan n = replicate (n - 2) 1 @ [2]"

definition exit_fee :: "nat \<Rightarrow> nat \<Rightarrow> nat \<times> nat \<Rightarrow> nat outcome" where
  "exit_fee rate_milli m kg = (case kg of (k, g) \<Rightarrow> own_fee (42 + 230 + 172 * (g + (if k + 1 < m then 1 else 0))) rate_milli)"

definition own_exit_share :: "nat \<Rightarrow> nat \<Rightarrow> nat outcome" where
  "own_exit_share peers fee_rate_milli =
     ensure (3 \<le> peers \<and> peers \<le> 6) ''a LiJ pool has 3 to 6 members'' (
     let plan = default_plan peers
     in and_then (fold_ok (\<lambda>kg total. and_then (exit_fee fee_rate_milli (length plan) kg) (\<lambda>f.
          some_or ''overflow'' (checked_add64 total f) Ok)) (enumerate 0 plan) 0) (\<lambda>total.
        div_ceil_or_abort total peers Ok))"

definition member_need :: "nat \<Rightarrow> nat \<Rightarrow> nat \<Rightarrow> script_buf list \<Rightarrow> script_buf option \<Rightarrow> nat outcome" where
  "member_need denomination peers fee_rate_milli input_spks change_spk =
     ensure (input_spks \<noteq> []) ''no input'' (
     div_ceil_or_abort 214 peers (\<lambda>w.
     and_then (fold_ok (\<lambda>spk w. and_then (own_input_weight spk) (\<lambda>v. Ok (wrap_add64 w v))) input_spks w) (\<lambda>w.
     let w = (case change_spk of None \<Rightarrow> w | Some c \<Rightarrow> wrap_add64 w (4 * (9 + length c)))
     in and_then (own_exit_share peers fee_rate_milli) (\<lambda>share.
        some_or ''overflow''
          (Option.bind (checked_add64 denomination share) (\<lambda>v.
             case own_fee w fee_rate_milli of Ok f \<Rightarrow> checked_add64 v f | _ \<Rightarrow> None)) Ok))))"

definition my_change :: "nat \<Rightarrow> nat \<Rightarrow> nat \<Rightarrow> nat \<Rightarrow> script_buf list \<Rightarrow> script_buf \<Rightarrow> nat \<Rightarrow> nat option outcome" where
  "my_change total_in denomination peers fee_rate_milli input_spks change_spk dust =
     and_then (member_need denomination peers fee_rate_milli input_spks None) (\<lambda>bare.
     ensure (bare \<le> total_in) ''the coin does not cover what the pool needs'' (
     and_then (member_need denomination peers fee_rate_milli input_spks (Some change_spk)) (\<lambda>with_change.
     let out_cost = wrap_sub64 with_change bare
     in Ok (case checked_sub64 total_in with_change of
              Some c \<Rightarrow> if dust \<le> c \<and> out_cost < c then Some c else None
            | None \<Rightarrow> None))))"

text \<open>The values of the pool outputs, each less what the exit before it pays.\<close>

fun own_pools :: "nat \<Rightarrow> (nat \<times> nat) list \<Rightarrow> nat \<Rightarrow> nat list outcome" where
  "own_pools d [] prev = Ok []"
| "own_pools d ((g, f) # rest) prev =
     some_or ''a pool value runs out'' (Option.bind (checked_sub64 prev (wrap_mul64 g d)) (\<lambda>v. checked_sub64 v f)) (\<lambda>after.
       and_then (own_pools d rest after) (\<lambda>pools. Ok (after # pools)))"

definition check_member :: "nat \<Rightarrow> nat \<Rightarrow> nat \<Rightarrow> member \<Rightarrow> unit outcome" where
  "check_member d n fee_rate_milli mb =
     ensure (mb_inputs mb \<noteq> []) ''a member has no input'' (
     and_then (fold_ok (\<lambda>(op, out) total. some_or ''overflow'' (checked_add64 total (to_value out)) Ok) (mb_inputs mb) 0) (\<lambda>total_in.
     let change = (case mb_change mb of None \<Rightarrow> 0 | Some c \<Rightarrow> to_value c)
     in and_then (member_need d n fee_rate_milli (map (to_script \<circ> snd) (mb_inputs mb)) (map_option to_script (mb_change mb))) (\<lambda>need.
        some_or ''change larger than the inputs'' (checked_sub64 total_in change) (\<lambda>contribution.
        ensure (need \<le> contribution) ''a member contributes too little'' (Ok ())))))"

definition own_txin :: "outpoint \<Rightarrow> txin" where
  "own_txin op = \<lparr>previous_output = op, script_sig = [], ti_sequence = 0xfffffffd, ti_witness = []\<rparr>"

text \<open>The higher priority first.\<close>

definition own_order :: "sha256 \<Rightarrow> string \<Rightarrow> (script_buf \<times> u8) list \<Rightarrow> (script_buf \<times> u8) list" where
  "own_order sha pid payouts = sort_key (\<lambda>(s, pr). (255 - pr, tagged sha ''joinstr/v2/payout_order'' [str_bytes pid, s])) payouts"

text \<open>The exits from number \<open>k\<close> on, out of \<open>m\<close>: the next payouts and, but for the last, the next pool output.\<close>

fun own_exits ::
  "sha256 \<Rightarrow> string \<Rightarrow> nat \<Rightarrow> u32 \<Rightarrow> nat \<Rightarrow> nat list \<Rightarrow> script_buf list \<Rightarrow> nat \<Rightarrow> nat list \<Rightarrow> (script_buf \<times> u8) list \<Rightarrow> outpoint \<Rightarrow>
   transaction list outcome" where
  "own_exits sha pid d lock m pools scripts k [] order prev = Ok []"
| "own_exits sha pid d lock m pools scripts k (g # plan) order prev =
     (if length order < g then Abort
      else
        let outs = map (\<lambda>(s, pr). \<lparr>to_value = d, to_script = s\<rparr>) (take g order) @
                   (if k < m then [\<lparr>to_value = pools ! k, to_script = scripts ! k\<rparr>] else []);
            outs = sort_key (\<lambda>out. tagged sha ''joinstr/v2/exit_output_order'' [str_bytes pid, u32_le_bytes k, ser_txout out]) outs;
            tx = \<lparr>tx_version = 2, tx_lock_time = lock, tx_input = [own_txin prev], tx_output = outs\<rparr>
        in and_then
             (if k < m
              then some_or ''pool output'' (position (\<lambda>out. to_script out = scripts ! k) outs) (\<lambda>n. Ok (compute_txid sha tx, of_nat n))
              else Ok prev) (\<lambda>prev.
           and_then (own_exits sha pid d lock m pools scripts (k + 1) plan (drop g order) prev) (\<lambda>rest. Ok (tx # rest))))"

definition rederive ::
  "sha256 \<Rightarrow> (bytes list \<Rightarrow> nat \<Rightarrow> script_buf outcome) \<Rightarrow> string \<Rightarrow> nat \<Rightarrow> nat \<Rightarrow> member list \<Rightarrow> (script_buf \<times> u8) list \<Rightarrow> u32 \<Rightarrow>
   rederived outcome" where
  "rederive sha pool_script pid d fee_rate_milli members payouts my_tip =
     (let n = length members; plan = default_plan n; m = length plan in
     ensure (3 \<le> n \<and> n \<le> 6) ''a LiJ pool has 3 to 6 members'' (
     ensure (length payouts = n) ''not one payout per member'' (
     and_then (collect_ok (exit_fee fee_rate_milli m) (enumerate 0 plan)) (\<lambda>exit_fees.
     and_then (own_exit_share n fee_rate_milli) (\<lambda>share.
     some_or ''overflow'' (Option.bind (checked_add64 d share) (\<lambda>v. checked_mul64 v n)) (\<lambda>pool_0.
     and_then (own_pools d (zip (butlast plan) (butlast exit_fees)) pool_0) (\<lambda>later.
     let pools = pool_0 # later
     in some_or ''the final exit runs out'' (checked_sub64 (last pools) (wrap_mul64 (last plan) d)) (\<lambda>last_fee.
     ensure (last exit_fees \<le> last_fee) ''the final exit pays less than its fee'' (
     and_then (collect_ok (check_member d n fee_rate_milli) members) (\<lambda>_.
     and_then (collect_ok (pool_script (map mb_musig members)) [0..<m]) (\<lambda>pool_scripts.
     let h = fold (\<lambda>mb h. min (mb_height mb) h) (tl members) (mb_height (hd members))
     in ensure (unat my_tip \<le> sat_add32 (unat h) 100) ''the locktime is more than 100 blocks behind'' (
     some_or ''bad locktime'' (lock_time_from_height h) (\<lambda>lock.
     let inputs = sort_key (\<lambda>op. tagged sha ''joinstr/v2/input_order'' [str_bytes pid, ser_outpoint op])
                    (concat (map (\<lambda>mb. map fst (mb_inputs mb)) members));
         outs = sort_key (\<lambda>out. tagged sha ''joinstr/v2/output_order'' [str_bytes pid, ser_txout out])
                  (\<lparr>to_value = pool_0, to_script = pool_scripts ! 0\<rparr> # List.map_filter mb_change members)
     in some_or ''pool output'' (position (\<lambda>out. to_script out = pool_scripts ! 0) outs) (\<lambda>pool_vout.
     let funding = \<lparr>tx_version = 2, tx_lock_time = lock, tx_input = map own_txin inputs, tx_output = outs\<rparr>;
         order = own_order sha pid payouts
     in and_then (own_exits sha pid d lock m pools pool_scripts 1 plan order (compute_txid sha funding, of_nat pool_vout)) (\<lambda>exits.
     Ok \<lparr>rd_funding = funding, rd_pool_vout = pool_vout, rd_exits = exits, rd_pools = pools, rd_exit_share = share,
         rd_pool_scripts = pool_scripts\<rparr>)))))))))))))))"

section \<open>The checks before signing\<close>

definition scripts_apart :: "rederived \<Rightarrow> member list \<Rightarrow> script_buf list \<Rightarrow> unit outcome" where
  "scripts_apart r members payouts =
     (let pools = set (rd_pool_scripts r);
          changes = to_script ` set (List.map_filter mb_change members);
          inputs = (\<Union>mb\<in>set members. (to_script \<circ> snd) ` set (mb_inputs mb))
      in and_then (fold_ok (\<lambda>p seen.
           ensure (p \<notin> seen) ''a payout is registered twice'' (
           ensure (p \<notin> pools) ''a payout equals a pool output's script'' (
           ensure (p \<notin> changes) ''a payout equals a change script'' (
           ensure (p \<notin> inputs) ''a payout equals an input's script'' (
           Ok (insert p seen)))))) payouts {}) (\<lambda>_.
         ensure (changes \<inter> pools = {}) ''a change equals a pool output's script'' (Ok ())))"

definition same_as_rederived :: "pool_txs \<Rightarrow> rederived \<Rightarrow> unit outcome" where
  "same_as_rederived built r =
     ensure (pt_funding built = rd_funding r) ''the funding transaction differs from the re-derivation'' (
     ensure (pt_pool_vout built = rd_pool_vout r) ''the pool output's place differs'' (
     ensure (length (pt_exits built) = length (rd_exits r)) ''another number of exits'' (
     ensure (list_all (\<lambda>(a, b). a = b) (zip (pt_exits built) (rd_exits r))) ''an exit differs from the re-derivation'' (
     ensure (list_all (\<lambda>i. script_sig i = []) (tx_input (pt_funding built))) ''a funding input has a script sig'' (
     Ok ())))))"

definition my_payout_once :: "transaction list \<Rightarrow> script_buf \<Rightarrow> nat \<Rightarrow> unit outcome" where
  "my_payout_once exits mine denomination =
     (let hits = map to_value (filter (\<lambda>out. to_script out = mine) (concat (map tx_output exits)))
      in ensure (length hits = 1) ''my payout does not appear once'' (
         ensure (hd hits = denomination) ''my payout is not the denomination'' (Ok ())))"

definition mine_in_funding :: "transaction \<Rightarrow> member \<Rightarrow> unit outcome" where
  "mine_in_funding funding me =
     and_then (collect_ok (\<lambda>(op, out).
         ensure (length (filter (\<lambda>i. previous_output i = op) (tx_input funding)) = 1) ''my input is not in the funding once'' (Ok ()))
       (mb_inputs me)) (\<lambda>_.
       case mb_change me of
         None \<Rightarrow> Ok ()
       | Some c \<Rightarrow> ensure (length (filter (\<lambda>out. out = c) (tx_output funding)) = 1) ''my change is not in the funding exactly once'' (Ok ()))"

section \<open>Phase 1 pools\<close>

definition phase1_params :: "params \<Rightarrow> nat \<Rightarrow> bool" where
  "phase1_params p d =
     (validate p = Ok () \<and> 3 \<le> p_peers p \<and> p_peers p \<le> 6 \<and> p_classes p = [\<lparr>cls_amount = d, cls_peers = p_peers p\<rparr>] \<and>
      p_exits p = default_exits (p_peers p) \<and> p_exit_rates_milli p = (p_fee_rate_milli p, p_fee_rate_milli p) \<and>
      p_fee_split p = Equal \<and> \<not> p_anchor p \<and> p_structure p = Chain)"

lemma phase1_pool_params:
  assumes "phase1_pool R ev dc now = Ok p"
  shows "phase1_params p (ev_denomination ev)"
proof -
  from assms have ev: "ev_denominations ev = None" "ev_exits ev = None" "ev_exit_fee_rates ev = None" "ev_anchor ev = None"
    "ev_fee_split ev = Equal" "ev_structure ev = Chain" "3 \<le> ev_peers ev" "ev_peers ev \<le> 6" and p: "event_params R ev = Ok p"
    by (auto simp: phase1_pool_def and_then_Ok MIN_PEOPLE_def MAX_PEOPLE_def)
  from p ev show ?thesis
    by (auto simp: event_params_def Let_def and_then_Ok anchor_of_def phase1_params_def with_classes_def)
qed

lemma tagged_same: "tagged sha = tagged_hash sha"
  by (intro ext) (simp add: tagged_def tagged_hash_def)

lemma own_txin_same: "own_txin = pool_txin"
  by (intro ext) (simp add: own_txin_def pool_txin_def)

lemma own_input_weight_same: "(own_input_weight s = Ok w) = (pool_input_weight s = Ok w)"
  by (auto simp: own_input_weight_def pool_input_weight_def)

lemma own_fee_same: "w * r \<le> u64_max \<Longrightarrow> own_fee w r = Ok (pool_fee w r)"
  by (simp add: own_fee_def pool_fee_def checked_mul64_def wrap_mul64_exact)

lemma default_plan_same: "2 \<le> n \<Longrightarrow> default_plan n = default_exits n"
  by (simp add: default_plan_def default_exits_def)

lemma phase1_exits:
  assumes "phase1_params p d"
  shows "p_exits p = default_plan (p_peers p)" and "length (p_exits p) = p_peers p - 1" and "length (exit_costs p) = p_peers p - 1"
    and "anchor_value p = 0" and "list_all (\<lambda>g. g \<le> 2) (p_exits p)"
  using assms by (auto simp: phase1_params_def default_plan_same default_exits_def anchor_value_def list_all_iff)

lemma phase1_rate:
  assumes "phase1_params p d" and "j < length (p_exits p)"
  shows "exit_rate p j = p_fee_rate_milli p"
proof -
  let ?r = "p_fee_rate_milli p" and ?m = "length (p_exits p)"
  have m: "2 \<le> ?m" "?m \<le> 5" using phase1_exits(2) [OF assms(1)] assms by (auto simp: phase1_params_def)
  have r: "?r \<le> 1000000" using assms validate_facts(7) by (auto simp: phase1_params_def)
  have "?r * (?m - 1 - j) + ?r * j = ?r * (?m - 1)" using assms(2) by (simp flip: distrib_left)
  thus ?thesis using exit_rate_exact [of p j] assms m by (simp add: phase1_params_def)
qed

lemma phase1_exit_fee:
  assumes "phase1_params p d" and "(k, g) \<in> set (enumerate 0 (p_exits p))"
  shows "exit_fee (p_fee_rate_milli p) (length (p_exits p)) (k, g) = Ok (ec_fee (exit_cost_of p k g))"
proof -
  have kg: "k < length (p_exits p)" "g \<in> set (p_exits p)" using assms(2) by (auto simp: in_set_enumerate_eq)
  hence g: "g \<le> 2" using phase1_exits(5) [OF assms(1)] by (simp add: list_all_iff)
  have r: "p_fee_rate_milli p \<le> 1000000" using assms(1) validate_facts(7) by (auto simp: phase1_params_def)
  have "(272 + 172 * (g + (if k + 1 < length (p_exits p) then 1 else 0))) * p_fee_rate_milli p \<le> 788 * 1000000"
    by (intro mult_le_mono) (use g r in auto)
  hence max: "(272 + 172 * (g + (if k + 1 < length (p_exits p) then 1 else 0))) * p_fee_rate_milli p \<le> u64_max" by (simp add: u64_max_def)
  show ?thesis using own_fee_same [OF max] phase1_rate [OF assms(1) kg(1)] assms(1)
    by (simp add: exit_fee_def exit_cost_of_def Let_def pool_consts phase1_params_def)
qed

lemma phase1_exit_fees:
  assumes "phase1_params p d"
  shows "collect_ok (exit_fee (p_fee_rate_milli p) (length (p_exits p))) (enumerate 0 (p_exits p)) = Ok (map ec_fee (exit_costs p))"
proof -
  have "collect_ok (exit_fee (p_fee_rate_milli p) (length (p_exits p))) (enumerate 0 (p_exits p)) =
      Ok (map (\<lambda>(k, g). ec_fee (exit_cost_of p k g)) (enumerate 0 (p_exits p)))"
    by (rule collect_ok_map) (use phase1_exit_fee [OF assms] in auto)
  thus ?thesis by (simp add: exit_costs_def comp_def case_prod_unfold)
qed

lemma fold_checked_sum:
  assumes "\<And>x. x \<in> set xs \<Longrightarrow> f x = Ok (g x)" and "a + sum_list (map g xs) \<le> u64_max"
  shows "fold_ok (\<lambda>x total. and_then (f x) (\<lambda>v. some_or e (checked_add64 total v) Ok)) xs a = Ok (a + sum_list (map g xs))"
  using assms by (induction xs arbitrary: a) (auto simp: checked_add64_def add.assoc)

lemma phase1_share:
  assumes "phase1_params p d"
  shows "\<exists>share. exit_share p = Ok share \<and> own_exit_share (p_peers p) (p_fee_rate_milli p) = Ok share"
proof -
  let ?g = "\<lambda>(k, g). ec_fee (exit_cost_of p k g)"
  have valid: "validate p = Ok ()" "p_structure p \<noteq> Tree" "p_fee_split p = Equal" using assms by (auto simp: phase1_params_def)
  have total: "exits_total p = sum_list (map ?g (enumerate 0 (p_exits p)))"
    using phase1_exits(4) [OF assms] by (simp add: exits_total_def exit_costs_def comp_def case_prod_unfold)
  have "exits_total p \<le> u64_max" using exits_total_le [OF valid(1)] by (simp add: u64_max_def)
  hence "fold_ok (\<lambda>kg total. and_then (exit_fee (p_fee_rate_milli p) (length (p_exits p)) kg) (\<lambda>f. some_or ''overflow'' (checked_add64 total f) Ok))
      (enumerate 0 (p_exits p)) 0 = Ok (exits_total p)"
    using fold_checked_sum [of "enumerate 0 (p_exits p)" "exit_fee (p_fee_rate_milli p) (length (p_exits p))" ?g 0] phase1_exit_fee [OF assms] total
    by auto
  thus ?thesis using exit_share_chain [OF valid(1,2)] valid(3) assms phase1_exits(1) [OF assms]
    by (simp add: own_exit_share_def phase1_params_def Let_def)
qed

section \<open>What a member must put in\<close>

definition member_of :: "input_registration \<Rightarrow> member" where
  "member_of r = \<lparr>mb_musig = ir_musig r, mb_inputs = ir_inputs r, mb_change = ir_change r, mb_height = ir_height r\<rparr>"

text \<open>The scripts of addresses are shorter than 253 bytes, so their length takes one byte.\<close>

definition change_standard :: "input_registration \<Rightarrow> bool" where
  "change_standard r = (case ir_change r of None \<Rightarrow> True | Some c \<Rightarrow> length (to_script c) < 253)"

lemma change_standard_short: "change_standard r \<Longrightarrow> change_short r"
  by (auto simp: change_standard_def change_short_def split: option.splits)

lemma own_weights_same:
  "list_all (\<lambda>i. is_p2wpkh (to_script i) \<or> is_p2tr (to_script i)) is \<Longrightarrow>
     fold_ok (\<lambda>spk w. and_then (own_input_weight spk) (\<lambda>v. Ok (wrap_add64 w v))) (map to_script is) w =
     fold_ok (\<lambda>i weight. and_then (pool_input_weight (to_script i)) (\<lambda>w. Ok (wrap_add64 weight w))) is w"
  by (induction "is" arbitrary: w) (auto simp: own_input_weight_def pool_input_weight_def)

text \<open>The weight both rules charge, and its fee.\<close>

lemma member_fee:
  assumes "phase1_params p d" and inputs: "list_all (\<lambda>i. is_p2wpkh (to_script i) \<or> is_p2tr (to_script i)) is" and "length is \<le> 100"
    and short: "case c of None \<Rightarrow> True | Some c \<Rightarrow> length (to_script c) < 253"
  shows "\<exists>w w'. fold_ok (\<lambda>spk w. and_then (own_input_weight spk) (\<lambda>v. Ok (wrap_add64 w v))) (map to_script is) (div_ceil 214 (p_peers p)) = Ok w \<and>
    w' = (case map_option to_script c of None \<Rightarrow> w | Some c \<Rightarrow> wrap_add64 w (4 * (9 + length c))) \<and>
    own_fee w' (p_fee_rate_milli p) = Ok (pool_fee w' (p_fee_rate_milli p)) \<and> pool_fee w' (p_fee_rate_milli p) \<le> 7500000 \<and>
    funding_fee p is c = Ok (pool_fee w' (p_fee_rate_milli p))"
proof -
  have v: "validate p = Ok ()" "3 \<le> p_peers p" using assms(1) by (auto simp: phase1_params_def)
  have r: "p_fee_rate_milli p \<le> 1000000" by (rule validate_facts(7) [OF v(1)])
  have w0: "div_ceil 214 (p_peers p) \<le> 214" using div_ceil_le [of "p_peers p" 214] v(2) by simp
  from input_weights [OF inputs, of "div_ceil 214 (p_peers p)"] w0 assms(3) obtain w where
    w: "fold_ok (\<lambda>i weight. and_then (pool_input_weight (to_script i)) (\<lambda>w. Ok (wrap_add64 weight w))) is (div_ceil 214 (p_peers p)) = Ok w"
    "w \<le> 27414" by (fastforce simp: u64_max_def)
  define w' where "w' = (case map_option to_script c of None \<Rightarrow> w | Some c \<Rightarrow> wrap_add64 w (4 * (9 + length c)))"
  have "w' \<le> 29000" using w(2) short by (auto simp: w'_def u64_max_def wrap_add64_exact split: option.splits)
  hence max: "w' * p_fee_rate_milli p \<le> 29000 * 1000000" using r by (intro mult_le_mono)
  hence fee: "own_fee w' (p_fee_rate_milli p) = Ok (pool_fee w' (p_fee_rate_milli p))" by (intro own_fee_same) (simp add: u64_max_def)
  have "pool_fee w' (p_fee_rate_milli p) \<le> 7500000"
    using max by (simp add: pool_fee_def div_ceil_def wrap_mul64_exact u64_max_def)
  moreover have "funding_fee p is c = Ok (pool_fee w' (p_fee_rate_milli p))"
  proof (cases c)
    case (Some x)
    hence "txout_weight (to_script x) = 4 * (9 + length (to_script x))" using short by (simp add: txout_weight_def compact_size_len_def)
    with Some show ?thesis using w(1) v(2) by (simp add: funding_fee_def SHARED_WEIGHT_def w'_def)
  qed (use w(1) v(2) in \<open>simp add: funding_fee_def SHARED_WEIGHT_def w'_def\<close>)
  ultimately show ?thesis using w(1) fee own_weights_same [OF inputs] by (intro exI [of _ w] exI [of _ w']) (simp add: w'_def)
qed

lemma member_need_same:
  assumes "phase1_params p d" and "reg_fits p r" and "change_standard r"
  shows "member_need d (p_peers p) (p_fee_rate_milli p) (map (to_script \<circ> snd) (ir_inputs r)) (map_option to_script (ir_change r)) =
    required p d (prevouts r) (ir_change r)" and "ir_amount r = d"
proof -
  have v: "validate p = Ok ()" "3 \<le> p_peers p" using assms(1) by (auto simp: phase1_params_def)
  show d: "ir_amount r = d" using reg_amount [OF assms(2)] assms(1) by (simp add: phase1_params_def)
  have "list_all (\<lambda>i. is_p2wpkh (to_script i) \<or> is_p2tr (to_script i)) (prevouts r)" "length (prevouts r) \<le> 100" "ir_inputs r \<noteq> []"
    using assms(2) by (auto simp: reg_fits_def list_all_iff input_fits_def prevouts_def pool_consts)
  note ins = this
  from member_fee [OF assms(1) ins(1,2), of "ir_change r"] assms(3) obtain w w' where
    w: "fold_ok (\<lambda>spk w. and_then (own_input_weight spk) (\<lambda>v. Ok (wrap_add64 w v))) (map to_script (prevouts r)) (div_ceil 214 (p_peers p)) = Ok w"
    "w' = (case map_option to_script (ir_change r) of None \<Rightarrow> w | Some c \<Rightarrow> wrap_add64 w (4 * (9 + length c)))"
    "own_fee w' (p_fee_rate_milli p) = Ok (pool_fee w' (p_fee_rate_milli p))" "pool_fee w' (p_fee_rate_milli p) \<le> 7500000"
    "funding_fee p (prevouts r) (ir_change r) = Ok (pool_fee w' (p_fee_rate_milli p))" by (auto simp: change_standard_def)
  from phase1_share [OF assms(1)] share_small [OF v(1)] obtain share where
    share: "exit_share p = Ok share" "own_exit_share (p_peers p) (p_fee_rate_milli p) = Ok share" "share \<le> 25000024100" by auto
  have "d \<le> 2100000000000000" using validate_facts(11) [OF v(1)] assms(1) by (simp add: phase1_params_def)
  with w share ins(3) v(2) show "member_need d (p_peers p) (p_fee_rate_milli p) (map (to_script \<circ> snd) (ir_inputs r)) (map_option to_script (ir_change r)) =
    required p d (prevouts r) (ir_change r)"
    by (simp add: member_need_def required_def prevouts_def Let_def checked_add64_def wrap_add64_exact u64_max_def)
qed

lemma check_member_ok:
  assumes "phase1_params p d" and "reg_fits p r" and "change_standard r"
  shows "check_member d (p_peers p) (p_fee_rate_milli p) (member_of r) = Ok ()"
proof -
  note need = member_need_same [OF assms]
  note tot = reg_totals [OF assms(2)]
  have fold: "fold_ok (\<lambda>(op, out) total. some_or ''overflow'' (checked_add64 total (to_value out)) Ok) is a = Ok (a + sum_list (map (to_value \<circ> snd) is))"
    if "a + sum_list (map (to_value \<circ> snd) is) \<le> u64_max" for a and "is" :: "(outpoint \<times> txout) list"
    using that by (induction "is" arbitrary: a) (auto simp: checked_add64_def add.assoc)
  have "fold_ok (\<lambda>(op, out) total. some_or ''overflow'' (checked_add64 total (to_value out)) Ok) (ir_inputs r) 0 = Ok (inputs_value r)"
    using fold [of 0 "ir_inputs r"] tot(2) by (simp add: inputs_value_def u64_max_def)
  moreover obtain n where "required p d (prevouts r) (ir_change r) = Ok n" "n \<le> contribution r"
    using assms(2) need(2) by (auto simp: reg_fits_def split: outcome.splits)
  ultimately show ?thesis using need(1) tot assms(2)
    by (simp add: check_member_def member_of_def reg_fits_def checked_sub64_def Let_def flip: change_value_def)
qed

section \<open>The same amounts\<close>

lemma amounts_loop_fees:
  assumes "amounts_loop p m j costs rest before = Ok (pools, exits)" and "j + length costs = m"
  shows "map ea_fee (butlast exits) = map ec_fee (butlast costs) \<and> length exits = length costs"
  using assms
proof (induction costs arbitrary: j rest before pools exits)
  case (Cons c costs)
  from Cons.prems obtain e pools' exits' before' where e: "exit_turn p m j c (take (ec_payouts c) rest) before = Ok e"
    "amounts_loop p m (j + 1) costs (drop (ec_payouts c) rest) before' = Ok (pools', exits')" "exits = e # exits'"
    by (auto simp: and_then_Ok Let_def case_prod_unfold split: option.splits)
  from Cons.IH [OF e(2)] Cons.prems(2) have IH: "map ea_fee (butlast exits') = map ec_fee (butlast costs)" "length exits' = length costs" by auto
  have "ea_fee e = ec_fee c" if "costs \<noteq> []"
    using e(1) that Cons.prems(2) by (auto simp: exit_turn_def Let_def div_ceil_or_abort_def split: if_splits)
  with IH e(3) show ?case by (cases costs; cases exits') auto
qed simp

lemma own_pools_same:
  assumes "balanced 0 before exits" and "list_all2 (\<lambda>g e. sum_list (ea_payouts e) = g * d) gs exits"
    and "map ea_fee (butlast exits) = butlast fs" and "length fs = length exits" and "before \<le> u64_max"
  shows "own_pools d (zip (butlast gs) (butlast fs)) before = Ok (List.map_filter ea_pool exits)"
    and "last (before # List.map_filter ea_pool exits) = sum_list (ea_payouts (last exits)) + ea_fee (last exits)"
proof -
  have "own_pools d (zip (butlast gs) (butlast fs)) before = Ok (List.map_filter ea_pool exits) \<and>
    last (before # List.map_filter ea_pool exits) = sum_list (ea_payouts (last exits)) + ea_fee (last exits)"
    using assms
  proof (induction "0::nat" before exits arbitrary: gs fs rule: balanced.induct)
    case (2 before e)
    thus ?case by (auto simp: list_all2_Cons2 length_Suc_conv map_filter_simps)
  next
    case (3 before e e' es)
    from "3.prems"(1) obtain after where after: "ea_pool e = Some after" "before = sum_list (ea_payouts e) + ea_fee e + after"
      "balanced 0 after (e' # es)" by (auto split: option.splits)
    from "3.prems"(2) obtain g g' gs' where gs: "gs = g # g' # gs'" "sum_list (ea_payouts e) = g * d"
      "list_all2 (\<lambda>g e. sum_list (ea_payouts e) = g * d) (g' # gs') (e' # es)" by (auto simp: list_all2_Cons2)
    from "3.prems"(4) obtain f f' fs' where fs: "fs = f # f' # fs'" by (auto simp: length_Suc_conv)
    have f: "f = ea_fee e" "map ea_fee (butlast (e' # es)) = butlast (f' # fs')" using "3.prems"(3) fs by auto
    have "own_pools d (zip (butlast (g' # gs')) (butlast (f' # fs'))) after = Ok (List.map_filter ea_pool (e' # es)) \<and>
      last (after # List.map_filter ea_pool (e' # es)) = sum_list (ea_payouts (last (e' # es))) + ea_fee (last (e' # es))"
      by (rule "3.hyps" [OF after(1,3) gs(3) f(2)]) (use "3.prems"(4,5) fs after(2) in auto)
    moreover have "wrap_mul64 g d = g * d" using gs(2) after(2) "3.prems"(5) by (intro wrap_mul64_exact) simp
    ultimately show ?case using after gs(1,2) fs f(1)
      by (simp add: map_filter_simps checked_sub64_def)
  qed simp
  thus "own_pools d (zip (butlast gs) (butlast fs)) before = Ok (List.map_filter ea_pool exits)"
    "last (before # List.map_filter ea_pool exits) = sum_list (ea_payouts (last exits)) + ea_fee (last exits)" by simp_all
qed

section \<open>The same exits\<close>

lemma planned_payouts:
  "first + g \<le> length pairs \<Longrightarrow>
     map (planned key (map fst pairs)) (map (\<lambda>(i, v). Payout (first + i) v) (enumerate 0 (replicate g d))) =
     map (\<lambda>(s, pr). \<lparr>to_value = d, to_script = s\<rparr>) (take g (drop first pairs))"
  by (rule nth_equalityI) (auto simp: nth_enumerate_eq planned_def case_prod_unfold)

lemma chain_outs:
  assumes "ea_payouts e = replicate g d" and "first + g \<le> length pairs"
  shows "map (planned key (map fst pairs)) (ep_outs (hd (chain_plans j first (e # es)))) =
    map (\<lambda>(s, pr). \<lparr>to_value = d, to_script = s\<rparr>) (take g (drop first pairs)) @
    (case ea_pool e of None \<Rightarrow> [] | Some v \<Rightarrow> [\<lparr>to_value = v, to_script = key (j + 1)\<rparr>])"
    and "j + 1 < m \<or> ea_pool e = None \<Longrightarrow> list_all (out_in_range (length pairs) m) (ep_outs (hd (chain_plans j first (e # es))))"
    and "List.map_filter (\<lambda>out. case out of Pool i _ \<Rightarrow> Some i | Payout _ _ \<Rightarrow> None) (ep_outs (hd (chain_plans j first (e # es)))) =
      (case ea_pool e of None \<Rightarrow> [] | Some v \<Rightarrow> [j + 1])"
proof -
  have none: "List.map_filter (\<lambda>out. case out of Pool i _ \<Rightarrow> Some i | Payout _ _ \<Rightarrow> None) (map (\<lambda>(i, v). Payout (first + i) v) xs) = []" for xs
    by (induction xs) (auto simp: map_filter_simps)
  have app: "List.map_filter f (xs @ ys) = List.map_filter f xs @ List.map_filter f ys" for f :: "plan_out \<Rightarrow> nat option" and xs ys
    by (simp add: List.map_filter_def)
  show "map (planned key (map fst pairs)) (ep_outs (hd (chain_plans j first (e # es)))) =
    map (\<lambda>(s, pr). \<lparr>to_value = d, to_script = s\<rparr>) (take g (drop first pairs)) @
    (case ea_pool e of None \<Rightarrow> [] | Some v \<Rightarrow> [\<lparr>to_value = v, to_script = key (j + 1)\<rparr>])"
    using planned_payouts [OF assms(2), of key d] assms(1) by (simp add: planned_def split: option.splits)
  show "list_all (out_in_range (length pairs) m) (ep_outs (hd (chain_plans j first (e # es))))" if "j + 1 < m \<or> ea_pool e = None"
    using that assms by (auto simp: list_all_iff out_in_range_def in_set_enumerate_eq split: option.splits)
  show "List.map_filter (\<lambda>out. case out of Pool i _ \<Rightarrow> Some i | Payout _ _ \<Rightarrow> None) (ep_outs (hd (chain_plans j first (e # es)))) =
      (case ea_pool e of None \<Rightarrow> [] | Some v \<Rightarrow> [j + 1])"
    by (simp add: app none map_filter_simps split: option.splits)
qed

text \<open>One turn of both loops.\<close>

lemma own_exit_turn:
  assumes "ea_payouts e = replicate g d" and "first + g \<le> length pairs" and "\<not> p_anchor p"
    and keys: "keys_apart spk key m (map fst pairs)" and "j < length made" and "made ! j = Some (prev, out)"
    and range: "j + 1 < m \<or> ea_pool e = None"
    and run: "build_exits sha p spk (map fst pairs) lock j (chain_plans j first (e # es)) made = Ok built"
  shows "\<exists>tx x rest made' outs. built = (tx, x) # rest \<and> length made' = length made \<and>
    outs = sort_key (\<lambda>out. tagged_hash sha ''joinstr/v2/exit_output_order'' [str_bytes (p_id p), u32_le_bytes (j + 1), ser_txout out])
      (map (\<lambda>(s, pr). \<lparr>to_value = d, to_script = s\<rparr>) (take g (drop first pairs)) @
       (case ea_pool e of None \<Rightarrow> [] | Some v \<Rightarrow> [\<lparr>to_value = v, to_script = key (j + 1)\<rparr>])) \<and>
    tx = \<lparr>tx_version = 2, tx_lock_time = lock, tx_input = [pool_txin prev], tx_output = outs\<rparr> \<and>
    build_exits sha p spk (map fst pairs) lock (j + 1) (chain_plans (j + 1) (first + g) es) made' = Ok rest \<and>
    (ea_pool e \<noteq> None \<longrightarrow> (\<exists>n x. position (\<lambda>out. to_script out = key (j + 1)) outs = Some n \<and> j + 1 < length made \<and>
       made' ! (j + 1) = Some ((compute_txid sha tx, of_nat n), x)))"
proof -
  let ?q = "hd (chain_plans j first (e # es))"
  note outs = chain_outs(1) [OF assms(1,2), where j = j and es = es and key = key] chain_outs(3) [OF assms(1,2), where j = j and es = es]
  have r: "list_all (out_in_range (length pairs) m) (ep_outs ?q)" by (rule chain_outs(2) [OF assms(1,2) range])
  define outs where "outs = sort_key (\<lambda>out. tagged_hash sha ''joinstr/v2/exit_output_order'' [str_bytes (p_id p), u32_le_bytes (j + 1), ser_txout out])
      (map (\<lambda>(s, pr). \<lparr>to_value = d, to_script = s\<rparr>) (take g (drop first pairs)) @
       (case ea_pool e of None \<Rightarrow> [] | Some v \<Rightarrow> [\<lparr>to_value = v, to_script = key (j + 1)\<rparr>]))"
  have built: "exit_outputs sha p ?q spk (map fst pairs) (j + 1) = Ok outs"
    using exit_outputs_planned [OF r _ keys, of sha p "j + 1"] outs(1) assms(3) by (simp add: outs_def anchor_outs_def)
  define tx where "tx = \<lparr>tx_version = 2, tx_lock_time = lock, tx_input = [pool_txin prev], tx_output = outs\<rparr>"
  define q where "q = ?q"
  have plans: "chain_plans j first (e # es) = q # chain_plans (j + 1) (first + g) es" and "ep_from q = j" using assms(1) by (simp_all add: q_def)
  from run obtain link made' rest where parts: "link_of ?q outs spk (map fst pairs) = Ok link"
    "fold_ok (create_output (compute_txid sha tx) tx) (el_to link) made = Ok made'"
    "build_exits sha p spk (map fst pairs) lock (j + 1) (chain_plans (j + 1) (first + g) es) made' = Ok rest"
    "built = (tx, out, link) # rest"
    unfolding plans q_def [symmetric] using built [folded q_def] assms(5,6) \<open>ep_from q = j\<close>
    by (auto simp: and_then_Ok Let_def tx_def)
  have "set outs = set (map (planned key (map fst pairs)) (ep_outs ?q))" unfolding outs(1) by (simp add: outs_def)
  hence mem: "to_script (planned key (map fst pairs) o') \<in> to_script ` set outs" if "o' \<in> set (ep_outs ?q)" for o'
    using that by (simp del: chain_plans.simps)
  from link_outs [OF r _ keys mem, of "[]" "[]"] parts(1) outs(2) have to: "map fst (el_to link) = (case ea_pool e of None \<Rightarrow> [] | Some v \<Rightarrow> [j + 1])"
    "\<forall>(i, n)\<in>set (el_to link). position (\<lambda>out. to_script out = key i) outs = Some n"
    by (auto simp: link_of_def and_then_Ok simp del: chain_plans.simps)
  have len: "length made' = length made"
    by (rule fold_ok_keeps [OF parts(2), where P = "\<lambda>_ made'. length made' = length made"])
      (auto simp: create_output_def case_prod_unfold at_def split: if_splits)
  have "\<exists>n x. position (\<lambda>out. to_script out = key (j + 1)) outs = Some n \<and> j + 1 < length made \<and>
       made' ! (j + 1) = Some ((compute_txid sha tx, of_nat n), x)" if some: "ea_pool e \<noteq> None"
  proof -
    from some to obtain n where n: "el_to link = [(j + 1, n)]" "position (\<lambda>out. to_script out = key (j + 1)) outs = Some n" by auto
    with parts(2) show ?thesis by (auto simp: create_output_def tx_def at_def split: if_splits)
  qed
  with parts len show ?thesis unfolding tx_def outs_def by blast
qed

lemma own_exits_same:
  assumes "list_all2 (\<lambda>g e. ea_payouts e = replicate g d) plan exits" and "balanced 0 before exits"
    and "pools = pre @ before # List.map_filter ea_pool exits" and "j = length pre" and "m = j + length exits"
    and "first + sum_list plan = length pairs" and "\<not> p_anchor p" and keys: "keys_apart spk key m (map fst pairs)"
    and "j < length made" and "made ! j = Some (prev, out)"
    and "build_exits sha p spk (map fst pairs) lock j (chain_plans j first exits) made = Ok built"
  shows "own_exits sha (p_id p) d lock m pools (map key [0..<m]) (j + 1) plan (drop first pairs) prev = Ok (map fst built)"
  using assms(1-6,9-11)
proof (induction exits arbitrary: plan before pre j first made prev out built rule: list.induct)
  case (Cons e exits)
  from Cons.prems(1) obtain g plan' where plan: "plan = g # plan'" "ea_payouts e = replicate g d"
    "list_all2 (\<lambda>g e. ea_payouts e = replicate g d) plan' exits" by (auto simp: list_all2_Cons2)
  have last: "ea_pool e = None \<longleftrightarrow> exits = []" "ea_pool e \<noteq> None \<Longrightarrow> balanced 0 (the (ea_pool e)) exits"
    using Cons.prems(2) by (cases exits; auto split: option.splits)+
  have range: "j + 1 < m \<or> ea_pool e = None" using last(1) Cons.prems(5) by (cases exits) auto
  have fits: "first + g \<le> length pairs" using Cons.prems(6) plan(1) by simp
  from own_exit_turn [OF plan(2) fits assms(7) keys Cons.prems(7,8) range Cons.prems(9)] obtain tx x rest made' outs where
    turn: "built = (tx, x) # rest" "length made' = length made"
    "outs = sort_key (\<lambda>out. tagged_hash sha ''joinstr/v2/exit_output_order'' [str_bytes (p_id p), u32_le_bytes (j + 1), ser_txout out])
      (map (\<lambda>(s, pr). \<lparr>to_value = d, to_script = s\<rparr>) (take g (drop first pairs)) @
       (case ea_pool e of None \<Rightarrow> [] | Some v \<Rightarrow> [\<lparr>to_value = v, to_script = key (j + 1)\<rparr>]))"
    "tx = \<lparr>tx_version = 2, tx_lock_time = lock, tx_input = [pool_txin prev], tx_output = outs\<rparr>"
    "build_exits sha p spk (map fst pairs) lock (j + 1) (chain_plans (j + 1) (first + g) exits) made' = Ok rest"
    and next_out: "ea_pool e \<noteq> None \<Longrightarrow> \<exists>n x. position (\<lambda>out. to_script out = key (j + 1)) outs = Some n \<and> j + 1 < length made \<and>
       made' ! (j + 1) = Some ((compute_txid sha tx, of_nat n), x)" by blast
  show ?case
  proof (cases "ea_pool e")
    case None
    with last(1) plan(3) turn(5) have "exits = []" "plan' = []" "rest = []" by auto
    thus ?thesis using None Cons.prems(5,6) plan(1) turn(1,3,4) by (simp add: Let_def tagged_same own_txin_same)
  next
    case (Some v)
    with next_out obtain n x' where n: "position (\<lambda>out. to_script out = key (j + 1)) outs = Some n" "j + 1 < length made'"
      "made' ! (j + 1) = Some ((compute_txid sha tx, of_nat n), x')" using turn(2) by auto
    have "own_exits sha (p_id p) d lock m pools (map key [0..<m]) (j + 1 + 1) plan' (drop (first + g) pairs) (compute_txid sha tx, of_nat n) =
        Ok (map fst rest)"
      by (rule Cons.IH [OF plan(3) _ _ _ _ _ n(2,3) turn(5), where before = v and pre = "pre @ [before]"])
        (use Some last Cons.prems(3-6) plan(1) in \<open>auto simp: map_filter_simps\<close>)
    moreover have "j + 1 < m" using range Some by simp
    moreover have "pools ! (j + 1) = v" using Cons.prems(3,4) Some by (simp add: nth_append map_filter_simps)
    ultimately show ?thesis using Some plan(1) fits turn(1,3,4) n(1)
      by (simp add: Let_def tagged_same own_txin_same add.commute)
  qed
qed simp

section \<open>The same pool\<close>

lemma sort_key_map: "sort_key f (map g xs) = map g (sort_key (f \<circ> g) xs)"
proof -
  have insort: "insort_key f (g x) (map g ys) = map g (insort_key (f \<circ> g) x ys)" for x ys by (induction ys) auto
  show ?thesis by (induction xs) (simp_all add: insort del: o_apply)
qed

text \<open>Every payout of the pool has the denomination.\<close>

definition payout_of :: "nat \<Rightarrow> script_buf \<times> u8 \<Rightarrow> pool_payout" where
  "payout_of d sp = \<lparr>po_script = fst sp, po_amount = d, po_priority = snd sp\<rparr>"

lemma own_order_same: "payout_order sha pid (map (payout_of d) payouts) = map (payout_of d) (own_order sha pid payouts)"
  by (simp add: payout_order_def own_order_def sort_key_map comp_def payout_of_def order_key_def tagged_same case_prod_unfold)

lemma own_order_length [simp]: "length (own_order sha pid payouts) = length payouts"
  by (simp add: own_order_def)

lemma own_inputs_same:
  "map fst (funding_ins sha p regs) =
     sort_key (\<lambda>op. tagged sha ''joinstr/v2/input_order'' [str_bytes (p_id p), ser_outpoint op])
       (concat (map (\<lambda>mb. map fst (mb_inputs mb)) (map member_of regs)))"
proof -
  have "concat (map (\<lambda>mb. map fst (mb_inputs mb)) (map member_of regs)) = map fst (concat (map ir_inputs regs))"
    by (simp add: map_concat member_of_def comp_def)
  thus ?thesis by (simp add: funding_ins_def sort_key_map order_key_def tagged_same comp_def case_prod_unfold del: map_map)
qed

lemma own_outputs_same:
  "funding_outs sha p regs v s =
     sort_key (\<lambda>out. tagged sha ''joinstr/v2/output_order'' [str_bytes (p_id p), ser_txout out])
       (\<lparr>to_value = v, to_script = s\<rparr> # List.map_filter mb_change (map member_of regs))"
  by (simp add: funding_outs_def order_key_def tagged_same List.map_filter_def filter_map comp_def member_of_def del: sort_key_simps)

lemma own_height_same:
  assumes "regs \<noteq> []"
  shows "fold (\<lambda>mb h. min (mb_height mb) h) (tl (map member_of regs)) (mb_height (hd (map member_of regs))) = locktime regs"
proof -
  have "fold (\<lambda>mb h. min (mb_height mb) h) (map member_of rs) h = fold (\<lambda>r h. min (ir_height r) h) rs h" for rs h
    by (induction rs arbitrary: h) (simp_all add: member_of_def)
  with assms show ?thesis by (cases regs) (simp_all add: locktime_def member_of_def)
qed

lemma chain_payouts_same:
  assumes "p_fee_split p = Equal" and "sum_list (map ec_payouts costs) \<le> n"
  shows "chain_payouts p costs (replicate n d) = map (\<lambda>c. replicate (ec_payouts c) d) costs"
  using assms(2)
proof (induction costs arbitrary: n)
  case (Cons c costs)
  thus ?case using assms(1) by (simp add: exit_payouts_def min_def)
qed simp

lemma list_all2_last: "list_all2 P xs ys \<Longrightarrow> xs \<noteq> [] \<Longrightarrow> P (last xs) (last ys)"
  by (induction xs ys rule: list_all2_induct) (auto dest: list_all2_lengthD)

text \<open>The amounts of a Phase 1 pool, by both rules.\<close>

lemma phase1_amounts:
  assumes "phase1_params p d" and n: "n = p_peers p"
  shows "\<exists>share exits. own_exit_share n (p_fee_rate_milli p) = Ok share \<and>
    Option.bind (checked_add64 d share) (\<lambda>v. checked_mul64 v n) = Some (pool_zero p (replicate n d)) \<and>
    exit_set_of p (replicate n d) = Ok \<lparr>es_plans = chain_plans 0 0 exits, es_pools = pool_zero p (replicate n d) # List.map_filter ea_pool exits\<rparr> \<and>
    balanced 0 (pool_zero p (replicate n d)) exits \<and> list_all2 (\<lambda>g e. ea_payouts e = replicate g d) (default_plan n) exits \<and>
    own_pools d (zip (butlast (default_plan n)) (butlast (map ec_fee (exit_costs p)))) (pool_zero p (replicate n d)) = Ok (List.map_filter ea_pool exits) \<and>
    checked_sub64 (last (pool_zero p (replicate n d) # List.map_filter ea_pool exits)) (wrap_mul64 (last (default_plan n)) d) = Some (ea_fee (last exits)) \<and>
    last (map ec_fee (exit_costs p)) \<le> ea_fee (last exits)"
proof -
  let ?zero = "pool_zero p (replicate n d)" and ?costs = "exit_costs p"
  have v: "validate p = Ok ()" "p_structure p = Chain" "p_fee_split p = Equal" "p_classes p = [\<lparr>cls_amount = d, cls_peers = p_peers p\<rparr>]"
    using assms(1) by (auto simp: phase1_params_def)
  note ex = phase1_exits [OF assms(1), folded n]
  have fit: "payouts_fit p (replicate n d)" using v(4) n by (auto simp: payouts_fit_def)
  from phase1_share [OF assms(1)] n obtain share where share: "exit_share p = Ok share" "own_exit_share n (p_fee_rate_milli p) = Ok share" by auto
  have share_eq: "share = (case p_fee_split p of Equal \<Rightarrow> div_ceil (exits_total p) (p_peers p) | ByExit \<Rightarrow> 0)"
    using share(1) exit_share_chain [OF v(1)] v(2) by simp
  note zero = pool_zero_exact [OF v(1) fit share(1) share_eq]
  from amounts_exact [OF v(1) fit] v(2) ex(4) obtain exits where exits:
    "amounts_of p (replicate n d) = Ok \<lparr>am_pools = ?zero # List.map_filter ea_pool exits, am_exits = exits\<rparr>"
    "balanced 0 ?zero exits" "map ea_payouts exits = chain_payouts p ?costs (replicate n d)" "list_all2 pays_cost ?costs exits" by auto
  have loop: "amounts_loop p (length ?costs) 0 ?costs (replicate n d) ?zero = Ok (List.map_filter ea_pool exits, exits)"
    using exits(1) share(1) zero(1) exit_share_chain [OF v(1)] v(2) by (auto simp: amounts_of_def and_then_Ok Let_def)
  have sums: "sum_list (map ec_payouts ?costs) \<le> n" using validate_facts(5) [OF v(1)] n by (simp add: exit_costs_payouts)
  have payouts: "map ea_payouts exits = map (\<lambda>g. replicate g d) (default_plan n)"
    unfolding exits(3) chain_payouts_same [OF v(3) sums] ex(1) [symmetric] exit_costs_payouts [symmetric] by simp
  hence "list_all2 (=) (map ea_payouts exits) (map (\<lambda>g. replicate g d) (default_plan n))" by (simp only: list.rel_eq)
  hence "list_all2 (\<lambda>e g. ea_payouts e = replicate g d) exits (default_plan n)" by (simp only: list.rel_map)
  hence all: "list_all2 (\<lambda>g e. ea_payouts e = replicate g d) (default_plan n) exits" by (simp add: list_all2_conv_all_nth)
  hence sum: "list_all2 (\<lambda>g e. sum_list (ea_payouts e) = g * d) (default_plan n) exits"
    by (rule list_all2_mono) (simp add: sum_list_replicate)
  note fees = amounts_loop_fees [OF loop]
  have len: "length exits = length ?costs" "length (default_plan n) = length exits" using fees all by (auto dest: list_all2_lengthD)
  have "map ea_fee (butlast exits) = butlast (map ec_fee ?costs)" using fees by (simp add: map_butlast)
  note pools = own_pools_same [OF exits(2) sum this _ zero(2)]
  have ne: "exits \<noteq> []" "default_plan n \<noteq> []" "?costs \<noteq> []" using exits(2) len by (auto simp flip: length_greater_0_conv)
  have last: "sum_list (ea_payouts (last exits)) = last (default_plan n) * d" "last (map ec_fee ?costs) \<le> ea_fee (last exits)"
    using list_all2_last [OF sum ne(2)] list_all2_last [OF exits(4) ne(3)] ne(3) by (simp_all add: pays_cost_def last_map)
  have d: "d \<le> 2100000000000000" using validate_facts(11) [OF v(1)] v(4) by simp
  have "last (default_plan n) \<le> 2" using ex(5) ne(2) by (simp add: list_all_iff ex(1))
  hence "last (default_plan n) * d \<le> 2 * 2100000000000000" using d by (rule mult_le_mono)
  hence mul: "wrap_mul64 (last (default_plan n)) d = last (default_plan n) * d" by (intro wrap_mul64_exact) (simp add: u64_max_def)
  have "pool_zero p (replicate n d) = (d + share) * n"
    using share(1) exit_share_chain [OF v(1)] v(2,3) by (simp add: pool_zero_def sum_list_replicate algebra_simps)
  moreover have "share \<le> 25000024100" using share_small [OF v(1)] share(1) by auto
  ultimately have "Option.bind (checked_add64 d share) (\<lambda>v. checked_mul64 v n) = Some ?zero"
    using d zero(2) exit_share_chain [OF v(1)] v(2,3) share(1) by (simp add: checked_add64_def checked_mul64_def u64_max_def)
  thus ?thesis using share(2) exits(1,2) all pools last mul len v(2)
    by (intro exI [of _ share] exI [of _ exits]) (simp add: exit_set_of_def chain_set_def checked_sub64_def)
qed

lemma balanced_pools: "balanced anchor before es \<Longrightarrow> length (before # List.map_filter ea_pool es) = length es"
  by (induction anchor before es rule: balanced.induct) (auto simp: map_filter_simps split: option.splits)

lemma phase1_total:
  assumes "check_input_registrations p regs = Ok ()" and "p_peers p \<le> 6"
  shows "sum_list (map inputs_value regs) \<le> u64_max"
proof -
  have "list_all (reg_fits p) regs" "length regs \<le> 6" using assms by (auto simp: registrations_accepted)
  hence "inputs_value r \<le> 210000000000000000" if "r \<in> set regs" for r
    using reg_totals(2) [of p r] that by (auto simp: list_all_iff)
  hence "sum_list (map inputs_value regs) \<le> length (map inputs_value regs) * 210000000000000000" by (intro sum_list_bound) auto
  thus ?thesis using \<open>length regs \<le> 6\<close> by (simp add: u64_max_def)
qed

lemma rederive_run:
  assumes phase1: "phase1_params p d" and regs: "check_input_registrations p regs = Ok ()" and standard: "list_all change_standard regs"
    and len: "length payouts = p_peers p" and height: "locktime regs < 500000000"
    and tip: "unat my_tip \<le> sat_add32 (unat (locktime regs)) 100"
    and own_keys: "\<forall>i<p_peers p - 1. pool_script (map ir_musig regs) i = Ok (key i)"
    and v: "position (\<lambda>out. to_script out = key 0) (funding_outs sha p regs zero (key 0)) = Some v"
    and share: "own_exit_share (p_peers p) (p_fee_rate_milli p) = Ok share"
      "Option.bind (checked_add64 d share) (\<lambda>v. checked_mul64 v (p_peers p)) = Some zero"
    and pools: "own_pools d (zip (butlast (default_plan (p_peers p))) (butlast (map ec_fee (exit_costs p)))) zero = Ok later"
      "checked_sub64 (last (zero # later)) (wrap_mul64 (last (default_plan (p_peers p))) d) = Some last_fee"
      "last (map ec_fee (exit_costs p)) \<le> last_fee"
    and exits: "own_exits sha (p_id p) d (locktime regs) (p_peers p - 1) (zero # later) (map key [0..<p_peers p - 1]) 1
      (default_plan (p_peers p)) (own_order sha (p_id p) payouts) (compute_txid sha (funding_tx sha p regs zero (key 0)), of_nat v) = Ok txs"
  shows "rederive sha pool_script (p_id p) d (p_fee_rate_milli p) (map member_of regs) payouts my_tip =
    Ok \<lparr>rd_funding = funding_tx sha p regs zero (key 0), rd_pool_vout = v, rd_exits = txs, rd_pools = zero # later, rd_exit_share = share,
        rd_pool_scripts = map key [0..<p_peers p - 1]\<rparr>"
proof -
  have n: "length regs = p_peers p" "3 \<le> p_peers p" "p_peers p \<le> 6" "list_all (reg_fits p) regs"
    using regs phase1 by (auto simp: registrations_accepted phase1_params_def)
  note ex = phase1_exits [OF phase1]
  have fees: "collect_ok (exit_fee (p_fee_rate_milli p) (p_peers p - 1)) (enumerate 0 (default_plan (p_peers p))) = Ok (map ec_fee (exit_costs p))"
    using phase1_exit_fees [OF phase1] ex(1,2) by simp
  have "collect_ok (check_member d (p_peers p) (p_fee_rate_milli p)) (map member_of regs) = Ok (map (\<lambda>_. ()) (map member_of regs))"
    by (rule collect_ok_map) (use check_member_ok [OF phase1] n(4) standard in \<open>auto simp: list_all_iff\<close>)
  moreover have "collect_ok (pool_script (map ir_musig regs)) [0..<p_peers p - 1] = Ok (map key [0..<p_peers p - 1])"
    by (rule collect_ok_map) (use own_keys in auto)
  moreover have "map mb_musig (map member_of regs) = map ir_musig regs" by (simp add: member_of_def comp_def)
  moreover have "length (default_plan (p_peers p)) = p_peers p - 1" using ex(1,2) by simp
  moreover have "map key [0..<p_peers p - 1] ! 0 = key 0" using n(2) by simp
  moreover have "regs \<noteq> []" using n(1,2) by auto
  moreover have "map pool_txin (map fst (funding_ins sha p regs)) = map (pool_txin \<circ> fst) (funding_ins sha p regs)" by simp
  ultimately show ?thesis
    using n(1-3) len fees share pools v own_height_same [of regs] tip height exits own_inputs_same [of sha p regs, symmetric]
      own_outputs_same [of sha p regs zero "key 0", symmetric]
    by (simp add: rederive_def Let_def lock_time_from_height_def funding_tx_def own_txin_same
      del: map_map sort_key_simps last.simps checked_sub64_Some)
qed

text \<open>The pool built from a Phase 1 pool's registrations and payouts.\<close>

lemma phase1_build:
  assumes phase1: "phase1_params p d" and regs: "check_input_registrations p regs = Ok ()"
    and standard: "list_all change_standard regs" and len: "length payouts = p_peers p" and height: "locktime regs < 500000000"
    and keys: "keys_apart spk key (p_peers p - 1) (map fst payouts)" and change: "key 0 \<notin> set (concat (map reg_scripts regs))"
    and es: "exit_set_of p (replicate (p_peers p) d) = Ok \<lparr>es_plans = plans, es_pools = zero # later\<rparr>" and "length later = p_peers p - 2"
  shows "\<exists>v built. position (\<lambda>out. to_script out = key 0) (funding_outs sha p regs zero (key 0)) = Some v \<and>
    build_exits sha p spk (map fst (own_order sha (p_id p) payouts)) (locktime regs) 0 plans
      ((replicate (p_peers p - 1) None)[0 := Some ((compute_txid sha (funding_tx sha p regs zero (key 0)), of_nat v),
        \<lparr>to_value = zero, to_script = key 0\<rparr>)]) = Ok built \<and>
    build sha p regs (map (payout_of d) payouts) spk = Ok (built_txs sha p regs (map (payout_of d) payouts) zero (key 0) v built)"
proof -
  let ?payouts = "map (payout_of d) payouts" and ?es = "\<lparr>es_plans = plans, es_pools = zero # later\<rparr>"
  have v: "validate p = Ok ()" "p_peers p \<le> 6" "p_classes p = [\<lparr>cls_amount = d, cls_peers = p_peers p\<rparr>]" "3 \<le> p_peers p"
    using phase1 by (auto simp: phase1_params_def)
  have pools: "length (es_pools ?es) = p_peers p - 1" "es_pools ?es ! 0 = zero" "es_plans ?es = plans" using assms(9) v(4) by simp_all
  have scripts: "map po_script (payout_order sha (p_id p) ?payouts) = map fst (own_order sha (p_id p) payouts)" "map po_script ?payouts = map fst payouts"
    by (simp_all add: own_order_same payout_of_def comp_def)
  have "map po_amount (payout_order sha (p_id p) ?payouts) = replicate (p_peers p) d"
    using len by (simp add: own_order_same payout_of_def comp_def map_replicate_const)
  hence es': "exit_set_of p (map po_amount (payout_order sha (p_id p) ?payouts)) = Ok ?es" using es by simp
  have fills: "fills_classes p (map po_amount ?payouts)"
    using v(3) len by (auto simp: fills_classes_def comp_def payout_of_def map_replicate_const)
  have short: "list_all change_short regs" using standard change_standard_short by (auto simp: list_all_iff)
  have len': "length ?payouts = p_peers p" using len by simp
  have keys': "keys_apart spk key (length (es_pools ?es)) (map po_script ?payouts)" using keys by (simp only: pools scripts)
  note run = build_run [where op = "\<lambda>v. (compute_txid sha (funding_tx sha p regs (es_pools ?es ! 0) (key 0)), of_nat v)",
    OF v(1) regs short fills len' height phase1_total [OF regs v(2)] es' keys' change refl]
  show ?thesis using run unfolding pools scripts by blast
qed

section \<open>Properties\<close>

text \<open>C4: the phone's own derivation gives the pool that was built. For a pool the phone accepts (Phase 1), registrations
  that pass the pool's checks with change to an address, one payout per member, a locktime that is a block height at most
  100 blocks old, and pool scripts on which the two key derivations agree, apart from every payout and change, the pool's
  transactions are built, the second derivation, from the members' coins and the payouts alone, succeeds, and the
  comparison before signing accepts: the same funding transaction, the same place of the pool output and the same exits.\<close>

theorem rederivation_agrees:
  assumes accepted: "phase1_pool R ev dc now = Ok p" and regs: "check_input_registrations p regs = Ok ()"
    and standard: "list_all change_standard regs" and len: "length payouts = p_peers p" and height: "locktime regs < 500000000"
    and tip: "unat my_tip \<le> sat_add32 (unat (locktime regs)) 100"
    and keys: "keys_apart spk key (p_peers p - 1) (map fst payouts)"
    and own_keys: "\<forall>i<p_peers p - 1. pool_script (map ir_musig regs) i = Ok (key i)"
    and change: "key 0 \<notin> set (concat (map reg_scripts regs))"
  shows "\<exists>txs r. build sha p regs (map (payout_of (ev_denomination ev)) payouts) spk = Ok txs \<and>
    rederive sha pool_script (p_id p) (ev_denomination ev) (p_fee_rate_milli p) (map member_of regs) payouts my_tip = Ok r \<and>
    same_as_rederived txs r = Ok ()"
proof -
  let ?d = "ev_denomination ev" and ?n = "p_peers p"
  let ?order = "own_order sha (p_id p) payouts" and ?zero = "pool_zero p (replicate ?n ?d)"
  note phase1 = phase1_pool_params [OF accepted]
  have v: "validate p = Ok ()" "\<not> p_anchor p" "3 \<le> ?n" using phase1 by (auto simp: phase1_params_def)
  from phase1_amounts [OF phase1 refl] obtain share exits where amounts: "own_exit_share ?n (p_fee_rate_milli p) = Ok share"
    "Option.bind (checked_add64 ?d share) (\<lambda>v. checked_mul64 v ?n) = Some ?zero"
    "exit_set_of p (replicate ?n ?d) = Ok \<lparr>es_plans = chain_plans 0 0 exits, es_pools = ?zero # List.map_filter ea_pool exits\<rparr>"
    "balanced 0 ?zero exits" "list_all2 (\<lambda>g e. ea_payouts e = replicate g ?d) (default_plan ?n) exits"
    "own_pools ?d (zip (butlast (default_plan ?n)) (butlast (map ec_fee (exit_costs p)))) ?zero = Ok (List.map_filter ea_pool exits)"
    "checked_sub64 (last (?zero # List.map_filter ea_pool exits)) (wrap_mul64 (last (default_plan ?n)) ?d) = Some (ea_fee (last exits))"
    "last (map ec_fee (exit_costs p)) \<le> ea_fee (last exits)" by blast
  have plan: "length exits = ?n - 1" "sum_list (default_plan ?n) = ?n"
    using list_all2_lengthD [OF amounts(5)] phase1_exits(1,2) [OF phase1] validate_facts(5) [OF v(1)] by simp_all
  hence "length (List.map_filter ea_pool exits) = ?n - 2" using balanced_pools [OF amounts(4)] by simp
  from phase1_build [OF phase1 regs standard len height keys change amounts(3) this] obtain w built where
    w: "position (\<lambda>out. to_script out = key 0) (funding_outs sha p regs ?zero (key 0)) = Some w"
    and built: "build_exits sha p spk (map fst ?order) (locktime regs) 0 (chain_plans 0 0 exits)
      ((replicate (?n - 1) None)[0 := Some ((compute_txid sha (funding_tx sha p regs ?zero (key 0)), of_nat w),
        \<lparr>to_value = ?zero, to_script = key 0\<rparr>)]) = Ok built"
    and run: "build sha p regs (map (payout_of ?d) payouts) spk = Ok (built_txs sha p regs (map (payout_of ?d) payouts) ?zero (key 0) w built)"
    by blast
  have keys': "keys_apart spk key (?n - 1) (map fst ?order)" using keys by (simp add: keys_apart_def own_order_def)
  have "own_exits sha (p_id p) ?d (locktime regs) (?n - 1) (?zero # List.map_filter ea_pool exits) (map key [0..<?n - 1]) (0 + 1)
      (default_plan ?n) (drop 0 ?order) (compute_txid sha (funding_tx sha p regs ?zero (key 0)), of_nat w) = Ok (map fst built)"
    by (rule own_exits_same [OF amounts(5,4) _ _ _ _ v(2) keys' _ _ built, where pre = "[]"]) (use plan len v(3) in auto)
  with rederive_run [where key = key and pool_script = pool_script, OF phase1 regs standard len height tip own_keys w amounts(1,2,6,7,8)] run show ?thesis
    by (auto simp: same_as_rederived_def built_txs_def list_all_iff zip_same_conv_map funding_tx_def pool_txin_def)
qed

text \<open>Fee rates given in thousandths of a satoshi per byte.\<close>

definition example_rates :: "nat rate_ops" where
  "example_rates = \<lparr>milli = Ok, whole_milli = (\<lambda>_. True), rate_between = (\<lambda>lo hi r. lo * 1000 \<le> r \<and> r \<le> hi * 1000)\<rparr>"

definition example_event :: "nat pool_event" where
  "example_event =
     \<lparr>ev_versions = [''2''], ev_id = ''ab'', ev_network = ''mainnet'', ev_kind = ''new_pool'', ev_denomination = 100000, ev_peers = 3,
      ev_timeout = 1100, ev_relays = [''wss''], ev_fee_rate = 2000, ev_broadcast = Now, ev_denominations = None, ev_exits = None,
      ev_exit_fee_rates = None, ev_fee_split = Equal, ev_anchor = None, ev_structure = Chain,
      ev_payout_type = p_payout_type (new_params ''ab'' 100000 3 2000), ev_tor = False, ev_vpn = False\<rparr>"

definition example_declared :: declared where
  "example_declared =
     \<lparr>dc_sizes = [100000], dc_max_fee_sat_vb = 50, dc_relay = ''wss'', dc_network = ''bitcoin'', dc_max_timeout_s = 600\<rparr>"

lemma example_phase1: "phase1_pool example_rates example_event example_declared 1000 = Ok (new_params ''ab'' 100000 3 2000)"
proof -
  have "event_params example_rates example_event = Ok (new_params ''ab'' 100000 3 2000)"
    using example_valid
    by (simp add: event_params_def example_rates_def example_event_def anchor_of_def new_params_def with_classes_def)
  thus ?thesis
    by (simp add: phase1_pool_def example_rates_def example_event_def example_declared_def wire_network_def MIN_PEOPLE_def MAX_PEOPLE_def
      RELAY_MIN_SAT_VB_def sat_add64_def u64_max_def new_params_def with_classes_def)
qed

theorem rederivation_agrees_witness:
  "\<exists>txs r. build example_sha (new_params ''ab'' 100000 3 2000) (map example_reg [1, 2, 3])
       (map (payout_of 100000) (map (\<lambda>i. (po_script (example_payout i), 0)) [1, 2, 3])) (\<lambda>i. Ok (replicate (i + 35) 1)) = Ok txs \<and>
     rederive example_sha (\<lambda>_ i. Ok (replicate (i + 35) 1)) ''ab'' 100000 2000 (map member_of (map example_reg [1, 2, 3]))
       (map (\<lambda>i. (po_script (example_payout i), 0)) [1, 2, 3]) 800010 = Ok r \<and>
     same_as_rederived txs r = Ok ()"
proof -
  have ev: "ev_denomination example_event = 100000" and p: "p_id (new_params ''ab'' 100000 3 2000) = ''ab''"
    "p_fee_rate_milli (new_params ''ab'' 100000 3 2000) = 2000" by (simp_all add: example_event_def new_params_def with_classes_def)
  let ?payouts = "map (\<lambda>i. (po_script (example_payout i), 0::u8)) [1, 2, 3]"
  have keys: "keys_apart (\<lambda>i. Ok (replicate (i + 35) 1)) (\<lambda>i. replicate (i + 35) 1) n (map fst ?payouts)" for n
    using example_keys by simp
  show ?thesis
    by (rule rederivation_agrees [OF example_phase1 example_registrations _ _ _ _ keys, unfolded ev p])
      (simp_all add: example_reg_def change_standard_def new_params_def with_classes_def locktime_def sat_add32_def u32_max_def reg_scripts_def)
qed

end
