(* ===== verification/Pool_Sign.thy ===== *)
theory Pool_Sign
  imports Pool_Build "HOL-Library.List_Lexorder"
begin

text \<open>
  The signatures of a coin pool's exits (\<open>patches/joinstr-v2/src/sign.rs\<close>, with \<open>util.rs\<close> and the key-spend signature
  hash of \<open>vendor/bitcoin/src/crypto/sighash.rs\<close>): the messages signed, the secret nonces bound to them, the partial
  signatures, their aggregation, which names every bad signer, and the witnesses of the exits. The curve operations of
  the musig2 and secp256k1 crates are the fields of an argument \<open>K\<close>.
\<close>

section \<open>Hex\<close>

definition hex_char :: "nat \<Rightarrow> char" where
  "hex_char n = (if n < 10 then char_of (48 + n) else char_of (87 + n))"

definition hex_encode :: "bytes \<Rightarrow> string" where
  "hex_encode bs = concat (map (\<lambda>b. [hex_char (unat b div 16), hex_char (unat b mod 16)]) bs)"

definition hex_val :: "char \<Rightarrow> nat option" where
  "hex_val c =
     (let n = of_char c :: nat in
      if 65 \<le> n \<and> n \<le> 70 then Some (n - 55) else if 97 \<le> n \<and> n \<le> 102 then Some (n - 87)
      else if 48 \<le> n \<and> n \<le> 57 then Some (n - 48) else None)"

fun hex_decode :: "string \<Rightarrow> bytes option" where
  "hex_decode [] = Some []"
| "hex_decode [c] = None"
| "hex_decode (c # d # s) =
     (case (hex_val c, hex_val d) of
        (Some h, Some l) \<Rightarrow> map_option (\<lambda>bs. of_nat (16 * h + l) # bs) (hex_decode s)
      | _ \<Rightarrow> None)"

definition lower_hex :: "char \<Rightarrow> bool" where
  "lower_hex c = (let n = of_char c :: nat in 48 \<le> n \<and> n \<le> 57 \<or> 97 \<le> n \<and> n \<le> 102)"

definition strict_hex :: "string \<Rightarrow> nat \<Rightarrow> bytes outcome" where
  "strict_hex s n =
     ensure (length s = 2 * n \<and> list_all lower_hex s) ''expected bytes of lowercase hex'' (
     some_or ''hex'' (hex_decode s) Ok)"

definition strict_hex_range :: "string \<Rightarrow> nat \<Rightarrow> nat \<Rightarrow> bytes outcome" where
  "strict_hex_range s lo hi =
     ensure (\<not> (length s mod 2 \<noteq> 0 \<or> length s < 2 * lo \<or> 2 * hi < length s)) ''expected bytes of lowercase hex'' (
     strict_hex s (length s div 2))"

section \<open>The key-spend signature hash\<close>

datatype tap_sighash_type =
    SighashDefault | SighashAll | SighashNone | SighashSingle
  | AllPlusAnyoneCanPay | NonePlusAnyoneCanPay | SinglePlusAnyoneCanPay

fun tap_type_byte :: "tap_sighash_type \<Rightarrow> u8" where
  "tap_type_byte SighashDefault = 0x00"
| "tap_type_byte SighashAll = 0x01"
| "tap_type_byte SighashNone = 0x02"
| "tap_type_byte SighashSingle = 0x03"
| "tap_type_byte AllPlusAnyoneCanPay = 0x81"
| "tap_type_byte NonePlusAnyoneCanPay = 0x82"
| "tap_type_byte SinglePlusAnyoneCanPay = 0x83"

fun split_anyonecanpay :: "tap_sighash_type \<Rightarrow> tap_sighash_type \<times> bool" where
  "split_anyonecanpay AllPlusAnyoneCanPay = (SighashAll, True)"
| "split_anyonecanpay NonePlusAnyoneCanPay = (SighashNone, True)"
| "split_anyonecanpay SinglePlusAnyoneCanPay = (SighashSingle, True)"
| "split_anyonecanpay t = (t, False)"

datatype prevouts_given = PrevoutsOne nat txout | PrevoutsAll "txout list"

definition prevouts_all :: "prevouts_given \<Rightarrow> txout list outcome" where
  "prevouts_all ps = (case ps of PrevoutsAll outs \<Rightarrow> Ok outs | PrevoutsOne _ _ \<Rightarrow> Err ''PrevoutsKind'')"

definition prevout_at :: "prevouts_given \<Rightarrow> nat \<Rightarrow> txout outcome" where
  "prevout_at ps i =
     (case ps of
        PrevoutsOne j out \<Rightarrow> ensure (i = j) ''InvalidOneIndex'' (Ok out)
      | PrevoutsAll outs \<Rightarrow> ensure (i < length outs) ''InvalidAllIndex'' (Ok (outs ! i)))"

text \<open>The hashes over all inputs, all spent outputs and all outputs.\<close>

definition sha_prevouts :: "sha256 \<Rightarrow> transaction \<Rightarrow> bytes" where
  "sha_prevouts sha tx = hash_bytes (sha (concat (map (ser_outpoint \<circ> previous_output) (tx_input tx))))"

definition sha_sequences :: "sha256 \<Rightarrow> transaction \<Rightarrow> bytes" where
  "sha_sequences sha tx = hash_bytes (sha (concat (map (\<lambda>i. u32_le_bytes (unat (ti_sequence i))) (tx_input tx))))"

definition sha_outputs :: "sha256 \<Rightarrow> transaction \<Rightarrow> bytes" where
  "sha_outputs sha tx = hash_bytes (sha (concat (map ser_txout (tx_output tx))))"

definition sha_amounts :: "sha256 \<Rightarrow> txout list \<Rightarrow> bytes" where
  "sha_amounts sha outs = hash_bytes (sha (concat (map (\<lambda>o'. u64_le_bytes (to_value o')) outs)))"

definition sha_scripts :: "sha256 \<Rightarrow> txout list \<Rightarrow> bytes" where
  "sha_scripts sha outs = hash_bytes (sha (concat (map (ser_script \<circ> to_script) outs)))"

text \<open>What is written before the data about this input; about this input; and about one output and the script path.\<close>

definition sighash_common :: "sha256 \<Rightarrow> transaction \<Rightarrow> prevouts_given \<Rightarrow> tap_sighash_type \<Rightarrow> bytes outcome" where
  "sighash_common sha tx ps ty =
     (let (base, anyone) = split_anyonecanpay ty;
          head = [0, tap_type_byte ty] @ u32_le_bytes (tx_version tx) @ u32_le_bytes (unat (tx_lock_time tx));
          outs = (if base \<noteq> SighashNone \<and> base \<noteq> SighashSingle then sha_outputs sha tx else [])
      in if anyone then Ok (head @ outs)
         else and_then (prevouts_all ps) (\<lambda>spent.
           Ok (head @ sha_prevouts sha tx @ sha_amounts sha spent @ sha_scripts sha spent @ sha_sequences sha tx @ outs)))"

definition sighash_input :: "transaction \<Rightarrow> nat \<Rightarrow> prevouts_given \<Rightarrow> bool \<Rightarrow> bytes outcome" where
  "sighash_input tx i ps anyone =
     (if anyone
      then ensure (i < length (tx_input tx)) ''InputsIndex'' (
           and_then (prevout_at ps i) (\<lambda>out.
             Ok (ser_outpoint (previous_output (tx_input tx ! i)) @ u64_le_bytes (to_value out) @ ser_script (to_script out) @
                 u32_le_bytes (unat (ti_sequence (tx_input tx ! i))))))
      else Ok (u32_le_bytes i))"

definition taproot_signing_data ::
  "sha256 \<Rightarrow> transaction \<Rightarrow> nat \<Rightarrow> prevouts_given \<Rightarrow> bytes option \<Rightarrow> (hash256 \<times> nat) option \<Rightarrow> tap_sighash_type \<Rightarrow> bytes outcome" where
  "taproot_signing_data sha tx i ps annex leaf ty =
     ensure (case ps of PrevoutsAll outs \<Rightarrow> length outs = length (tx_input tx) | PrevoutsOne _ _ \<Rightarrow> True) ''PrevoutsSize'' (
     and_then (sighash_common sha tx ps ty) (\<lambda>common.
     let spend_type = (if annex = None then 0 else 1) + (if leaf = None then 0 else 2)
     in and_then (sighash_input tx i ps (snd (split_anyonecanpay ty))) (\<lambda>this.
     and_then (if fst (split_anyonecanpay ty) = SighashSingle
               then ensure (i < length (tx_output tx)) ''SingleMissingOutput'' (Ok (hash_bytes (sha (ser_txout (tx_output tx ! i)))))
               else Ok []) (\<lambda>single.
     Ok (common @ [spend_type] @ this @ (case annex of Some a \<Rightarrow> hash_bytes (sha (ser_script a)) | None \<Rightarrow> []) @ single @
         (case leaf of Some (h, pos) \<Rightarrow> hash_bytes h @ [0] @ u32_le_bytes pos | None \<Rightarrow> []))))))"

definition key_spend_sighash :: "sha256 \<Rightarrow> transaction \<Rightarrow> nat \<Rightarrow> prevouts_given \<Rightarrow> tap_sighash_type \<Rightarrow> hash256 outcome" where
  "key_spend_sighash sha tx i ps ty =
     and_then (taproot_signing_data sha tx i ps None None ty) (\<lambda>d. Ok (tagged_hash sha ''TapSighash'' [d]))"

definition exit_sighash :: "sha256 \<Rightarrow> transaction \<Rightarrow> txout \<Rightarrow> hash256 outcome" where
  "exit_sighash sha tx spent =
     (case key_spend_sighash sha tx 0 (PrevoutsAll [spent]) SighashDefault of Ok h \<Rightarrow> Ok h | _ \<Rightarrow> Abort)"

section \<open>Messages and nonces\<close>

text \<open>The keys of a pool, sorted; a signing context is the keys and the number of a pool output.\<close>

type_synonym pool_keys = "bytes list"

record curve_ops =
  k_aggregate_ok :: "bytes list \<Rightarrow> unit outcome"
  k_ctx_key :: "bytes list \<Rightarrow> nat \<Rightarrow> bytes outcome"
  k_point :: "bytes \<Rightarrow> bytes"
  k_sec_nonce :: "hash256 \<Rightarrow> bytes \<Rightarrow> bytes \<Rightarrow> hash256 \<Rightarrow> bytes \<Rightarrow> bytes"
  k_pub_nonce :: "bytes \<Rightarrow> bytes"
  k_nonce_ok :: "bytes \<Rightarrow> bool"
  k_psig_ok :: "bytes \<Rightarrow> bool"
  k_agg_nonce :: "bytes list \<Rightarrow> bytes"
  k_sign_partial :: "bytes list \<Rightarrow> nat \<Rightarrow> bytes \<Rightarrow> bytes \<Rightarrow> bytes \<Rightarrow> hash256 \<Rightarrow> bytes outcome"
  k_verify_partial :: "bytes list \<Rightarrow> nat \<Rightarrow> bytes \<Rightarrow> bytes \<Rightarrow> bytes \<Rightarrow> bytes \<Rightarrow> hash256 \<Rightarrow> bool"
  k_aggregate :: "bytes list \<Rightarrow> nat \<Rightarrow> bytes \<Rightarrow> bytes list \<Rightarrow> hash256 \<Rightarrow> bytes outcome"
  k_schnorr_ok :: "bytes \<Rightarrow> hash256 \<Rightarrow> bytes \<Rightarrow> bool"

definition pool_keys_new :: "curve_ops \<Rightarrow> bytes list \<Rightarrow> pool_keys outcome" where
  "pool_keys_new K keys =
     ensure (keys \<noteq> []) ''a pool needs at least one key'' (
     let sorted = sort keys
     in and_then (k_aggregate_ok K sorted) (\<lambda>_. Ok sorted))"

text \<open>The aggregated key of a context is a compressed point; the output key is its last 32 bytes.\<close>

definition output_key :: "curve_ops \<Rightarrow> pool_keys \<Rightarrow> nat \<Rightarrow> bytes outcome" where
  "output_key K keys i = and_then (k_ctx_key K keys i) (\<lambda>p. Ok (tl p))"

definition script_pubkey :: "curve_ops \<Rightarrow> pool_keys \<Rightarrow> nat \<Rightarrow> script_buf outcome" where
  "script_pubkey K keys i = and_then (output_key K keys i) (\<lambda>k. Ok ([0x51, 0x20] @ k))"

record exit_message =
  xm_index :: nat
  xm_key :: nat
  xm_msg :: hash256
  xm_output_key :: bytes

definition exit_message_of :: "sha256 \<Rightarrow> curve_ops \<Rightarrow> pool_keys \<Rightarrow> nat \<times> (transaction \<times> txout) \<times> exit_link \<Rightarrow> exit_message outcome" where
  "exit_message_of sha K keys x =
     (case x of (i, (tx, spent), link) \<Rightarrow>
        and_then (exit_sighash sha tx spent) (\<lambda>h.
        and_then (output_key K keys (el_from link)) (\<lambda>k.
        Ok \<lparr>xm_index = i, xm_key = el_from link, xm_msg = h, xm_output_key = k\<rparr>)))"

definition exit_messages :: "sha256 \<Rightarrow> curve_ops \<Rightarrow> pool_keys \<Rightarrow> pool_txs \<Rightarrow> exit_message list outcome" where
  "exit_messages sha K keys txs =
     collect_ok (exit_message_of sha K keys) (enumerate 0 (zip (zip (pt_exits txs) (pt_spent txs)) (pt_links txs)))"

text \<open>A secret nonce with the exit and the message it was made for.\<close>

type_synonym exit_nonces = "(nat \<times> hash256 \<times> bytes) list"

definition make_nonce :: "sha256 \<Rightarrow> curve_ops \<Rightarrow> bytes \<Rightarrow> pool_keys \<Rightarrow> string \<Rightarrow> hash256 \<Rightarrow> exit_message \<Rightarrow> (nat \<times> hash256 \<times> bytes) outcome" where
  "make_nonce sha K seckey keys pid aux m =
     and_then (k_ctx_key K keys (xm_key m)) (\<lambda>aggpk.
     let extra = str_bytes pid @ u32_le_bytes (xm_index m + 1);
         seed = tagged_hash sha ''joinstr/v2/lij/nonce-seed'' [hash_bytes aux, u32_le_bytes (xm_index m)]
     in Ok (xm_index m, xm_msg m, k_sec_nonce K seed seckey aggpk (xm_msg m) extra))"

definition make_nonces ::
  "sha256 \<Rightarrow> curve_ops \<Rightarrow> bytes \<Rightarrow> pool_keys \<Rightarrow> exit_message list \<Rightarrow> string \<Rightarrow> hash256 \<Rightarrow> (exit_nonces \<times> bytes list) outcome" where
  "make_nonces sha K seckey keys msgs pid aux =
     ensure (msgs \<noteq> []) ''no exits to sign'' (
     ensure (k_point K seckey \<in> set keys) ''this key is not one of the pool keys'' (
     and_then (collect_ok (make_nonce sha K seckey keys pid aux) msgs) (\<lambda>secs.
     Ok (secs, map (\<lambda>(i, h, sec). k_pub_nonce K sec) secs))))"

section \<open>Partial signatures and their aggregation\<close>

definition agg_nonce :: "curve_ops \<Rightarrow> bytes list list \<Rightarrow> nat \<Rightarrow> bytes" where
  "agg_nonce K nonces i = k_agg_nonce K (map (\<lambda>v. v ! i) nonces)"

definition sign_exit ::
  "curve_ops \<Rightarrow> bytes \<Rightarrow> pool_keys \<Rightarrow> bytes list list \<Rightarrow> nat \<times> (nat \<times> hash256 \<times> bytes) \<times> exit_message \<Rightarrow> bytes outcome" where
  "sign_exit K seckey keys nonces x =
     (case x of (i, (index, h, sec), m) \<Rightarrow>
        ensure (index = xm_index m \<and> h = xm_msg m) ''the nonce was made for another message'' (
        and_then (k_ctx_key K keys (xm_key m)) (\<lambda>_.
        k_sign_partial K keys (xm_key m) seckey sec (agg_nonce K nonces i) (xm_msg m))))"

definition partial_sign ::
  "curve_ops \<Rightarrow> bytes \<Rightarrow> pool_keys \<Rightarrow> exit_message list \<Rightarrow> exit_nonces \<Rightarrow> bytes list list \<Rightarrow> bytes list outcome" where
  "partial_sign K seckey keys msgs secs nonces =
     ensure (length nonces = length keys) ''missing nonces'' (
     ensure (length secs = length msgs) ''secret nonces for another number of exits'' (
     ensure (list_all (\<lambda>v. length v = length msgs) nonces) ''a nonce list does not have one nonce per exit'' (
     collect_ok (sign_exit K seckey keys nonces) (enumerate 0 (zip secs msgs)))))"

type_synonym signer = "bytes \<times> bytes list \<times> bytes list"

definition bad_signers :: "curve_ops \<Rightarrow> pool_keys \<Rightarrow> signer list \<Rightarrow> bytes \<Rightarrow> nat \<Rightarrow> exit_message \<Rightarrow> bytes list" where
  "bad_signers K keys signers agg i m =
     map fst (filter (\<lambda>(pk, pubs, sigs). \<not> k_verify_partial K keys (xm_key m) (sigs ! i) agg pk (pubs ! i) (xm_msg m)) signers)"

definition aggregate_exit :: "curve_ops \<Rightarrow> pool_keys \<Rightarrow> signer list \<Rightarrow> nat \<times> exit_message \<Rightarrow> bytes outcome" where
  "aggregate_exit K keys signers x =
     (case x of (i, m) \<Rightarrow>
        and_then (k_ctx_key K keys (xm_key m)) (\<lambda>_.
        let agg = agg_nonce K (map (fst \<circ> snd) signers) i; bad = bad_signers K keys signers agg i m
        in ensure (bad = [])
             (''invalid partial signature for exit '' @ show_nat (i + 1) @ '' from '' @ str_join '', '' (map hex_encode bad)) (
           and_then (k_aggregate K keys (xm_key m) agg (map (\<lambda>s. snd (snd s) ! i) signers) (xm_msg m)) (\<lambda>sig.
           ensure (k_schnorr_ok K sig (xm_msg m) (xm_output_key m)) (''exit '' @ show_nat (i + 1) @ '' signature does not verify'') (Ok sig)))))"

definition aggregate :: "curve_ops \<Rightarrow> pool_keys \<Rightarrow> exit_message list \<Rightarrow> signer list \<Rightarrow> bytes list outcome" where
  "aggregate K keys msgs signers =
     ensure (sort (map fst signers) = sort keys) ''the signers are not exactly the pool keys'' (
     and_then (collect_ok (\<lambda>(pk, pubs, sigs).
         ensure (length pubs = length msgs \<and> length sigs = length msgs)
           (hex_encode pk @ '' did not send one nonce and one partial signature per exit'') (Ok ())) signers) (\<lambda>_.
     collect_ok (aggregate_exit K keys signers) (enumerate 0 msgs)))"

definition attach_witness :: "transaction \<times> bytes \<Rightarrow> transaction" where
  "attach_witness x =
     (case x of (tx, sig) \<Rightarrow> tx\<lparr>tx_input := (tx_input tx)[0 := (tx_input tx ! 0)\<lparr>ti_witness := [sig]\<rparr>]\<rparr>)"

definition attach :: "pool_txs \<Rightarrow> bytes list \<Rightarrow> pool_txs outcome" where
  "attach txs sigs =
     ensure (length sigs = length (pt_exits txs)) ''signatures for another number of exits'' (
     ensure (list_all (\<lambda>tx. length (tx_input tx) = 1) (pt_exits txs)) ''an exit without exactly one input'' (
     Ok (txs\<lparr>pt_exits := map attach_witness (zip (pt_exits txs) sigs)\<rparr>)))"

definition nonce_from_hex :: "curve_ops \<Rightarrow> string \<Rightarrow> bytes outcome" where
  "nonce_from_hex K s = and_then (strict_hex s 66) (\<lambda>b. ensure (k_nonce_ok K b) ''bad nonce'' (Ok b))"

definition psig_from_hex :: "curve_ops \<Rightarrow> string \<Rightarrow> bytes outcome" where
  "psig_from_hex K s = and_then (strict_hex s 32) (\<lambda>b. ensure (k_psig_ok K b) ''bad partial signature'' (Ok b))"

section \<open>Points, proofs and signed messages\<close>

text \<open>A compressed point; what \<open>valid\<close> tells is whether the bytes are a point of the curve.\<close>

definition point_from_hex :: "(bytes \<Rightarrow> bool) \<Rightarrow> string \<Rightarrow> bytes outcome" where
  "point_from_hex valid s =
     and_then (strict_hex s 33) (\<lambda>b.
     ensure (\<not> (hd b \<noteq> 0x02 \<and> hd b \<noteq> 0x03)) ''bad point: not compressed'' (
     ensure (valid b) ''bad point'' (Ok b)))"

type_synonym session = hash256

record proof_msg =
  pf_sig :: string
  pf_pubkey :: "string option"

record ring_sig =
  rs_key_image :: string
  rs_c0 :: string
  rs_s :: "string list"

definition ownership_msg :: "sha256 \<Rightarrow> string \<Rightarrow> session \<Rightarrow> outpoint \<Rightarrow> hash256" where
  "ownership_msg sha pid s op = tagged_hash sha ''joinstr/v2/ownership'' [str_bytes pid, hash_bytes s, ser_outpoint op]"

definition payout_msg :: "sha256 \<Rightarrow> string \<Rightarrow> u8 \<Rightarrow> nat \<Rightarrow> script_buf \<Rightarrow> hash256" where
  "payout_msg sha pid priority amount script =
     tagged_hash sha ''joinstr/v2/payout'' [str_bytes pid, [priority], u64_le_bytes amount, script]"

text \<open>A transaction id in text is the hex of its bytes, last byte first.\<close>

definition bytes_hash :: "bytes \<Rightarrow> hash256" where
  "bytes_hash bs = of_nat (foldl (\<lambda>n b. 256 * n + unat b) 0 bs)"

definition txid_text :: "txid \<Rightarrow> string" where
  "txid_text t = hex_encode (rev (hash_bytes t))"

definition txid_from_str :: "string \<Rightarrow> txid outcome" where
  "txid_from_str s =
     ensure (length s = 64) ''bad length'' (some_or ''bad hex'' (hex_decode s) (\<lambda>bs. Ok (bytes_hash (rev bs))))"

section \<open>Hex, read back\<close>

lemma hex_char_facts:
  assumes "n < 16"
  shows "hex_val (hex_char n) = Some n" and "lower_hex (hex_char n)"
  using assms by (auto simp: hex_val_def hex_char_def lower_hex_def Let_def)

lemma hex_encode_simps [simp]:
  "hex_encode [] = []"
  "hex_encode (b # bs) = hex_char (unat b div 16) # hex_char (unat b mod 16) # hex_encode bs"
  by (simp_all add: hex_encode_def)

lemma byte_halves: "unat (b :: u8) div 16 < 16" "unat b mod 16 < 16" "16 * (unat b div 16) + unat b mod 16 = unat b"
  using unsigned_less [of b, where ?'a = nat] by simp_all

lemma hex_decode_encode [simp]: "hex_decode (hex_encode bs) = Some bs"
proof (induction bs)
  case (Cons b bs)
  have "word_of_nat (16 * (unat b div 16) + unat b mod 16) = b" unfolding byte_halves(3) by simp
  with Cons show ?case using hex_char_facts(1) [OF byte_halves(1)] hex_char_facts(1) [OF byte_halves(2)] by simp
qed simp

lemma hex_encode_length [simp]: "length (hex_encode bs) = 2 * length bs"
  by (induction bs) simp_all

lemma hex_encode_lower: "list_all lower_hex (hex_encode bs)"
  by (induction bs) (simp_all add: hex_char_facts(2) byte_halves)

lemma hex_encode_inject [simp]: "hex_encode a = hex_encode b \<longleftrightarrow> a = b"
  by (metis hex_decode_encode option.inject)

lemma strict_hex_encode [simp]: "strict_hex (hex_encode bs) n = (if n = length bs then Ok bs else Err ''expected bytes of lowercase hex'')"
  by (simp add: strict_hex_def hex_encode_lower ensure_def)

section \<open>The names in an error\<close>

text \<open>A text without a character \<open>c\<close> occurs on one side of it.\<close>

lemma take_split:
  assumes "c \<notin> set u"
  shows "take (length u) (xs @ c # ys) = u \<longleftrightarrow> take (length u) xs = u"
proof (cases "length u \<le> length xs")
  case False
  hence "c \<in> set (take (length u) (xs @ c # ys))" "length (take (length u) xs) < length u" by (simp_all add: take_Cons')
  with assms show ?thesis by (metis less_irrefl)
qed simp

lemma contains_split: "c \<notin> set u \<Longrightarrow> u \<noteq> [] \<Longrightarrow> str_contains (xs @ c # ys) u \<longleftrightarrow> str_contains xs u \<or> str_contains ys u"
proof (induction xs)
  case Nil
  thus ?case using take_split [of c u "[]" ys] by simp
next
  case (Cons x xs)
  thus ?case using take_split [of c u "x # xs" ys] by simp
qed

lemma contains_short: "length t < length u \<Longrightarrow> \<not> str_contains t u"
  by (induction t) (auto dest: arg_cong [of _ _ length])

lemma contains_same_length: "length t = length u \<Longrightarrow> str_contains t u \<longleftrightarrow> t = u"
  using contains_short [of "tl t" u] by (cases t) auto

lemma not_lower_hex: "\<not> lower_hex CHR '' ''" "\<not> lower_hex CHR '',''"
  by (simp_all add: lower_hex_def)

lemma hex_no_char: "\<not> lower_hex c \<Longrightarrow> c \<notin> set (hex_encode bs)"
  using hex_encode_lower [of bs] by (auto simp: list_all_iff)

lemma contains_joined:
  assumes "pk \<noteq> []" and "\<forall>b\<in>set bs. length b = length pk"
  shows "str_contains (str_join '', '' (map hex_encode bs)) (hex_encode pk) \<longleftrightarrow> pk \<in> set bs"
  using assms(2)
proof (induction bs rule: induct_list012)
  case 1
  have "hex_encode pk \<noteq> []" using assms(1) by (cases pk) simp_all
  thus ?case by simp
next
  case (2 b)
  thus ?case by (auto simp: contains_same_length)
next
  case (3 b b' bs)
  have ne: "hex_encode pk \<noteq> []" using assms(1) by (cases pk) simp_all
  let ?rest = "str_join '', '' (map hex_encode (b' # bs))"
  have "str_contains (hex_encode b @ CHR '','' # CHR '' '' # ?rest) (hex_encode pk) \<longleftrightarrow>
      str_contains (hex_encode b) (hex_encode pk) \<or> str_contains (CHR '' '' # ?rest) (hex_encode pk)"
    by (rule contains_split [OF hex_no_char [OF not_lower_hex(2)] ne])
  moreover have "str_contains ([] @ CHR '' '' # ?rest) (hex_encode pk) \<longleftrightarrow> str_contains [] (hex_encode pk) \<or> str_contains ?rest (hex_encode pk)"
    by (rule contains_split [OF hex_no_char [OF not_lower_hex(1)] ne])
  ultimately show ?case using "3.IH"(2) "3.prems" ne by (simp add: contains_same_length) blast
qed

lemma show_nat_length: "n < 10 ^ k \<Longrightarrow> 0 < k \<Longrightarrow> length (show_nat n) \<le> k"
proof (induction k arbitrary: n)
  case (Suc k)
  show ?case
  proof (cases "n < 10")
    case False
    hence "0 < k" using Suc.prems(1) by (cases k) simp_all
    moreover have "n div 10 < 10 ^ k" using Suc.prems(1) by (simp add: div_less_iff_less_mult mult.commute)
    ultimately show ?thesis using Suc.IH [of "n div 10"] False by (simp add: show_nat.simps [of n])
  qed (simp add: show_nat.simps)
qed simp

text \<open>The error on an exit names exactly the bad signers.\<close>

lemma bad_signer_text:
  assumes "length pk = 33" and "\<forall>b\<in>set bs. length b = 33" and "i < 100"
  shows "str_contains (''invalid partial signature for exit '' @ show_nat (i + 1) @ '' from '' @ str_join '', '' (map hex_encode bs)) (hex_encode pk)
    \<longleftrightarrow> pk \<in> set bs"
proof -
  let ?u = "hex_encode pk" and ?names = "str_join '', '' (map hex_encode bs)"
  have u: "CHR '' '' \<notin> set ?u" "?u \<noteq> []" "length ?u = 66" using assms(1) hex_no_char [OF not_lower_hex(1)] hex_encode_length [of pk] by (auto simp del: hex_encode_length)
  have "length (show_nat (i + 1)) \<le> 3" by (rule show_nat_length) (use assms(3) in auto)
  have word: "str_contains (w @ CHR '' '' # t) ?u \<longleftrightarrow> str_contains t ?u" if "length w < 66" for w t
    using contains_split [OF u(1,2), of w t] contains_short [of w ?u] that u(3) by simp
  have "str_contains (''invalid partial signature for exit '' @ show_nat (i + 1) @ '' from '' @ ?names) ?u \<longleftrightarrow>
    str_contains (''invalid'' @ CHR '' '' # ''partial'' @ CHR '' '' # ''signature'' @ CHR '' '' # ''for'' @ CHR '' '' # ''exit'' @ CHR '' '' #
      show_nat (i + 1) @ CHR '' '' # ''from'' @ CHR '' '' # ?names) ?u" by simp
  also have "\<dots> \<longleftrightarrow> str_contains ?names ?u"
    using \<open>length (show_nat (i + 1)) \<le> 3\<close> by (subst word, simp)+ (rule refl)
  also have "\<dots> \<longleftrightarrow> pk \<in> set bs" by (rule contains_joined) (use assms in auto)
  finally show ?thesis .
qed

section \<open>Hashes and transaction ids, read back\<close>

lemma bytes_hash_hash [simp]: "bytes_hash (hash_bytes h) = h"
proof -
  have "foldl (\<lambda>n b. 256 * n + unat b) 0 (map (\<lambda>i. of_nat (unat h div 256 ^ (31 - i) mod 256) :: u8) [0..<k]) = unat h div 256 ^ (32 - k)" if "k \<le> 32" for k
    using that
  proof (induction k)
    case 0
    have "unat h < 2 ^ 256" using unsigned_less [of h] by simp
    thus ?case by simp
  next
    case (Suc k)
    have "32 - k = Suc (31 - k)" using Suc.prems by simp
    hence "unat h div 256 ^ (32 - k) = (unat h div 256 ^ (31 - k)) div 256" by (simp only: power_Suc2 div_mult2_eq)
    thus ?case using Suc by (simp add: unsigned_of_nat take_bit_eq_mod)
  qed
  from this [of 32] show ?thesis by (simp add: bytes_hash_def hash_bytes_def)
qed

lemma hash_bytes_length [simp]: "length (hash_bytes h) = 32"
  by (simp add: hash_bytes_def)

lemma txid_round_trip [simp]: "txid_from_str (txid_text t) = Ok t"
  by (simp add: txid_from_str_def txid_text_def some_or_def)

lemma txid_text_facts: "length (txid_text t) = 64" "list_all lower_hex (txid_text t)"
  by (simp_all add: txid_text_def hex_encode_lower)

end
