(* ===== verification/Tatara_Machine.thy ===== *)
theory Tatara_Machine
  imports Tatara_Rederive Pool_Sign
begin

text \<open>
  One phone's part of one attempt at a pool (\<open>lij-core/src/tatara/machine.rs\<close>): a state machine that takes messages,
  answers and ticks and gives actions. Every handler returns its result with the state it leaves, since an early return
  of an error keeps what was changed before it. The parsers of JSON and addresses, the curve operations and SHA-256 are
  fields of the argument \<open>S\<close>; a posted text is represented by the message it is the JSON of.
\<close>

section \<open>Messages\<close>

record input_msg =
  im_txid :: string
  im_vout :: u32
  im_amount :: nat
  im_script :: string
  im_proof :: proof_msg

record change_msg =
  cm_address :: string
  cm_amount :: nat

record witness_msg =
  wm_txid :: string
  wm_vout :: u32
  wm_witness :: "string list"

datatype pool_msg =
    JoinPool
  | CredentialsMsg string string
  | RejectMsg string
  | InputsMsg string string "input_msg list" "change_msg option" u32 "nat option"
  | OutputMsg string ring_sig u8 "nat option"
  | NoncesMsg nat "string list"
  | PartialSigsMsg nat "string list"
  | FundingSigsMsg "witness_msg list"
  | AbortMsg string

datatype jvalue = JNull | JBool bool | JNumber string | JString string | JArray "jvalue list" | JObject "(string \<times> jvalue) list"

definition j_get :: "jvalue \<Rightarrow> string \<Rightarrow> jvalue option" where
  "j_get v k = (case v of JObject fs \<Rightarrow> map_of fs k | _ \<Rightarrow> None)"

definition j_str :: "jvalue option \<Rightarrow> string option" where
  "j_str v = (case v of Some (JString s) \<Rightarrow> Some s | _ \<Rightarrow> None)"

definition allowed_fields :: "string \<Rightarrow> string list option" where
  "allowed_fields kind =
     (if kind = ''join_pool'' then Some []
      else if kind = ''credentials'' then Some [''credentials'']
      else if kind = ''reject'' \<or> kind = ''abort'' then Some [''reason'']
      else if kind = ''inputs'' then Some [''musig_pubkey'', ''ring_pubkey'', ''inputs'', ''change'', ''height'', ''denomination'']
      else if kind = ''output'' then Some [''address'', ''ring_sig'', ''priority'', ''denomination'']
      else if kind = ''nonces'' then Some [''offset'', ''nonces'']
      else if kind = ''partial_sigs'' then Some [''offset'', ''sigs'']
      else if kind = ''funding_sigs'' then Some [''witnesses'']
      else None)"

section \<open>Arguments\<close>

record pool_env =
  e_sha :: sha256
  e_curve :: curve_ops
  e_json :: "string \<Rightarrow> jvalue option"
  e_msg :: "jvalue \<Rightarrow> pool_msg option"
  e_script_of :: "string \<Rightarrow> string \<Rightarrow> script_buf outcome"
  e_address_of :: "string \<Rightarrow> script_buf \<Rightarrow> string outcome"
  e_pool_script :: "bytes list \<Rightarrow> nat \<Rightarrow> script_buf outcome"
  e_point_ok :: "bytes \<Rightarrow> bool"
  e_prove :: "bytes \<Rightarrow> script_buf \<Rightarrow> hash256 \<Rightarrow> hash256 \<Rightarrow> proof_msg outcome"
  e_verify_proof :: "script_buf \<Rightarrow> hash256 \<Rightarrow> proof_msg \<Rightarrow> unit outcome"
  e_ring_sign :: "bytes list \<Rightarrow> bytes \<Rightarrow> hash256 \<Rightarrow> hash256 \<Rightarrow> ring_sig outcome"
  e_ring_verify :: "bytes list \<Rightarrow> hash256 \<Rightarrow> ring_sig \<Rightarrow> string outcome"
  e_sign_input :: "transaction \<Rightarrow> nat \<Rightarrow> txout list \<Rightarrow> bytes \<Rightarrow> hash256 \<Rightarrow> bytes list outcome"

definition parse_strict :: "pool_env \<Rightarrow> string \<Rightarrow> pool_msg outcome" where
  "parse_strict S s =
     some_or ''not JSON'' (e_json S s) (\<lambda>v.
     case v of
       JObject fs \<Rightarrow>
         ensure (j_str (j_get v ''version'') = Some ''2'') ''unknown version'' (
         let kind = (case j_str (j_get v ''type'') of Some k \<Rightarrow> k | None \<Rightarrow> [])
         in some_or ''unknown message type'' (allowed_fields kind) (\<lambda>allowed.
            ensure (list_all (\<lambda>(k, _). k = ''version'' \<or> k = ''type'' \<or> k \<in> set allowed) fs) ''unknown field in a message'' (
            some_or ''the message does not parse'' (e_msg S v) Ok)))
     | _ \<Rightarrow> Err ''a message is a JSON object'')"

section \<open>The attempt\<close>

record my_part =
  mp_coins :: "(outpoint \<times> txout \<times> bytes) list"
  mp_change :: "txout option"
  mp_tip :: u32
  mp_payout :: "script_buf option"
  mp_session :: session
  mp_musig :: bytes
  mp_ring :: bytes
  mp_entropy :: hash256
  mp_rate_at_join :: nat

datatype phase = PhInputs | PhChannel | PhPayouts | PhView | PhSigning | PhFunding | PhFundingSigned | PhStopped

fun phase_text :: "phase \<Rightarrow> string" where
  "phase_text PhInputs = ''Inputs''"
| "phase_text PhChannel = ''Channel''"
| "phase_text PhPayouts = ''Payouts''"
| "phase_text PhView = ''View''"
| "phase_text PhSigning = ''Signing''"
| "phase_text PhFunding = ''Funding''"
| "phase_text PhFundingSigned = ''FundingSigned''"
| "phase_text PhStopped = ''Stopped''"

record attempt_record =
  rc_id :: string
  rc_funding :: transaction
  rc_exits :: "transaction list"
  rc_payout :: script_buf
  rc_inputs :: "outpoint list"
  rc_channel :: bool
  rc_rate_milli :: nat
  rc_prevouts :: "txout list"

datatype pool_text = EnvelopeJson pool_msg | ViewJson string

datatype action =
    Post pool_text
  | PostPayout pool_text
  | CheckCoins "(outpoint \<times> txout) list"
  | SaveRecord attempt_record
  | FundingSigned
  | Stopped string "session list"
  | OpenChannel nat
  | FundChannel string nat

datatype pool_input =
    MsgIn session string
  | CoinsChecked "outpoint list" "outpoint list"
  | RecordSaved
  | PayoutGiven script_buf
  | ChannelSaved
  | ChannelFailed string
  | Tick nat
  | Leave

text \<open>The registrations are kept in the order of their keys; the other maps have no order.\<close>

record attempt =
  at_id :: string
  at_params :: params
  at_network :: string
  at_d :: nat
  at_rate_milli :: nat
  at_me :: my_part
  at_aux_n :: nat
  at_phase :: phase
  at_clock_phase :: phase
  at_deadline :: nat
  at_phase_s :: nat
  at_regs :: "(session \<times> input_registration \<times> string) list"
  at_coins_asked :: bool
  at_payouts :: "(script_buf \<times> u8) list"
  at_images :: "(string \<times> script_buf \<times> string) list"
  at_built :: "pool_txs option"
  at_keys :: "pool_keys option"
  at_msgs :: "exit_message list option"
  at_my_nonces :: "exit_nonces option"
  at_my_view :: "hash256 option"
  at_views :: "(session \<times> hash256) list"
  at_nonces :: "(session \<times> bytes list \<times> string) list"
  at_psigs :: "(session \<times> bytes list \<times> string) list"
  at_record_saved :: bool
  at_recheck_ok :: bool
  at_channel_saved :: bool
  at_refused :: "outpoint set"
  at_public :: bool

abbreviation (input) registered :: "attempt \<Rightarrow> session \<Rightarrow> bool" where
  "registered a s \<equiv> s \<in> fst ` set (at_regs a)"

abbreviation (input) all_regs :: "attempt \<Rightarrow> input_registration list" where
  "all_regs a \<equiv> map (fst \<circ> snd) (at_regs a)"

abbreviation (input) my_session :: "attempt \<Rightarrow> session" where
  "my_session a \<equiv> mp_session (at_me a)"

text \<open>An error return keeps the state; \<open>need\<close> is \<open>ensure!\<close>.\<close>

definition try_in :: "attempt \<Rightarrow> 'a outcome \<Rightarrow> ('a \<Rightarrow> 'b outcome \<times> attempt) \<Rightarrow> 'b outcome \<times> attempt" where
  "try_in a r f = (case r of Ok x \<Rightarrow> f x | Err e \<Rightarrow> (Err e, a) | Abort \<Rightarrow> (Abort, a))"

definition need :: "attempt \<Rightarrow> bool \<Rightarrow> string \<Rightarrow> 'b outcome \<times> attempt \<Rightarrow> 'b outcome \<times> attempt" where
  "need a c e r = (if c then r else (Err e, a))"

definition post :: "pool_msg \<Rightarrow> action" where
  "post msg = Post (EnvelopeJson msg)"

definition next_aux :: "pool_env \<Rightarrow> attempt \<Rightarrow> hash256 \<times> attempt" where
  "next_aux S a =
     (let n = (at_aux_n a + 1) mod 2 ^ 32
      in (tagged (e_sha S) ''lij/tatara/aux/v1'' [hash_bytes (mp_entropy (at_me a)), u32_le_bytes n], a\<lparr>at_aux_n := n\<rparr>))"

fun prove_coins :: "pool_env \<Rightarrow> (outpoint \<times> txout \<times> bytes) list \<Rightarrow> attempt \<Rightarrow> input_msg list outcome \<times> attempt" where
  "prove_coins S [] a = (Ok [], a)"
| "prove_coins S ((op, out, sk) # coins) a =
     (let m = ownership_msg (e_sha S) (at_id a) (my_session a) op; (aux, a) = next_aux S a
      in try_in a (e_prove S sk (to_script out) m aux) (\<lambda>proof.
         case prove_coins S coins a of
           (r, a) \<Rightarrow> try_in a r (\<lambda>rest.
             (Ok (\<lparr>im_txid = txid_text (fst op), im_vout = snd op, im_amount = to_value out,
                   im_script = hex_encode (to_script out), im_proof = proof\<rparr> # rest), a))))"

definition my_registration :: "pool_env \<Rightarrow> attempt \<Rightarrow> pool_msg outcome \<times> attempt" where
  "my_registration S a =
     (case prove_coins S (mp_coins (at_me a)) a of
        (r, a) \<Rightarrow> try_in a r (\<lambda>inputs.
          try_in a (case mp_change (at_me a) of
                      None \<Rightarrow> Ok None
                    | Some c \<Rightarrow> and_then (e_address_of S (at_network a) (to_script c)) (\<lambda>s.
                        Ok (Some \<lparr>cm_address = s, cm_amount = to_value c\<rparr>))) (\<lambda>change.
          (Ok (InputsMsg (hex_encode (k_point (e_curve S) (mp_musig (at_me a)))) (hex_encode (k_point (e_curve S) (mp_ring (at_me a))))
                inputs change (mp_tip (at_me a)) (Some (at_d a))), a))))"

definition new_attempt :: "pool_env \<Rightarrow> params \<Rightarrow> string \<Rightarrow> my_part \<Rightarrow> nat \<Rightarrow> nat \<Rightarrow> (attempt \<times> action list) outcome" where
  "new_attempt S p network me now phase_s =
     ensure (length (p_classes p) = 1) ''one denomination'' (
     and_then (registration_inputs (length (mp_coins me))) (\<lambda>_.
     let a = \<lparr>at_id = p_id p, at_params = p, at_network = network, at_d = cls_amount (hd (p_classes p)),
              at_rate_milli = p_fee_rate_milli p, at_me = me, at_aux_n = 0, at_phase = PhInputs, at_clock_phase = PhInputs,
              at_deadline = wrap_add64 now phase_s, at_phase_s = phase_s, at_regs = [], at_coins_asked = False, at_payouts = [],
              at_images = [], at_built = None, at_keys = None, at_msgs = None, at_my_nonces = None, at_my_view = None,
              at_views = [], at_nonces = [], at_psigs = [], at_record_saved = False, at_recheck_ok = False,
              at_channel_saved = False, at_refused = {}, at_public = False\<rparr>
     in ensure ((mp_payout me \<noteq> None) = (p_payout_type p = P2tr)) ''a channel pool takes its payout from the channel'' (
        case my_registration S a of (r, a) \<Rightarrow> and_then r (\<lambda>msg. Ok (a, [post msg])))))"

definition refusing :: "outpoint list \<Rightarrow> attempt \<Rightarrow> attempt" where
  "refusing coins a = a\<lparr>at_refused := at_refused a \<union> set coins\<rparr>"

definition set_public :: "bool \<Rightarrow> attempt \<Rightarrow> attempt" where
  "set_public b a = a\<lparr>at_public := b\<rparr>"

definition first_phase_until :: "nat \<Rightarrow> attempt \<Rightarrow> attempt" where
  "first_phase_until deadline a =
     (if at_phase a = PhInputs \<and> at_deadline a < deadline then a\<lparr>at_deadline := deadline\<rparr> else a)"

definition coins_of :: "attempt \<Rightarrow> session list \<Rightarrow> outpoint list" where
  "coins_of a sessions = concat (map (\<lambda>(k, r, _). map fst (ir_inputs r)) (filter (\<lambda>(k, _). k \<in> set sessions) (at_regs a)))"

definition owns :: "attempt \<Rightarrow> session \<Rightarrow> outpoint \<Rightarrow> bool" where
  "owns a s op = (case map_of (at_regs a) s of None \<Rightarrow> False | Some (r, _) \<Rightarrow> list_ex (\<lambda>(o', _). o' = op) (ir_inputs r))"

definition stalled :: "attempt \<Rightarrow> session list" where
  "stalled a =
     (case at_phase a of
        PhView \<Rightarrow> filter (\<lambda>s. s \<noteq> my_session a \<and> (\<not> at_public a \<and> s \<notin> fst ` set (at_views a) \<or> s \<notin> fst ` set (at_nonces a)))
                    (map fst (at_regs a))
      | PhSigning \<Rightarrow> filter (\<lambda>s. s \<noteq> my_session a \<and> s \<notin> fst ` set (at_psigs a)) (map fst (at_regs a))
      | _ \<Rightarrow> [])"

definition stop :: "string \<Rightarrow> session list \<Rightarrow> attempt \<Rightarrow> action list \<times> attempt" where
  "stop reason named a =
     ((if registered a (my_session a) then [post (AbortMsg ''stopped'')] else []) @ [Stopped reason named],
      a\<lparr>at_phase := PhStopped, at_my_nonces := None\<rparr>)"

text \<open>A handler's answer that stops the attempt.\<close>

definition stopping :: "string \<Rightarrow> session list \<Rightarrow> attempt \<Rightarrow> action list outcome \<times> attempt" where
  "stopping reason named a = (case stop reason named a of (acts, a) \<Rightarrow> (Ok acts, a))"

section \<open>The funding signature\<close>

fun sign_coins :: "pool_env \<Rightarrow> transaction \<Rightarrow> txout list \<Rightarrow> (outpoint \<times> txout \<times> bytes) list \<Rightarrow> attempt \<Rightarrow> witness_msg list outcome \<times> attempt" where
  "sign_coins S tx spent [] a = (Ok [], a)"
| "sign_coins S tx spent ((op, _, sk) # coins) a =
     try_in a (some_or ''my input is not in the funding'' (position (\<lambda>i. previous_output i = op) (tx_input tx)) Ok) (\<lambda>idx.
     let (aux, a) = next_aux S a
     in try_in a (e_sign_input S tx idx spent sk aux) (\<lambda>w.
        case sign_coins S tx spent coins a of
          (r, a) \<Rightarrow> try_in a r (\<lambda>rest.
            (Ok (\<lparr>wm_txid = txid_text (fst op), wm_vout = snd op, wm_witness = map hex_encode w\<rparr> # rest), a))))"

definition try_fund :: "pool_env \<Rightarrow> attempt \<Rightarrow> action list outcome \<times> attempt" where
  "try_fund S a =
     (let channel_ok = p_payout_type (at_params a) = P2tr \<or> at_channel_saved a in
      if \<not> (at_record_saved a \<and> at_recheck_ok a \<and> channel_ok) then (Ok [], a)
      else try_in a (some_or ''built'' (at_built a) Ok) (\<lambda>built.
        case sign_coins S (pt_funding built) (pt_funding_prevouts built) (mp_coins (at_me a)) a of
          (r, a) \<Rightarrow> try_in a r (\<lambda>witnesses.
            (Ok [post (FundingSigsMsg witnesses), FundingSigned], a\<lparr>at_phase := PhFundingSigned\<rparr>))))"

section \<open>Registration\<close>

definition input_of_msg :: "pool_env \<Rightarrow> string \<Rightarrow> session \<Rightarrow> input_msg \<Rightarrow> (outpoint \<times> txout) outcome" where
  "input_of_msg S pid s i =
     ensure (length (im_txid i) = 64 \<and> list_all lower_hex (im_txid i)) ''bad txid'' (
     and_then (txid_from_str (im_txid i)) (\<lambda>t.
     let op = (t, im_vout i)
     in and_then (strict_hex_range (im_script i) 22 34) (\<lambda>spk.
        ensure (is_p2wpkh spk \<or> is_p2tr spk) ''an input is neither P2WPKH nor P2TR'' (
        and_then (e_verify_proof S spk (ownership_msg (e_sha S) pid s op) (im_proof i)) (\<lambda>_.
        Ok (op, \<lparr>to_value = im_amount i, to_script = spk\<rparr>))))))"

text \<open>All registrations are in: the pool's checks, then the others' coins are checked.\<close>

definition registration_closed :: "attempt \<Rightarrow> action list outcome \<times> attempt" where
  "registration_closed a =
     try_in a (check_input_registrations (at_params a) (all_regs a)) (\<lambda>_.
     if \<not> registered a (my_session a) then stopping ''the pool closed without this phone'' [] a
     else (Ok [CheckCoins (concat (map ir_inputs (filter (\<lambda>r. ir_session r \<noteq> my_session a) (all_regs a))))],
           a\<lparr>at_coins_asked := True\<rparr>))"

definition on_inputs ::
  "pool_env \<Rightarrow> session \<Rightarrow> string \<Rightarrow> string \<Rightarrow> input_msg list \<Rightarrow> change_msg option \<Rightarrow> u32 \<Rightarrow> nat option \<Rightarrow> string \<Rightarrow> attempt \<Rightarrow>
   action list outcome \<times> attempt" where
  "on_inputs S s musig ring inputs change height denomination json a =
     (case map_of (at_regs a) s of
        Some (_, seen) \<Rightarrow> need a (seen = json) ''a member sent two different registrations'' (Ok [], a)
      | None \<Rightarrow>
          if at_phase a \<noteq> PhInputs \<or> p_peers (at_params a) \<le> length (at_regs a) then (Ok [], a)
          else
            need a ((case denomination of Some d \<Rightarrow> d | None \<Rightarrow> at_d a) = at_d a) ''another denomination'' (
            try_in a (registration_inputs (length inputs)) (\<lambda>_.
            try_in a (collect_ok (input_of_msg S (at_id a) s) inputs) (\<lambda>ins.
            if list_ex (\<lambda>(op, _). op \<in> at_refused a) ins
            then stopping ''a member brought a coin refused after an earlier pool'' [s] a
            else
              try_in a (case change of
                          Some c \<Rightarrow> and_then (e_script_of S (at_network a) (cm_address c)) (\<lambda>spk. Ok (Some \<lparr>to_value = cm_amount c, to_script = spk\<rparr>))
                        | None \<Rightarrow> Ok None) (\<lambda>change.
              try_in a (point_from_hex (e_point_ok S) musig) (\<lambda>musig.
              try_in a (point_from_hex (e_point_ok S) ring) (\<lambda>ring.
              let reg = \<lparr>ir_session = s, ir_amount = at_d a, ir_musig = musig, ir_ring = ring, ir_inputs = ins, ir_change = change,
                         ir_height = height\<rparr>;
                  a = a\<lparr>at_regs := insort_key fst (s, reg, json) (at_regs a)\<rparr>
              in if length (at_regs a) < p_peers (at_params a) then (Ok [], a) else registration_closed a)))))))"

section \<open>Payouts\<close>

definition sorted_ring :: "attempt \<Rightarrow> bytes list" where
  "sorted_ring a = sort (map ir_ring (all_regs a))"

definition register_payout :: "pool_env \<Rightarrow> attempt \<Rightarrow> action list outcome \<times> attempt" where
  "register_payout S a =
     try_in a (some_or ''no payout'' (mp_payout (at_me a)) Ok) (\<lambda>payout.
     let m = payout_msg (e_sha S) (at_id a) 0 (at_d a) payout; (aux, a) = next_aux S a
     in try_in a (e_ring_sign S (sorted_ring a) (mp_ring (at_me a)) m aux) (\<lambda>sig.
        try_in a (e_address_of S (at_network a) payout) (\<lambda>address.
        (Ok [PostPayout (EnvelopeJson (OutputMsg address sig 0 (Some (at_d a))))], a\<lparr>at_phase := PhPayouts\<rparr>))))"

definition on_coins :: "pool_env \<Rightarrow> outpoint list \<Rightarrow> outpoint list \<Rightarrow> attempt \<Rightarrow> action list outcome \<times> attempt" where
  "on_coins S bad unanswered a =
     (if at_phase a = PhFunding
      then need a (unanswered = []) ''my coin could not be re-checked: no provider answered'' (
           need a (bad = []) ''one of my coins is no longer spendable'' (
           try_fund S (a\<lparr>at_recheck_ok := True\<rparr>)))
      else if at_phase a \<noteq> PhInputs \<or> \<not> at_coins_asked a then (Ok [], a)
      else if unanswered \<noteq> []
      then stopping (''the coin checks got no answer from any provider ('' @ show_nat (length unanswered) @ '' coin(s))'') [] a
      else if bad \<noteq> []
      then stopping ''a member's coin failed the coin check''
             (map fst (filter (\<lambda>(k, r, _). list_ex (\<lambda>(op, _). op \<in> set bad) (ir_inputs r)) (at_regs a))) a
      else if mp_payout (at_me a) = None then (Ok [OpenChannel (at_d a)], a\<lparr>at_phase := PhChannel\<rparr>)
      else register_payout S a)"

section \<open>Building and checking\<close>

definition view_hash :: "pool_env \<Rightarrow> pool_txs \<Rightarrow> exit_message list \<Rightarrow> attempt \<Rightarrow> hash256" where
  "view_hash S built msgs a =
     tagged (e_sha S) ''lij/tatara/view/v1''
       ([str_bytes (at_id a), str_bytes (txid_text (compute_txid (e_sha S) (pt_funding built)))] @
        map (hash_bytes \<circ> xm_msg) msgs @ map hash_bytes (sort (map fst (at_regs a))) @ sorted_ring a)"

text \<open>The checks of a built pool, in the order of the code: the fee limit, the second derivation, the scripts apart, the
  build and its comparison, this phone's payout, coins and change.\<close>

definition checked_build :: "pool_env \<Rightarrow> attempt \<Rightarrow> (pool_keys \<times> pool_txs \<times> script_buf) outcome" where
  "checked_build S a =
     (let regs = all_regs a; members = map member_of regs; pay = map fst (at_payouts a) in
      ensure (within_fee_limit_milli (at_rate_milli a) (mp_rate_at_join (at_me a)) u64_max) ''fees rose since you joined'' (
      and_then (rederive (e_sha S) (e_pool_script S) (at_id a) (at_d a) (at_rate_milli a) members (at_payouts a) (mp_tip (at_me a))) (\<lambda>r.
      and_then (scripts_apart r members pay) (\<lambda>_.
      and_then (pool_keys_new (e_curve S) (map ir_musig regs)) (\<lambda>keys.
      and_then (build (e_sha S) (at_params a) regs (map (payout_of (at_d a)) (at_payouts a)) (script_pubkey (e_curve S) keys)) (\<lambda>built.
      and_then (same_as_rederived built r) (\<lambda>_.
      some_or ''no payout'' (mp_payout (at_me a)) (\<lambda>my_payout.
      and_then (my_payout_once (pt_exits built) my_payout (at_d a)) (\<lambda>_.
      some_or ''me'' (map_option fst (List.find (\<lambda>(m, r). ir_session r = my_session a) (zip members regs))) (\<lambda>me.
      and_then (mine_in_funding (pt_funding built) me) (\<lambda>_.
      Ok (keys, built, my_payout))))))))))))"

text \<open>The first exit with an output that is exactly this phone's channel.\<close>

fun channel_output :: "pool_env \<Rightarrow> script_buf \<Rightarrow> nat \<Rightarrow> transaction list \<Rightarrow> (string \<times> nat) option" where
  "channel_output S mine d [] = None"
| "channel_output S mine d (e # es) =
     (case position (\<lambda>out. to_script out = mine \<and> to_value out = d) (tx_output e) of
        Some v \<Rightarrow> Some (txid_text (compute_txid (e_sha S) e), v)
      | None \<Rightarrow> channel_output S mine d es)"

definition build_and_check :: "pool_env \<Rightarrow> attempt \<Rightarrow> action list outcome \<times> attempt" where
  "build_and_check S a =
     try_in a (checked_build S a) (\<lambda>(keys, built, my_payout).
     try_in a (if p_payout_type (at_params a) = P2wsh
               then some_or ''no exit pays my channel exactly the pool size'' (channel_output S my_payout (at_d a) (pt_exits built))
                      (\<lambda>(t, v). Ok [FundChannel t v])
               else Ok []) (\<lambda>fund_channel.
     try_in a (exit_messages (e_sha S) (e_curve S) keys built) (\<lambda>msgs.
     let view = view_hash S built msgs a; (aux, a) = next_aux S a
     in try_in a (make_nonces (e_sha S) (e_curve S) (mp_musig (at_me a)) keys msgs (at_id a) aux) (\<lambda>(secs, pubs).
        (Ok ([Post (ViewJson (hex_encode (hash_bytes view))), post (NoncesMsg 0 (map hex_encode pubs))] @ fund_channel),
         a\<lparr>at_my_nonces := Some secs, at_my_view := Some view, at_built := Some built, at_keys := Some keys, at_msgs := Some msgs,
           at_phase := PhView\<rparr>)))))"

definition on_output ::
  "pool_env \<Rightarrow> string \<Rightarrow> ring_sig \<Rightarrow> u8 \<Rightarrow> nat option \<Rightarrow> string \<Rightarrow> attempt \<Rightarrow> action list outcome \<times> attempt" where
  "on_output S address ring_sig priority denomination json a =
     (if at_phase a \<noteq> PhPayouts \<and> at_phase a \<noteq> PhInputs \<and> at_phase a \<noteq> PhChannel then (Ok [], a)
      else if length (at_regs a) < p_peers (at_params a) then (Ok [], a)
      else
        need a (priority = 0) ''Phase 1 payouts have priority 0'' (
        need a ((case denomination of Some d \<Rightarrow> d | None \<Rightarrow> at_d a) = at_d a) ''another denomination'' (
        try_in a (e_script_of S (at_network a) address) (\<lambda>spk.
        need a (case p_payout_type (at_params a) of P2tr \<Rightarrow> is_p2tr spk | P2wsh \<Rightarrow> is_p2wsh spk)
          (case p_payout_type (at_params a) of P2tr \<Rightarrow> ''a payout that is not P2TR'' | P2wsh \<Rightarrow> ''a payout that is not a channel's P2WSH'') (
        try_in a (e_ring_verify S (sorted_ring a) (payout_msg (e_sha S) (at_id a) 0 (at_d a) spk) ring_sig) (\<lambda>image.
        case map_of (at_images a) image of
          Some (_, seen) \<Rightarrow> if seen = json then (Ok [], a) else stopping ''two payouts under one key image'' [] a
        | None \<Rightarrow>
            need a (\<not> list_ex (\<lambda>(s, _). s = spk) (at_payouts a)) ''a payout address registered twice'' (
            let a = a\<lparr>at_images := (image, spk, json) # at_images a, at_payouts := at_payouts a @ [(spk, 0)]\<rparr>
            in if length (at_payouts a) < p_peers (at_params a) then (Ok [], a)
               else need a (at_phase a = PhPayouts) ''every payout is in, but ours is not registered yet'' (
                    build_and_check S a))))))))"

section \<open>Views, nonces and partial signatures\<close>

definition signer_order :: "attempt \<Rightarrow> session list" where
  "signer_order a = map fst (at_regs a)"

text \<open>\<open>self.nonces[s]\<close>: a missing key aborts.\<close>

definition at_key :: "('k \<times> 'v) list \<Rightarrow> 'k \<Rightarrow> 'v outcome" where
  "at_key m k = (case map_of m k of Some v \<Rightarrow> Ok v | None \<Rightarrow> Abort)"

definition try_sign :: "pool_env \<Rightarrow> attempt \<Rightarrow> action list outcome \<times> attempt" where
  "try_sign S a =
     (let n = p_peers (at_params a) in
      if at_phase a \<noteq> PhView \<or> (\<not> at_public a \<and> length (at_views a) < n) \<or> length (at_nonces a) < n then (Ok [], a)
      else try_in a (some_or ''no view'' (at_my_view a) Ok) (\<lambda>mine.
        if list_ex (\<lambda>(_, v). v \<noteq> mine) (at_views a) then stopping ''the members do not see the same pool'' [] a
        else try_in a (some_or ''my nonces were used'' (at_my_nonces a) Ok) (\<lambda>secs.
          let a = a\<lparr>at_my_nonces := None\<rparr>
          in try_in a (collect_ok (\<lambda>s. and_then (at_key (at_nonces a) s) (\<lambda>(ns, _). Ok ns)) (signer_order a)) (\<lambda>order.
             try_in a (some_or ''keys'' (at_keys a) Ok) (\<lambda>keys.
             try_in a (some_or ''msgs'' (at_msgs a) Ok) (\<lambda>msgs.
             try_in a (partial_sign (e_curve S) (mp_musig (at_me a)) keys msgs secs order) (\<lambda>psigs.
             (Ok [post (PartialSigsMsg 0 (map hex_encode psigs))], a\<lparr>at_phase := PhSigning\<rparr>))))))))"

definition on_view :: "pool_env \<Rightarrow> session \<Rightarrow> jvalue \<Rightarrow> attempt \<Rightarrow> action list outcome \<times> attempt" where
  "on_view S s v a =
     (if \<not> registered a s then (Ok [], a)
      else case v of
        JObject fs \<Rightarrow>
          need a (length fs = 3 \<and> j_str (map_of fs ''version'') = Some ''2'') ''bad view message'' (
          try_in a (strict_hex (case j_str (map_of fs ''hash'') of Some h \<Rightarrow> h | None \<Rightarrow> []) 32) (\<lambda>h.
          let hash = bytes_hash h
          in case map_of (at_views a) s of
               Some seen \<Rightarrow> need a (seen = hash) ''a member sent two different views'' (Ok [], a)
             | None \<Rightarrow> try_sign S (a\<lparr>at_views := (s, hash) # at_views a\<rparr>)))
      | _ \<Rightarrow> (Err ''view'', a))"

definition exits_expected :: "attempt \<Rightarrow> nat" where
  "exits_expected a = (case at_msgs a of Some msgs \<Rightarrow> length msgs | None \<Rightarrow> wrap_sub64 (p_peers (at_params a)) 1)"

definition on_nonces :: "pool_env \<Rightarrow> session \<Rightarrow> nat \<Rightarrow> string list \<Rightarrow> string \<Rightarrow> attempt \<Rightarrow> action list outcome \<times> attempt" where
  "on_nonces S s offset nonces json a =
     (case map_of (at_nonces a) s of
        Some (_, seen) \<Rightarrow> need a (seen = json) ''a member sent two different nonce messages'' (Ok [], a)
      | None \<Rightarrow>
          need a (offset = 0) ''nonces in parts are not used by LiJ pools'' (
          try_in a (one_per_exit (length nonces) (exits_expected a)) (\<lambda>_.
          try_in a (collect_ok (nonce_from_hex (e_curve S)) nonces) (\<lambda>parsed.
          try_sign S (a\<lparr>at_nonces := (s, parsed, json) # at_nonces a\<rparr>)))))"

text \<open>Every exit is signed: the record, and this phone's coins to be checked again.\<close>

definition attempt_record_of :: "attempt \<Rightarrow> pool_txs \<Rightarrow> script_buf \<Rightarrow> attempt_record" where
  "attempt_record_of a built payout =
     \<lparr>rc_id = at_id a, rc_funding = pt_funding built, rc_exits = pt_exits built, rc_payout = payout,
      rc_inputs = map fst (mp_coins (at_me a)), rc_channel = (p_payout_type (at_params a) = P2wsh),
      rc_rate_milli = at_rate_milli a, rc_prevouts = pt_funding_prevouts built\<rparr>"

definition exits_signed :: "bytes list \<Rightarrow> attempt \<Rightarrow> action list outcome \<times> attempt" where
  "exits_signed sigs a =
     try_in a (some_or ''built'' (at_built a) Ok) (\<lambda>built.
     let a = a\<lparr>at_built := None\<rparr>
     in try_in a (attach built sigs) (\<lambda>built.
        try_in a (some_or ''no payout'' (mp_payout (at_me a)) Ok) (\<lambda>payout.
        (Ok [SaveRecord (attempt_record_of a built payout), CheckCoins (map (\<lambda>(op, out, _). (op, out)) (mp_coins (at_me a)))],
         a\<lparr>at_built := Some built, at_phase := PhFunding\<rparr>))))"

definition signer_of :: "attempt \<Rightarrow> session \<Rightarrow> signer outcome" where
  "signer_of a s =
     and_then (at_key (at_regs a) s) (\<lambda>(r, _).
     and_then (at_key (at_nonces a) s) (\<lambda>(ns, _).
     and_then (at_key (at_psigs a) s) (\<lambda>(ps, _). Ok (ir_musig r, ns, ps))))"

definition on_psigs :: "pool_env \<Rightarrow> session \<Rightarrow> nat \<Rightarrow> string list \<Rightarrow> string \<Rightarrow> attempt \<Rightarrow> action list outcome \<times> attempt" where
  "on_psigs S s offset sigs json a =
     (case map_of (at_psigs a) s of
        Some (_, seen) \<Rightarrow> need a (seen = json) ''a member sent two different partial signatures'' (Ok [], a)
      | None \<Rightarrow>
          need a (offset = 0) ''signatures in parts are not used by LiJ pools'' (
          try_in a (one_per_exit (length sigs) (exits_expected a)) (\<lambda>_.
          try_in a (collect_ok (psig_from_hex (e_curve S)) sigs) (\<lambda>parsed.
          let a = a\<lparr>at_psigs := (s, parsed, json) # at_psigs a\<rparr>
          in if at_phase a \<noteq> PhSigning \<or> length (at_psigs a) < p_peers (at_params a) then (Ok [], a)
             else try_in a (some_or ''keys'' (at_keys a) Ok) (\<lambda>keys.
                  try_in a (some_or ''msgs'' (at_msgs a) Ok) (\<lambda>msgs.
                  try_in a (collect_ok (signer_of a) (signer_order a)) (\<lambda>signers.
                  case aggregate (e_curve S) keys msgs signers of
                    Ok sigs \<Rightarrow> exits_signed sigs a
                  | Err text \<Rightarrow>
                      stopping ''a member's partial signature is invalid''
                        (if at_public a then []
                         else map fst (filter (\<lambda>(k, r, _). str_contains text (hex_encode (ir_musig r))) (at_regs a))) a
                  | Abort \<Rightarrow> (Abort, a))))))))"

section \<open>Inputs\<close>

definition on_msg :: "pool_env \<Rightarrow> session \<Rightarrow> string \<Rightarrow> attempt \<Rightarrow> action list outcome \<times> attempt" where
  "on_msg S s json a =
     try_in a (message_size (str_bytes json)) (\<lambda>_.
     case (case e_json S json of Some v \<Rightarrow> if j_str (j_get v ''type'') = Some ''lij_view'' then Some v else None | None \<Rightarrow> None) of
       Some v \<Rightarrow> on_view S s v a
     | None \<Rightarrow> try_in a (parse_strict S json) (\<lambda>m. (case m of
           InputsMsg musig ring inputs change height denomination \<Rightarrow> on_inputs S s musig ring inputs change height denomination json a
         | OutputMsg address sig priority denomination \<Rightarrow> on_output S address sig priority denomination json a
         | NoncesMsg offset nonces \<Rightarrow> if registered a s then on_nonces S s offset nonces json a else (Ok [], a)
         | PartialSigsMsg offset sigs \<Rightarrow> if registered a s then on_psigs S s offset sigs json a else (Ok [], a)
         | AbortMsg _ \<Rightarrow> if registered a s \<and> s \<noteq> my_session a then stopping ''a member stopped the pool'' [] a else (Ok [], a)
         | _ \<Rightarrow> (Ok [], a))))"

definition on_tick :: "nat \<Rightarrow> attempt \<Rightarrow> action list outcome \<times> attempt" where
  "on_tick now a =
     (if at_clock_phase a \<noteq> at_phase a
      then (Ok [], a\<lparr>at_clock_phase := at_phase a, at_deadline := wrap_add64 now (at_phase_s a)\<rparr>)
      else if at_deadline a < now
      then if at_phase a = PhFunding \<and> p_payout_type (at_params a) = P2wsh \<and> \<not> at_channel_saved a \<and> at_record_saved a \<and> at_recheck_ok a
           then stopping ''the provider's channel signature did not arrive in time'' [] a
           else if at_phase a = PhChannel then stopping ''the channel could not be opened in time'' [] a
           else stopping (''timed out at '' @ phase_text (at_phase a)) (stalled a) a
      else (Ok [], a))"

definition step :: "pool_env \<Rightarrow> pool_input \<Rightarrow> attempt \<Rightarrow> action list outcome \<times> attempt" where
  "step S i a =
     (case i of
        Tick now \<Rightarrow> on_tick now a
      | CoinsChecked bad unanswered \<Rightarrow> on_coins S bad unanswered a
      | RecordSaved \<Rightarrow> if at_phase a \<noteq> PhFunding then (Ok [], a) else try_fund S (a\<lparr>at_record_saved := True\<rparr>)
      | PayoutGiven spk \<Rightarrow>
          if at_phase a \<noteq> PhChannel then (Ok [], a)
          else need a (is_p2wsh spk) ''the channel's funding script is not P2WSH'' (
               register_payout S (a\<lparr>at_me := (at_me a)\<lparr>mp_payout := Some spk\<rparr>\<rparr>))
      | ChannelSaved \<Rightarrow>
          if p_payout_type (at_params a) \<noteq> P2wsh \<or> at_phase a \<notin> {PhView, PhSigning, PhFunding} then (Ok [], a)
          else let a = a\<lparr>at_channel_saved := True\<rparr> in if at_phase a = PhFunding then try_fund S a else (Ok [], a)
      | ChannelFailed why \<Rightarrow>
          if p_payout_type (at_params a) \<noteq> P2wsh then (Ok [], a)
          else stopping (''the channel for this pool failed: '' @ why) [] a
      | Leave \<Rightarrow> if at_phase a \<in> {PhFundingSigned, PhStopped} then (Ok [], a) else stopping ''you left the pool'' [] a
      | MsgIn s json \<Rightarrow> on_msg S s json a)"

text \<open>One event: the actions, or a panic, and the state left.\<close>

definition on_input :: "pool_env \<Rightarrow> attempt \<Rightarrow> pool_input \<Rightarrow> attempt \<times> action list outcome" where
  "on_input S a i =
     (if at_phase a = PhStopped \<or> at_phase a = PhFundingSigned then (a, Ok [])
      else case step S i a of
        (Ok acts, a) \<Rightarrow> (a, Ok acts)
      | (Abort, a) \<Rightarrow> (a, Abort)
      | (Err e, a) \<Rightarrow>
          (case i of
             MsgIn s _ \<Rightarrow>
               if registered a s \<and> s \<noteq> my_session a then (case stop e [s] a of (acts, a) \<Rightarrow> (a, Ok acts)) else (a, Ok [])
           | _ \<Rightarrow> (case stop e [] a of (acts, a) \<Rightarrow> (a, Ok acts))))"

end
