(* ===== verification/Pool_Total.thy ===== *)
theory Pool_Total
  imports Tatara_Rederive Pool_Sign
begin

text \<open>
  The pool code does not panic: the re-derivation, the builder and the signing of a Phase 1 pool return a value or an
  error, whatever the registrations and payouts, and the transactions of a built pool have the shape the signing needs.
\<close>

section \<open>Outcomes that are not a panic\<close>

named_theorems returns \<open>operations that do not panic\<close>

lemma outcome_returns [returns]:
  "and_then m f \<noteq> Abort \<longleftrightarrow> m \<noteq> Abort \<and> (\<forall>x. m = Ok x \<longrightarrow> f x \<noteq> Abort)"
  "ensure b e k \<noteq> Abort \<longleftrightarrow> (b \<longrightarrow> k \<noteq> Abort)"
  "some_or e o' g \<noteq> Abort \<longleftrightarrow> (\<forall>x. o' = Some x \<longrightarrow> g x \<noteq> Abort)"
  "at xs i h \<noteq> Abort \<longleftrightarrow> i < length xs \<and> h (xs ! i) \<noteq> Abort"
  "some_or_abort o' g \<noteq> Abort \<longleftrightarrow> (\<exists>x. o' = Some x \<and> g x \<noteq> Abort)"
  "div_ceil_or_abort x y d \<noteq> Abort \<longleftrightarrow> y \<noteq> 0 \<and> d (div_ceil x y) \<noteq> Abort"
  by (cases m; auto simp: ensure_def some_or_def some_or_abort_def at_def div_ceil_or_abort_def split: option.splits)+

lemma collect_ok_returns: "(\<And>x. x \<in> set xs \<Longrightarrow> f x \<noteq> Abort) \<Longrightarrow> collect_ok f xs \<noteq> Abort"
  by (induction xs) (simp_all add: returns)

lemma collect_ok_length: "collect_ok f xs = Ok ys \<Longrightarrow> length ys = length xs"
  by (auto simp: collect_ok_Ok dest: list_all2_lengthD)

lemma fold_ok_returns:
  assumes "P s" and "\<And>x s. x \<in> set xs \<Longrightarrow> P s \<Longrightarrow> f x s \<noteq> Abort \<and> (\<forall>s'. f x s = Ok s' \<longrightarrow> P s')"
  shows "fold_ok f xs s \<noteq> Abort"
  using assms by (induction xs arbitrary: s) (auto simp: returns)

lemmas fold_ok_returns' = fold_ok_returns [where P = "\<lambda>_. True", OF TrueI]

section \<open>Registrations\<close>

lemma input_weight_returns: "pool_input_weight s \<noteq> Abort"
  by (simp add: pool_input_weight_def)

lemma check_registrations_returns:
  assumes "validate p = Ok ()"
  shows "check_input_registrations p regs \<noteq> Abort"
proof -
  obtain share where share: "exit_share p = Ok share" using share_small [OF assms] by auto
  have "fold_ok (\<lambda>i weight. and_then (pool_input_weight (to_script i)) (\<lambda>w. Ok (wrap_add64 weight w))) is w \<noteq> Abort" for "is" w
    by (rule fold_ok_returns') (simp add: returns input_weight_returns)
  hence required: "required p a is c \<noteq> Abort" for a "is" c
    using share validate_facts(1) [OF assms] by (simp add: required_def funding_fee_def returns Let_def)
  have "fold_ok check_input is s \<noteq> Abort" for "is" s
    by (rule fold_ok_returns') (auto simp: check_input_def returns input_weight_returns split: prod.splits)
  moreover have "check_change r s \<noteq> Abort" for r s by (simp add: check_change_def returns split: option.splits)
  ultimately have "check_registration p r s \<noteq> Abort" for r s
    using required by (simp add: check_registration_def returns Let_def)
  hence "fold_ok (check_registration p) regs s \<noteq> Abort" for s by (intro fold_ok_returns') simp
  thus ?thesis by (simp add: check_input_registrations_def returns)
qed

section \<open>The re-derivation\<close>

lemma own_fee_returns: "own_fee w r \<noteq> Abort"
  by (simp add: own_fee_def returns)

lemma own_exit_share_returns: "own_exit_share n r \<noteq> Abort"
proof -
  have "fold_ok (\<lambda>kg total. and_then (exit_fee r m kg) (\<lambda>f. some_or ''overflow'' (checked_add64 total f) Ok)) xs t \<noteq> Abort" for m xs t
    by (rule fold_ok_returns') (simp add: returns exit_fee_def own_fee_returns split: prod.splits)
  thus ?thesis by (simp add: own_exit_share_def returns Let_def)
qed

lemma member_need_returns:
  assumes "0 < n"
  shows "member_need d n r spks c \<noteq> Abort"
proof -
  have "fold_ok (\<lambda>spk w. and_then (own_input_weight spk) (\<lambda>v. Ok (wrap_add64 w v))) spks w \<noteq> Abort" for w
    by (rule fold_ok_returns') (simp add: returns own_input_weight_def)
  thus ?thesis using assms by (simp add: member_need_def returns own_exit_share_returns Let_def)
qed

lemma check_member_returns:
  assumes "0 < n"
  shows "check_member d n r mb \<noteq> Abort"
proof -
  have "fold_ok (\<lambda>(op, out) total. some_or ''overflow'' (checked_add64 total (to_value out)) Ok) xs t \<noteq> Abort" for xs :: "(outpoint \<times> txout) list" and t
    by (rule fold_ok_returns') (simp add: returns split: prod.splits)
  thus ?thesis using member_need_returns [OF assms] by (simp add: check_member_def returns Let_def)
qed

lemma own_pools_returns: "own_pools d xs prev \<noteq> Abort"
  by (induction d xs prev rule: own_pools.induct) (simp_all add: returns)

lemma own_exits_returns:
  "sum_list plan \<le> length order \<Longrightarrow> own_exits sha pid d lock m pools scripts k plan order prev \<noteq> Abort"
proof (induction plan arbitrary: k order prev)
  case (Cons g plan)
  hence "sum_list plan \<le> length (drop g order)" "\<not> length order < g" by simp_all
  with Cons.IH show ?case by (simp add: returns Let_def)
qed simp

lemma rederive_returns:
  assumes "\<And>keys i. pool_script keys i \<noteq> Abort"
  shows "rederive sha pool_script pid d r members payouts tip \<noteq> Abort"
proof (cases "3 \<le> length members \<and> length members \<le> 6 \<and> length payouts = length members")
  case True
  have "sum_list (default_plan (length members)) = length members" using True by (auto simp: default_plan_def sum_list_replicate)
  hence "own_exits sha pid d lock m pools scripts k (default_plan (length members)) (own_order sha pid payouts) prev \<noteq> Abort"
    for lock m pools scripts k prev using True by (intro own_exits_returns) simp
  moreover have "collect_ok (exit_fee r m) xs \<noteq> Abort" for m xs
    by (rule collect_ok_returns) (simp add: exit_fee_def own_fee_returns split: prod.splits)
  moreover have "collect_ok (check_member d (length members) r) members \<noteq> Abort"
  proof (rule collect_ok_returns)
    fix x show "check_member d (length members) r x \<noteq> Abort" by (rule check_member_returns) (use True in auto)
  qed
  moreover have "collect_ok (pool_script (map mb_musig members)) xs \<noteq> Abort" for xs
    by (rule collect_ok_returns) (rule assms)
  ultimately show ?thesis using True own_exit_share_returns own_pools_returns
    by (simp add: rederive_def returns Let_def)
qed (auto simp: rederive_def returns Let_def)

section \<open>The builder\<close>

lemma exit_outputs_returns:
  assumes "list_all (out_in_range n m) (ep_outs q)" and "length order = n" and "\<And>i. spk i \<noteq> Abort"
  shows "exit_outputs sha p q spk order k \<noteq> Abort"
proof -
  have "collect_ok (exit_output spk order) (ep_outs q) \<noteq> Abort"
    by (rule collect_ok_returns)
      (use assms in \<open>auto simp: exit_output_def returns list_all_iff out_in_range_def split: plan_out.splits\<close>)
  thus ?thesis by (simp add: exit_outputs_def returns Let_def)
qed

text \<open>The links of an exit point into it.\<close>

lemma link_of_returns:
  assumes "list_all (out_in_range n m) (ep_outs q)" and "length order = n" and "\<And>i. spk i \<noteq> Abort"
  shows "link_of q outs spk order \<noteq> Abort"
    and "link_of q outs spk order = Ok link \<Longrightarrow> el_from link = ep_from q \<and> (\<forall>(i, v)\<in>set (el_to link). i < m \<and> v < length outs)"
proof -
  have turn: "link_out outs spk order x s \<noteq> Abort \<and> (\<forall>s'. link_out outs spk order x s = Ok s' \<longrightarrow>
      (\<forall>(i, v)\<in>set (fst s'). i < m \<and> v < length outs))"
    if "x \<in> set (ep_outs q)" "\<forall>(i, v)\<in>set (fst s). i < m \<and> v < length outs" for x s
  proof -
    have "out_in_range n m x" using assms(1) that(1) by (simp add: list_all_iff)
    thus ?thesis using that(2) assms(2,3)
      by (cases x; cases s) (auto simp: link_out_def returns vout_of_def out_in_range_def and_then_Ok some_or_Ok at_Ok dest!: position_Some)
  qed
  show "link_of q outs spk order \<noteq> Abort"
    using fold_ok_returns [where P = "\<lambda>s. \<forall>(i, v)\<in>set (fst s). i < m \<and> v < length outs" and s = "([], [])"] turn
    by (auto simp: link_of_def returns split: prod.splits)
  show "el_from link = ep_from q \<and> (\<forall>(i, v)\<in>set (el_to link). i < m \<and> v < length outs)" if ok: "link_of q outs spk order = Ok link"
  proof -
    from ok obtain to pays where fold: "fold_ok (link_out outs spk order) (ep_outs q) ([], []) = Ok (to, pays)"
      "link = \<lparr>el_from = ep_from q, el_to = to, el_pays = pays, el_depth = ep_depth q\<rparr>"
      by (auto simp: link_of_def and_then_Ok split: prod.splits)
    have "\<forall>(i, v)\<in>set (fst (to, pays)). i < m \<and> v < length outs"
      by (rule fold_ok_keeps [OF fold(1), where P = "\<lambda>_ s. \<forall>(i, v)\<in>set (fst s). i < m \<and> v < length outs"])
        (simp, use turn [OF nth_mem] in blast)
    thus ?thesis using fold(2) by simp
  qed
qed

lemma create_outputs_returns:
  assumes "\<forall>(i, v)\<in>set ls. i < length made \<and> v < length (tx_output tx)"
  shows "\<exists>made'. fold_ok (create_output t tx) ls made = Ok made' \<and> length made' = length made"
  using assms
proof (induction ls arbitrary: made)
  case (Cons l ls)
  obtain i v where l: "l = (i, v)" by (cases l)
  have "create_output t tx l made = Ok (made[i := Some ((t, of_nat v), tx_output tx ! v)])"
    using Cons.prems by (simp add: l create_output_def at_def)
  thus ?case using Cons.IH [of "made[i := Some ((t, of_nat v), tx_output tx ! v)]"] Cons.prems by auto
qed simp

lemma build_exits_returns:
  assumes "list_all (\<lambda>q. ep_from q < length made \<and> list_all (out_in_range (length order) (length made)) (ep_outs q)) qs"
    and "\<And>i. spk i \<noteq> Abort"
  shows "build_exits sha p spk order lock t qs made \<noteq> Abort"
  using assms(1)
proof (induction qs arbitrary: t made)
  case (Cons q qs)
  have q: "ep_from q < length made" "list_all (out_in_range (length order) (length made)) (ep_outs q)" using Cons.prems by simp_all
  note outs = exit_outputs_returns [where spk = spk, OF q(2) refl assms(2)]
  note link = link_of_returns [where spk = spk, OF q(2) refl assms(2)]
  have "fold_ok (create_output (compute_txid sha tx) tx) (el_to l) made \<noteq> Abort \<and>
      (\<forall>made'. fold_ok (create_output (compute_txid sha tx) tx) (el_to l) made = Ok made' \<longrightarrow>
        build_exits sha p spk order lock (t + 1) qs made' \<noteq> Abort)"
    if "link_of q outs spk order = Ok l" and tx: "tx = \<lparr>tx_version = 2, tx_lock_time = lock, tx_input = [pool_txin prev], tx_output = outs\<rparr>"
    for l tx outs prev
  proof -
    from link(2) [OF that(1)] tx obtain made' where made': "fold_ok (create_output (compute_txid sha tx) tx) (el_to l) made = Ok made'"
      "length made' = length made" using create_outputs_returns [of "el_to l" made tx "compute_txid sha tx"] by auto
    thus ?thesis using Cons.IH [of made' "t + 1"] Cons.prems by simp
  qed
  thus ?case using q(1) outs link(1) by (simp add: returns Let_def split: prod.splits)
qed simp

text \<open>The exits of a chain stay in range.\<close>

lemma chain_plans_in_range:
  assumes "balanced 0 before exits" and "m = j + length exits" and "first + length (concat (map ea_payouts exits)) \<le> n"
  shows "list_all (\<lambda>q. ep_from q < m \<and> list_all (out_in_range n m) (ep_outs q)) (chain_plans j first exits)"
  using assms
proof (induction "0::nat" before exits arbitrary: j first rule: balanced.induct)
  case (2 before e)
  thus ?case by (auto simp: list_all_iff out_in_range_def in_set_enumerate_eq)
next
  case (3 before e e' es)
  from "3.prems"(1) obtain after where after: "ea_pool e = Some after" "balanced 0 after (e' # es)" by (auto split: option.splits)
  have "list_all (\<lambda>q. ep_from q < m \<and> list_all (out_in_range n m) (ep_outs q)) (chain_plans (j + 1) (first + length (ea_payouts e)) (e' # es))"
    by (rule "3.hyps" [OF after]) (use "3.prems"(2,3) in auto)
  with "3.prems"(2,3) after(1) show ?case
    by (auto simp: list_all_iff out_in_range_def in_set_enumerate_eq simp del: chain_plans.simps(2) simp add: chain_plans.simps(2) [of j first e])
qed simp

lemma build_returns:
  assumes phase1: "phase1_params p d" and spk: "\<And>i. spk i \<noteq> Abort"
  shows "build sha p regs (map (payout_of d) payouts) spk \<noteq> Abort"
proof (cases "length regs = p_peers p \<and> length payouts = p_peers p")
  case True
  let ?n = "p_peers p" and ?order = "map fst (own_order sha (p_id p) payouts)"
  from phase1_amounts [OF phase1 refl] obtain exits where
    es: "exit_set_of p (replicate ?n d) = Ok \<lparr>es_plans = chain_plans 0 0 exits, es_pools = pool_zero p (replicate ?n d) # List.map_filter ea_pool exits\<rparr>"
    and exits: "balanced 0 (pool_zero p (replicate ?n d)) exits" "list_all2 (\<lambda>g e. ea_payouts e = replicate g d) (default_plan ?n) exits" by blast
  have "map ea_payouts exits = map (\<lambda>g. replicate g d) (default_plan ?n)"
    using exits(2) by (auto simp: list_all2_conv_all_nth intro!: nth_equalityI)
  hence "length (concat (map ea_payouts exits)) = sum_list (default_plan ?n)" by (simp add: length_concat comp_def)
  also have "\<dots> = ?n" using phase1 by (auto simp: default_plan_def sum_list_replicate phase1_params_def)
  finally have total: "length (concat (map ea_payouts exits)) = ?n" .
  have order: "length ?order = ?n" "map po_script (payout_order sha (p_id p) (map (payout_of d) payouts)) = ?order"
    "map po_amount (payout_order sha (p_id p) (map (payout_of d) payouts)) = replicate ?n d"
    using True by (simp_all add: own_order_same payout_of_def comp_def map_replicate_const)
  have len: "length (List.map_filter ea_pool exits) + 1 = length exits" using balanced_pools [OF exits(1)] by simp
  have plans: "list_all (\<lambda>q. ep_from q < length exits \<and> list_all (out_in_range ?n (length exits)) (ep_outs q)) (chain_plans 0 0 exits)"
    by (rule chain_plans_in_range [OF exits(1)]) (use total in auto)
  have "build_exits sha p spk ?order lock 0 (chain_plans 0 0 exits) made \<noteq> Abort" if "length made = length exits" for lock made
    by (rule build_exits_returns) (use plans order(1) that spk in \<open>auto simp: list_all_iff\<close>)
  moreover have "\<exists>v. position (\<lambda>out. to_script out = s) (sort_key f (\<lparr>to_value = w, to_script = s\<rparr> # xs)) = Some v \<and>
      v < length (sort_key f (\<lparr>to_value = w, to_script = s\<rparr> # xs))" for s w xs and f :: "txout \<Rightarrow> hash256"
    using position_exists [of "\<lparr>to_value = w, to_script = s\<rparr>" "sort_key f (\<lparr>to_value = w, to_script = s\<rparr> # xs)" "\<lambda>out. to_script out = s"]
      position_Some [of "\<lambda>out. to_script out = s" "sort_key f (\<lparr>to_value = w, to_script = s\<rparr> # xs)"]
    by (simp del: sort_key_simps) blast
  ultimately show ?thesis using True spk es order(2,3) len
    by (auto simp: build_def returns Let_def simp del: sort_key_simps)
qed (auto simp: build_def returns)

section \<open>The shape of a built pool\<close>

definition pool_shape :: "pool_txs \<Rightarrow> bool" where
  "pool_shape txs =
     (length (pt_spent txs) = length (pt_exits txs) \<and> length (pt_links txs) = length (pt_exits txs) \<and>
      list_all (\<lambda>tx. length (tx_input tx) = 1) (pt_exits txs) \<and>
      length (pt_funding_prevouts txs) = length (tx_input (pt_funding txs)))"

lemma build_exits_shape: "build_exits sha p spk order lock t qs made = Ok built \<Longrightarrow> list_all (\<lambda>x. length (tx_input (fst x)) = 1) built"
  by (induction qs arbitrary: t made built) (auto simp: and_then_Ok at_Ok some_or_Ok Let_def)

lemma build_shape:
  assumes "build sha p regs payouts spk = Ok txs"
  shows "pool_shape txs"
  using assms by (auto simp: build_def and_then_Ok some_or_Ok some_or_abort_Ok at_Ok Let_def pool_shape_def list_all_iff
    dest!: build_exits_shape simp del: sort_key_simps)

lemma exit_sighash_exists: "length (tx_input tx) = 1 \<Longrightarrow> \<exists>h. exit_sighash sha tx spent = Ok h"
  by (simp add: exit_sighash_def key_spend_sighash_def taproot_signing_data_def sighash_common_def sighash_input_def prevouts_all_def Let_def)

text \<open>Curve operations that do not panic.\<close>

definition curve_total :: "curve_ops \<Rightarrow> bool" where
  "curve_total K =
     ((\<forall>keys. k_aggregate_ok K keys \<noteq> Abort) \<and> (\<forall>keys i. k_ctx_key K keys i \<noteq> Abort) \<and>
      (\<forall>keys i sk sec agg m. k_sign_partial K keys i sk sec agg m \<noteq> Abort) \<and>
      (\<forall>keys i agg sigs m. k_aggregate K keys i agg sigs m \<noteq> Abort))"

lemma keys_return:
  assumes "curve_total K"
  shows "pool_keys_new K keys \<noteq> Abort" and "output_key K ks i \<noteq> Abort" and "script_pubkey K ks i \<noteq> Abort"
  using assms by (simp_all add: curve_total_def pool_keys_new_def output_key_def script_pubkey_def returns Let_def)

lemma exit_messages_return:
  assumes "curve_total K" and "pool_shape txs"
  shows "exit_messages sha K keys txs \<noteq> Abort"
    and "exit_messages sha K keys txs = Ok msgs \<Longrightarrow> length msgs = length (pt_exits txs)"
proof -
  have "exit_message_of sha K keys x \<noteq> Abort" if "x \<in> set (enumerate 0 (zip (zip (pt_exits txs) (pt_spent txs)) (pt_links txs)))" for x
  proof -
    obtain i tx spent link where x: "x = (i, (tx, spent), link)" by (metis prod.collapse)
    have "tx \<in> set (pt_exits txs)" using that by (auto simp: x in_set_enumerate_eq dest!: set_zip_leftD)
    with assms(2) exit_sighash_exists [of tx sha spent] obtain h where "exit_sighash sha tx spent = Ok h" by (auto simp: pool_shape_def list_all_iff)
    thus ?thesis using keys_return(2) [OF assms(1)] by (simp add: x exit_message_of_def returns)
  qed
  thus "exit_messages sha K keys txs \<noteq> Abort" unfolding exit_messages_def by (rule collect_ok_returns)
  show "length msgs = length (pt_exits txs)" if "exit_messages sha K keys txs = Ok msgs"
    using that assms(2) collect_ok_length [of "exit_message_of sha K keys"] by (auto simp: exit_messages_def pool_shape_def)
qed

lemma signing_returns:
  assumes "curve_total K"
  shows "make_nonces sha K sk keys msgs pid aux \<noteq> Abort" and "partial_sign K sk keys msgs secs nonces \<noteq> Abort"
    and "aggregate K keys msgs signers \<noteq> Abort"
proof -
  have "collect_ok (make_nonce sha K sk keys pid aux) msgs \<noteq> Abort"
    by (rule collect_ok_returns) (use assms in \<open>simp add: make_nonce_def returns curve_total_def Let_def\<close>)
  thus "make_nonces sha K sk keys msgs pid aux \<noteq> Abort" by (simp add: make_nonces_def returns)
  have "collect_ok (sign_exit K sk keys nonces) xs \<noteq> Abort" for xs
    by (rule collect_ok_returns) (use assms in \<open>simp add: sign_exit_def returns curve_total_def split: prod.splits\<close>)
  thus "partial_sign K sk keys msgs secs nonces \<noteq> Abort" by (simp add: partial_sign_def returns)
  have "collect_ok (aggregate_exit K keys signers) xs \<noteq> Abort" for xs
    by (rule collect_ok_returns) (use assms in \<open>simp add: aggregate_exit_def returns curve_total_def Let_def split: prod.splits\<close>)
  moreover have "collect_ok (\<lambda>(pk, pubs, sigs). ensure (length pubs = length msgs \<and> length sigs = length msgs)
      (hex_encode pk @ '' did not send one nonce and one partial signature per exit'') (Ok ())) signers \<noteq> Abort"
    by (rule collect_ok_returns) (simp add: returns split: prod.splits)
  ultimately show "aggregate K keys msgs signers \<noteq> Abort" by (simp add: aggregate_def returns)
qed

lemma aggregate_length: "aggregate K keys msgs signers = Ok sigs \<Longrightarrow> length sigs = length msgs"
  using collect_ok_length [of "aggregate_exit K keys signers"] by (auto simp: aggregate_def and_then_Ok)

lemma attach_succeeds:
  "pool_shape txs \<Longrightarrow> length sigs = length (pt_exits txs) \<Longrightarrow> attach txs sigs = Ok (txs\<lparr>pt_exits := map attach_witness (zip (pt_exits txs) sigs)\<rparr>)"
  by (simp add: attach_def pool_shape_def)

text \<open>The witnesses change neither an exit's outputs nor its id.\<close>

lemma attach_witness_keeps:
  assumes "length (tx_input tx) = 1"
  shows "tx_output (attach_witness (tx, sig)) = tx_output tx" and "compute_txid sha (attach_witness (tx, sig)) = compute_txid sha tx"
proof -
  obtain i where "tx_input tx = [i]" using assms by (auto simp: length_Suc_conv)
  thus "tx_output (attach_witness (tx, sig)) = tx_output tx" "compute_txid sha (attach_witness (tx, sig)) = compute_txid sha tx"
    by (simp_all add: attach_witness_def compute_txid_def ser_vec_def ser_txin_def)
qed

end
