(* ===== verification/Tatara_Protocol.thy ===== *)
theory Tatara_Protocol
  imports Tatara_Machine Pool_Total
begin

text \<open>
  What one phone's machine promises: an invariant of its states, the moves its events make, and what follows for a whole
  run. The moves (\<open>move\<close>) are the protocol as an abstract specification; every event of the machine refines one of them.
\<close>

section \<open>States\<close>

text \<open>The functions outside do not panic; a signature is asked for an input that has its spent output.\<close>

definition env_total :: "pool_env \<Rightarrow> bool" where
  "env_total S =
     (curve_total (e_curve S) \<and> (\<forall>n s. e_script_of S n s \<noteq> Abort) \<and> (\<forall>n s. e_address_of S n s \<noteq> Abort) \<and>
      (\<forall>keys i. e_pool_script S keys i \<noteq> Abort) \<and> (\<forall>sk spk m aux. e_prove S sk spk m aux \<noteq> Abort) \<and>
      (\<forall>spk m pf. e_verify_proof S spk m pf \<noteq> Abort) \<and> (\<forall>ring x m aux. e_ring_sign S ring x m aux \<noteq> Abort) \<and>
      (\<forall>ring m sig. e_ring_verify S ring m sig \<noteq> Abort) \<and>
      (\<forall>tx i spent sk aux. i < length spent \<longrightarrow> e_sign_input S tx i spent sk aux \<noteq> Abort))"

definition closed :: "attempt \<Rightarrow> bool" where
  "closed a = (length (at_regs a) = p_peers (at_params a) \<and> registered a (my_session a))"

definition regs_ok :: "attempt \<Rightarrow> bool" where
  "regs_ok a =
     (distinct (map fst (at_regs a)) \<and> length (at_regs a) \<le> p_peers (at_params a) \<and>
      list_all (\<lambda>(k, r, _). ir_session r = k) (at_regs a))"

text \<open>A map from sessions that only registered members are in.\<close>

definition members_only :: "attempt \<Rightarrow> (session \<times> 'v) list \<Rightarrow> bool" where
  "members_only a m = (distinct (map fst m) \<and> fst ` set m \<subseteq> fst ` set (at_regs a))"

definition maps_ok :: "attempt \<Rightarrow> bool" where
  "maps_ok a = (members_only a (at_views a) \<and> members_only a (at_nonces a) \<and> members_only a (at_psigs a))"

definition base_ok :: "attempt \<Rightarrow> bool" where
  "base_ok a =
     (phase1_params (at_params a) (at_d a) \<and> at_id a = p_id (at_params a) \<and> at_rate_milli a = p_fee_rate_milli (at_params a) \<and>
      regs_ok a \<and> maps_ok a \<and> (at_coins_asked a \<longrightarrow> closed a) \<and>
      (mp_payout (at_me a) = None \<longrightarrow> p_payout_type (at_params a) = P2wsh))"

text \<open>What was built passed every check; the exits' messages and this phone's view come from it.\<close>

definition view_ok :: "pool_env \<Rightarrow> attempt \<Rightarrow> bool" where
  "view_ok S a =
     (\<exists>keys built pay msgs. checked_build S a = Ok (keys, built, pay) \<and> exit_messages (e_sha S) (e_curve S) keys built = Ok msgs \<and>
        at_built a = Some built \<and> at_keys a = Some keys \<and> at_msgs a = Some msgs \<and> at_my_view a = Some (view_hash S built msgs a))"

text \<open>The same with a valid signature in every exit.\<close>

definition funding_ok :: "pool_env \<Rightarrow> attempt \<Rightarrow> bool" where
  "funding_ok S a =
     (\<exists>keys built pay msgs sigs. checked_build S a = Ok (keys, built, pay) \<and> exit_messages (e_sha S) (e_curve S) keys built = Ok msgs \<and>
        list_all2 (\<lambda>m sig. k_schnorr_ok (e_curve S) sig (xm_msg m) (xm_output_key m)) msgs sigs \<and>
        length sigs = length (pt_exits built) \<and> at_built a = Some (built\<lparr>pt_exits := map attach_witness (zip (pt_exits built) sigs)\<rparr>))"

definition phase_ok :: "pool_env \<Rightarrow> attempt \<Rightarrow> bool" where
  "phase_ok S a =
     ((at_phase a \<notin> {PhInputs, PhStopped} \<longrightarrow> closed a) \<and> (at_phase a \<in> {PhView, PhSigning} \<longrightarrow> view_ok S a) \<and>
      (at_phase a \<in> {PhFunding, PhFundingSigned} \<longrightarrow> funding_ok S a) \<and>
      (at_phase a = PhSigning \<longrightarrow> fst ` set (at_regs a) \<subseteq> fst ` set (at_nonces a)) \<and>
      (at_record_saved a \<or> at_recheck_ok a \<longrightarrow> at_phase a \<in> {PhFunding, PhFundingSigned, PhStopped}) \<and>
      (mp_payout (at_me a) = None \<longrightarrow> at_phase a \<in> {PhInputs, PhChannel, PhStopped}))"

definition attempt_ok :: "pool_env \<Rightarrow> attempt \<Rightarrow> bool" where
  "attempt_ok S a = (base_ok a \<and> phase_ok S a)"

section \<open>Moves\<close>

definition same_config :: "attempt \<Rightarrow> attempt \<Rightarrow> bool" where
  "same_config a a' =
     (at_params a' = at_params a \<and> at_id a' = at_id a \<and> at_d a' = at_d a \<and> at_rate_milli a' = at_rate_milli a \<and>
      at_network a' = at_network a \<and> at_public a' = at_public a \<and> at_refused a' = at_refused a \<and> at_phase_s a' = at_phase_s a \<and>
      my_session a' = my_session a \<and> mp_coins (at_me a') = mp_coins (at_me a) \<and> mp_change (at_me a') = mp_change (at_me a))"

text \<open>The three conditions of the funding signature are met only by the answers asked for.\<close>

definition answers :: "pool_input \<Rightarrow> attempt \<Rightarrow> attempt \<Rightarrow> bool" where
  "answers i a a' =
     ((at_record_saved a' \<longrightarrow> at_record_saved a \<or> i = RecordSaved) \<and> (at_recheck_ok a' \<longrightarrow> at_recheck_ok a \<or> i = CoinsChecked [] []) \<and>
      (at_channel_saved a' \<longrightarrow> at_channel_saved a \<or> i = ChannelSaved))"

definition quiet :: "pool_input \<Rightarrow> attempt \<Rightarrow> attempt \<Rightarrow> bool" where
  "quiet i a a' =
     (same_config a a' \<and> at_me a' = at_me a \<and> at_phase a' = at_phase a \<and> at_built a' = at_built a \<and> at_keys a' = at_keys a \<and>
      at_msgs a' = at_msgs a \<and> at_my_view a' = at_my_view a \<and> at_my_nonces a' \<in> {at_my_nonces a, None} \<and> answers i a a' \<and>
      fst ` set (at_nonces a) \<subseteq> fst ` set (at_nonces a') \<and> (at_phase a \<noteq> PhInputs \<longrightarrow> at_regs a' = at_regs a) \<and>
      (at_phase a \<notin> {PhInputs, PhChannel, PhPayouts} \<longrightarrow> at_payouts a' = at_payouts a) \<and>
      (at_phase a \<noteq> PhFunding \<longrightarrow> at_record_saved a' = at_record_saved a \<and> at_recheck_ok a' = at_recheck_ok a))"

text \<open>The conditions of signing the exits: every nonce is in, and every view, which is this phone's.\<close>

definition may_sign :: "attempt \<Rightarrow> bool" where
  "may_sign a =
     (fst ` set (at_nonces a) = fst ` set (at_regs a) \<and> (\<not> at_public a \<longrightarrow> fst ` set (at_views a) = fst ` set (at_regs a)) \<and>
      (\<forall>(s, v)\<in>set (at_views a). at_my_view a = Some v))"

text \<open>One witness for each coin, in order, and every coin is an input of the funding.\<close>

definition signs_for :: "transaction \<Rightarrow> (outpoint \<times> txout \<times> bytes) list \<Rightarrow> witness_msg list \<Rightarrow> bool" where
  "signs_for tx coins ws =
     (map (\<lambda>w. (wm_txid w, wm_vout w)) ws = map (\<lambda>(op, _). (txid_text (fst op), snd op)) coins \<and>
      list_all (\<lambda>(op, _). op \<in> previous_output ` set (tx_input tx)) coins)"

inductive move :: "pool_env \<Rightarrow> pool_input \<Rightarrow> attempt \<Rightarrow> action list \<Rightarrow> attempt \<Rightarrow> bool" for S i a where
  quietly: "quiet i a a' \<Longrightarrow> set acts \<subseteq> range CheckCoins \<Longrightarrow> move S i a acts a'"
| stops: "at_phase a' = PhStopped \<Longrightarrow> at_my_nonces a' = None \<Longrightarrow> set acts \<subseteq> {post (AbortMsg ''stopped''), Stopped why named} \<Longrightarrow>
    Stopped why named \<in> set acts \<Longrightarrow> move S i a acts a'"
| opens: "at_phase a = PhInputs \<Longrightarrow> at_phase a' = PhChannel \<Longrightarrow> closed a' \<Longrightarrow> move S i a [OpenChannel (at_d a)] a'"
| pays_out: "at_phase a \<in> {PhInputs, PhChannel} \<Longrightarrow> at_phase a' = PhPayouts \<Longrightarrow> closed a' \<Longrightarrow> move S i a [PostPayout t] a'"
| views: "at_phase a = PhPayouts \<Longrightarrow> at_phase a' = PhView \<Longrightarrow> view_ok S a' \<Longrightarrow> fund = [] \<or> fund = [FundChannel t v] \<Longrightarrow>
    move S i a ([Post (ViewJson h), post (NoncesMsg 0 ns)] @ fund) a'"
| signs: "at_phase a = PhView \<Longrightarrow> at_phase a' = PhSigning \<Longrightarrow> at_my_nonces a \<noteq> None \<Longrightarrow> at_my_nonces a' = None \<Longrightarrow> view_ok S a' \<Longrightarrow>
    may_sign a' \<Longrightarrow> move S i a [post (PartialSigsMsg 0 sigs)] a'"
| records: "at_phase a = PhSigning \<Longrightarrow> at_phase a' = PhFunding \<Longrightarrow> funding_ok S a' \<Longrightarrow> at_built a' = Some built \<Longrightarrow>
    mp_payout (at_me a') = Some pay \<Longrightarrow> \<not> at_record_saved a' \<Longrightarrow> \<not> at_recheck_ok a' \<Longrightarrow>
    move S i a [SaveRecord (attempt_record_of a' built pay), CheckCoins (map (\<lambda>(op, out, _). (op, out)) (mp_coins (at_me a')))] a'"
| funds: "at_phase a = PhFunding \<Longrightarrow> at_phase a' = PhFundingSigned \<Longrightarrow> at_built a' = at_built a \<Longrightarrow> answers i a a' \<Longrightarrow>
    at_record_saved a' \<Longrightarrow> at_recheck_ok a' \<Longrightarrow> p_payout_type (at_params a) = P2wsh \<longrightarrow> at_channel_saved a' \<Longrightarrow>
    at_built a = Some built \<Longrightarrow> signs_for (pt_funding built) (mp_coins (at_me a)) ws \<Longrightarrow>
    move S i a [post (FundingSigsMsg ws), FundingSigned] a'"

text \<open>What a handler leads to.\<close>

definition leads :: "pool_env \<Rightarrow> pool_input \<Rightarrow> attempt \<Rightarrow> action list outcome \<times> attempt \<Rightarrow> bool" where
  "leads S i a ra =
     (case ra of
        (Ok acts, a') \<Rightarrow> attempt_ok S a' \<and> same_config a a' \<and> move S i a acts a'
      | (Err e, a') \<Rightarrow> base_ok a' \<and> same_config a a' \<and> ((\<exists>s json. i = MsgIn s json) \<longrightarrow> attempt_ok S a' \<and> quiet i a a')
      | (Abort, a') \<Rightarrow> False)"

section \<open>Handlers\<close>

lemma checked_build_cong:
  assumes "at_regs a' = at_regs a" and "at_payouts a' = at_payouts a" and "at_me a' = at_me a" and "same_config a a'"
  shows "checked_build S a' = checked_build S a" and "view_hash S built msgs a' = view_hash S built msgs a"
  using assms by (simp_all add: checked_build_def view_hash_def same_config_def sorted_ring_def)

lemma same_config_refl [simp]: "same_config a a"
  by (simp add: same_config_def)

lemma quiet_ok:
  assumes "attempt_ok S a" and "quiet i a a'" and "base_ok a'"
  shows "attempt_ok S a'"
proof -
  have q: "at_phase a' = at_phase a" "at_me a' = at_me a" "same_config a a'" "at_built a' = at_built a" "at_keys a' = at_keys a"
    "at_msgs a' = at_msgs a" "at_my_view a' = at_my_view a" "at_phase a \<noteq> PhInputs \<Longrightarrow> at_regs a' = at_regs a"
    "at_phase a \<notin> {PhInputs, PhChannel, PhPayouts} \<Longrightarrow> at_payouts a' = at_payouts a"
    "at_phase a \<noteq> PhFunding \<Longrightarrow> at_record_saved a' = at_record_saved a \<and> at_recheck_ok a' = at_recheck_ok a"
    "fst ` set (at_nonces a) \<subseteq> fst ` set (at_nonces a')"
    using assms(2) by (auto simp: quiet_def)
  have closed: "closed a'" if "closed a" "at_regs a' = at_regs a" using that q(3) by (simp add: closed_def same_config_def)
  note cong = checked_build_cong [OF _ _ q(2,3)]
  have view: "view_ok S a'" if "view_ok S a" "at_regs a' = at_regs a" "at_payouts a' = at_payouts a"
    using that(1) q(4-7) by (simp add: view_ok_def cong [OF that(2,3)])
  have funding: "funding_ok S a'" if "funding_ok S a" "at_regs a' = at_regs a" "at_payouts a' = at_payouts a"
    using that(1) q(4) by (simp add: funding_ok_def cong [OF that(2,3)])
  have "phase_ok S a" using assms(1) by (simp add: attempt_ok_def)
  hence "phase_ok S a'"
    by (cases "at_phase a") (use q(1,2,8-10) subset_trans [OF _ q(11)] closed view funding in \<open>simp_all add: phase_ok_def\<close>)
  thus ?thesis using assms(3) by (simp add: attempt_ok_def)
qed

lemma quiet_config: "quiet i a a' \<Longrightarrow> same_config a a'"
  by (simp add: quiet_def)

lemma leads_quiet:
  assumes "attempt_ok S a" and "quiet i a a'" and "base_ok a'" and "set acts \<subseteq> range CheckCoins"
  shows "leads S i a (Ok acts, a')"
  using quiet_ok [OF assms(1-3)] move.quietly [OF assms(2,4)] quiet_config [OF assms(2)] by (simp add: leads_def)

lemma leads_err:
  assumes "attempt_ok S a" and "quiet i a a'" and "base_ok a'"
  shows "leads S i a (Err e, a')"
  using quiet_ok [OF assms] quiet_config [OF assms(2)] assms(2,3) by (simp add: leads_def)

lemma quiet_refl [simp]: "quiet i a a"
  by (simp add: quiet_def answers_def)

lemma attempt_base: "attempt_ok S a \<Longrightarrow> base_ok a"
  by (simp add: attempt_ok_def)

lemma stopped_ok: "base_ok a \<Longrightarrow> attempt_ok S (snd (stop why named a))"
  by (simp add: attempt_ok_def phase_ok_def base_ok_def stop_def closed_def regs_ok_def maps_ok_def members_only_def)

lemma stop_moves:
  assumes "same_config a b"
  shows "move S i a (fst (stop why named b)) (snd (stop why named b))" and "same_config a (snd (stop why named b))"
proof -
  show "move S i a (fst (stop why named b)) (snd (stop why named b))"
    by (rule move.stops [where why = why and named = named]) (auto simp: stop_def)
  show "same_config a (snd (stop why named b))" using assms by (simp add: stop_def same_config_def)
qed

lemma leads_stopping: "base_ok b \<Longrightarrow> same_config a b \<Longrightarrow> leads S i a (stopping why named b)"
  using stopped_ok [of b S why named] stop_moves [of a b]
  by (simp add: leads_def stopping_def case_prod_unfold)

lemma leads_try:
  assumes "r \<noteq> Abort" and "\<And>e. r = Err e \<Longrightarrow> leads S i a (Err e, b)" and "\<And>x. r = Ok x \<Longrightarrow> leads S i a (f x)"
  shows "leads S i a (try_in b r f)"
  using assms by (cases r) (simp_all add: try_in_def)

lemma leads_need:
  assumes "\<And>e. \<not> c \<Longrightarrow> leads S i a (Err e, b)" and "c \<Longrightarrow> leads S i a ra"
  shows "leads S i a (need b c e ra)"
  using assms by (simp add: need_def)

text \<open>Updates that touch neither the configuration nor the registrations.\<close>

lemma base_ok_update [simp]:
  "base_ok (a\<lparr>at_aux_n := n\<rparr>) = base_ok a" "base_ok (a\<lparr>at_clock_phase := ph\<rparr>) = base_ok a" "base_ok (a\<lparr>at_deadline := n\<rparr>) = base_ok a"
  "base_ok (a\<lparr>at_record_saved := c\<rparr>) = base_ok a" "base_ok (a\<lparr>at_recheck_ok := c\<rparr>) = base_ok a" "base_ok (a\<lparr>at_channel_saved := c\<rparr>) = base_ok a"
  "base_ok (a\<lparr>at_phase := ph\<rparr>) = base_ok a" "base_ok (a\<lparr>at_my_nonces := ns\<rparr>) = base_ok a" "base_ok (a\<lparr>at_my_view := v\<rparr>) = base_ok a"
  "base_ok (a\<lparr>at_built := bt\<rparr>) = base_ok a" "base_ok (a\<lparr>at_keys := ks\<rparr>) = base_ok a" "base_ok (a\<lparr>at_msgs := ms\<rparr>) = base_ok a"
  "base_ok (a\<lparr>at_payouts := ps\<rparr>) = base_ok a" "base_ok (a\<lparr>at_images := im\<rparr>) = base_ok a"
  by (simp_all add: base_ok_def closed_def regs_ok_def maps_ok_def members_only_def)

lemma same_config_update [simp]:
  "same_config a (b\<lparr>at_aux_n := n\<rparr>) = same_config a b" "same_config a (b\<lparr>at_clock_phase := ph\<rparr>) = same_config a b"
  "same_config a (b\<lparr>at_deadline := n\<rparr>) = same_config a b" "same_config a (b\<lparr>at_record_saved := c\<rparr>) = same_config a b"
  "same_config a (b\<lparr>at_recheck_ok := c\<rparr>) = same_config a b" "same_config a (b\<lparr>at_channel_saved := c\<rparr>) = same_config a b"
  "same_config a (b\<lparr>at_phase := ph\<rparr>) = same_config a b" "same_config a (b\<lparr>at_my_nonces := ns\<rparr>) = same_config a b"
  "same_config a (b\<lparr>at_my_view := v\<rparr>) = same_config a b" "same_config a (b\<lparr>at_built := bt\<rparr>) = same_config a b"
  "same_config a (b\<lparr>at_keys := ks\<rparr>) = same_config a b" "same_config a (b\<lparr>at_msgs := ms\<rparr>) = same_config a b"
  "same_config a (b\<lparr>at_payouts := ps\<rparr>) = same_config a b" "same_config a (b\<lparr>at_images := im\<rparr>) = same_config a b"
  "same_config a (b\<lparr>at_regs := rs\<rparr>) = same_config a b" "same_config a (b\<lparr>at_coins_asked := c\<rparr>) = same_config a b"
  "same_config a (b\<lparr>at_views := vs\<rparr>) = same_config a b" "same_config a (b\<lparr>at_nonces := nn\<rparr>) = same_config a b"
  "same_config a (b\<lparr>at_psigs := sg\<rparr>) = same_config a b"
  by (simp_all add: same_config_def)

lemma next_aux_state: "next_aux S a = (h, b) \<Longrightarrow> \<exists>n. b = a\<lparr>at_aux_n := n\<rparr>"
  by (auto simp: next_aux_def Let_def)

lemma env_total_facts:
  assumes "env_total S"
  shows "curve_total (e_curve S)" "e_script_of S n s \<noteq> Abort" "e_address_of S n t \<noteq> Abort" "e_pool_script S keys i \<noteq> Abort"
    "e_verify_proof S t m pf \<noteq> Abort" "e_ring_sign S ring x m aux \<noteq> Abort" "e_ring_verify S ring m sig \<noteq> Abort"
    "i < length spent \<Longrightarrow> e_sign_input S tx i spent x aux \<noteq> Abort"
  using assms by (simp_all add: env_total_def)

subsection \<open>What was checked\<close>

lemma checked_build_facts:
  assumes "checked_build S a = Ok (keys, built, pay)"
  shows "pool_shape built" and "mp_payout (at_me a) = Some pay" and "my_payout_once (pt_exits built) pay (at_d a) = Ok ()"
    and "within_fee_limit_milli (at_rate_milli a) (mp_rate_at_join (at_me a)) u64_max"
    and "\<exists>r. rederive (e_sha S) (e_pool_script S) (at_id a) (at_d a) (at_rate_milli a) (map member_of (all_regs a)) (at_payouts a) (mp_tip (at_me a)) = Ok r \<and>
      scripts_apart r (map member_of (all_regs a)) (map fst (at_payouts a)) = Ok () \<and> same_as_rederived built r = Ok ()"
    and "\<exists>r\<in>set (all_regs a). ir_session r = my_session a \<and> mine_in_funding (pt_funding built) (member_of r) = Ok ()"
proof -
  let ?regs = "all_regs a" and ?members = "map member_of (all_regs a)"
  from assms obtain r reg where
    facts: "within_fee_limit_milli (at_rate_milli a) (mp_rate_at_join (at_me a)) u64_max"
    "rederive (e_sha S) (e_pool_script S) (at_id a) (at_d a) (at_rate_milli a) ?members (at_payouts a) (mp_tip (at_me a)) = Ok r"
    "scripts_apart r ?members (map fst (at_payouts a)) = Ok ()"
    "build (e_sha S) (at_params a) ?regs (map (payout_of (at_d a)) (at_payouts a)) (script_pubkey (e_curve S) keys) = Ok built"
    "same_as_rederived built r = Ok ()" "mp_payout (at_me a) = Some pay" "my_payout_once (pt_exits built) pay (at_d a) = Ok ()"
    "List.find (\<lambda>(m, r). ir_session r = my_session a) (zip ?members ?regs) = Some reg" "mine_in_funding (pt_funding built) (fst reg) = Ok ()"
    by (auto simp: checked_build_def Let_def and_then_Ok some_or_Ok)
  from facts(8) have "reg \<in> set (zip ?members ?regs)" "ir_session (snd reg) = my_session a" by (auto dest!: find_SomeD simp: case_prod_unfold)
  moreover from this(1) have "fst reg = member_of (snd reg)" "snd reg \<in> set ?regs" by (auto simp: set_zip)
  ultimately show "\<exists>r\<in>set ?regs. ir_session r = my_session a \<and> mine_in_funding (pt_funding built) (member_of r) = Ok ()" using facts(9) by metis
  show "pool_shape built" by (rule build_shape [OF facts(4)])
  show "mp_payout (at_me a) = Some pay" "my_payout_once (pt_exits built) pay (at_d a) = Ok ()"
    "within_fee_limit_milli (at_rate_milli a) (mp_rate_at_join (at_me a)) u64_max" by fact+
  show "\<exists>r. rederive (e_sha S) (e_pool_script S) (at_id a) (at_d a) (at_rate_milli a) ?members (at_payouts a) (mp_tip (at_me a)) = Ok r \<and>
      scripts_apart r ?members (map fst (at_payouts a)) = Ok () \<and> same_as_rederived built r = Ok ()" using facts by blast
qed

lemma checked_build_returns:
  assumes "env_total S" and "base_ok a"
  shows "checked_build S a \<noteq> Abort"
proof -
  have "build (e_sha S) (at_params a) (all_regs a) (map (payout_of (at_d a)) (at_payouts a)) (script_pubkey (e_curve S) keys) \<noteq> Abort" for keys
    by (rule build_returns) (use assms keys_return(3) [OF env_total_facts(1)] in \<open>auto simp: base_ok_def\<close>)
  moreover have "rederive (e_sha S) (e_pool_script S) (at_id a) (at_d a) (at_rate_milli a) (map member_of (all_regs a)) (at_payouts a) (mp_tip (at_me a)) \<noteq> Abort"
    by (rule rederive_returns) (rule env_total_facts(4) [OF assms(1)])
  moreover have "scripts_apart r ms ps \<noteq> Abort" for r ms ps
    unfolding scripts_apart_def Let_def returns by (intro conjI allI impI fold_ok_returns') (simp_all add: returns)
  moreover have "mine_in_funding tx mb \<noteq> Abort" for tx mb
    unfolding mine_in_funding_def returns
    by (intro conjI allI impI collect_ok_returns) (simp_all add: returns split: prod.splits option.splits)
  ultimately show ?thesis using keys_return(1) [OF env_total_facts(1) [OF assms(1)]]
    by (simp add: checked_build_def returns Let_def same_as_rederived_def my_payout_once_def)
qed

subsection \<open>The funding signature and time\<close>

lemma sign_coins_frame:
  assumes "env_total S" and "length spent = length (tx_input tx)"
  shows "\<exists>r n. sign_coins S tx spent coins a = (r, a\<lparr>at_aux_n := n\<rparr>) \<and> r \<noteq> Abort \<and> (\<forall>ws. r = Ok ws \<longrightarrow> signs_for tx coins ws)"
proof (induction coins arbitrary: a)
  case Nil
  show ?case by (rule exI [of _ "Ok []"], rule exI [of _ "at_aux_n a"]) (simp add: signs_for_def)
next
  case (Cons c coins)
  obtain op out sk where c: "c = (op, out, sk)" by (cases c)
  obtain h k where aux: "next_aux S a = (h, a\<lparr>at_aux_n := k\<rparr>)" using next_aux_state [of S a] by (metis surj_pair)
  show ?case
  proof (cases "position (\<lambda>i. previous_output i = op) (tx_input tx)")
    case None
    thus ?thesis
      by (intro exI [of _ "Err ''my input is not in the funding''"] exI [of _ "at_aux_n a"]) (simp add: c try_in_def some_or_def)
  next
    case (Some idx)
    hence idx: "idx < length spent" "op \<in> previous_output ` set (tx_input tx)" using assms(2) position_Some [OF Some] by (auto intro!: image_eqI [OF _ nth_mem])
    have sig: "e_sign_input S tx idx spent sk h \<noteq> Abort" by (rule env_total_facts(8) [OF assms(1) idx(1)])
    from Cons [of "a\<lparr>at_aux_n := k\<rparr>"] obtain r n where rest: "sign_coins S tx spent coins (a\<lparr>at_aux_n := k\<rparr>) = (r, a\<lparr>at_aux_n := n\<rparr>)" "r \<noteq> Abort"
      "\<forall>ws. r = Ok ws \<longrightarrow> signs_for tx coins ws" by auto
    show ?thesis
    proof (cases "e_sign_input S tx idx spent sk h")
      case (Ok w)
      thus ?thesis using rest Some aux
        by (cases r) (auto simp: c try_in_def some_or_def signs_for_def idx(2))
    next
      case (Err e)
      thus ?thesis using Some aux by (intro exI [of _ "Err e"] exI [of _ k]) (simp add: c try_in_def some_or_def)
    qed (use sig in simp)
  qed
qed

lemma leads_try_fund:
  assumes "env_total S" and ok: "attempt_ok S a" and phase: "at_phase a = PhFunding" and quiet: "quiet i a b" and base: "base_ok b"
  shows "leads S i a (try_fund S b)"
proof (cases "at_record_saved b \<and> at_recheck_ok b \<and> (p_payout_type (at_params b) = P2tr \<or> at_channel_saved b)")
  case False
  thus ?thesis using leads_quiet [OF ok quiet base, of "[]"] by (auto simp: try_fund_def Let_def)
next
  case True
  have okb: "attempt_ok S b" by (rule quiet_ok [OF ok quiet base])
  have phb: "at_phase b = PhFunding" using quiet phase by (simp add: quiet_def)
  from okb phb have fund: "funding_ok S b" by (simp add: attempt_ok_def phase_ok_def)
  then obtain keys built0 pay sigs where built: "checked_build S b = Ok (keys, built0, pay)"
    "at_built b = Some (built0\<lparr>pt_exits := map attach_witness (zip (pt_exits built0) sigs)\<rparr>)" by (auto simp: funding_ok_def)
  have "length (pt_funding_prevouts built0) = length (tx_input (pt_funding built0))"
    using checked_build_facts(1) [OF built(1)] by (simp add: pool_shape_def)
  from sign_coins_frame [OF assms(1) this, of "mp_coins (at_me b)" b] obtain r n where
    sign: "sign_coins S (pt_funding built0) (pt_funding_prevouts built0) (mp_coins (at_me b)) b = (r, b\<lparr>at_aux_n := n\<rparr>)" "r \<noteq> Abort"
      "\<forall>ws. r = Ok ws \<longrightarrow> signs_for (pt_funding built0) (mp_coins (at_me b)) ws" by blast
  have qn: "quiet i a (b\<lparr>at_aux_n := n\<rparr>)" using quiet by (simp add: quiet_def answers_def)
  show ?thesis
  proof (cases r)
    case (Err e)
    have "leads S i a (Err e, b\<lparr>at_aux_n := n\<rparr>)" by (rule leads_err [OF ok qn]) (simp add: base)
    thus ?thesis using True built(2) sign(1) Err by (simp add: try_fund_def Let_def try_in_def some_or_def)
  next
    case (Ok ws)
    let ?b = "b\<lparr>at_aux_n := n, at_phase := PhFundingSigned\<rparr>"
    have "funding_ok S ?b" using fund by (simp add: funding_ok_def checked_build_cong [of ?b b S])
    hence "attempt_ok S ?b" using okb phb base by (auto simp: attempt_ok_def phase_ok_def closed_def)
    moreover have "move S i a [post (FundingSigsMsg ws), FundingSigned] ?b"
      by (rule move.funds [where built = "built0\<lparr>pt_exits := map attach_witness (zip (pt_exits built0) sigs)\<rparr>"])
        (use quiet phase True built(2) sign(3) Ok in \<open>auto simp: quiet_def answers_def same_config_def\<close>)
    moreover have "same_config a ?b" using quiet_config [OF quiet] by simp
    ultimately show ?thesis using True built(2) sign(1) Ok by (simp add: try_fund_def Let_def try_in_def some_or_def leads_def)
  qed (use sign(2) in simp)
qed

lemma leads_tick:
  assumes "attempt_ok S a"
  shows "leads S (Tick now) a (on_tick now a)"
proof (cases "at_clock_phase a = at_phase a \<and> at_deadline a < now")
  case True
  thus ?thesis using leads_stopping [OF attempt_base [OF assms] same_config_refl] by (simp add: on_tick_def)
next
  case False
  have "leads S (Tick now) a (Ok [], a\<lparr>at_clock_phase := at_phase a, at_deadline := wrap_add64 now (at_phase_s a)\<rparr>)"
    by (rule leads_quiet [OF assms]) (use attempt_base [OF assms] in \<open>simp_all add: quiet_def answers_def\<close>)
  moreover have "leads S (Tick now) a (Ok [], a)" by (rule leads_quiet [OF assms]) (use attempt_base [OF assms] in simp_all)
  ultimately show ?thesis using False by (auto simp: on_tick_def)
qed

subsection \<open>Registration and payouts\<close>

lemma leads_err_answer: "base_ok b \<Longrightarrow> same_config a b \<Longrightarrow> (\<And>s json. i \<noteq> MsgIn s json) \<Longrightarrow> leads S i a (Err e, b)"
  by (simp add: leads_def)

lemma leads_register_payout:
  assumes env: "env_total S" and phase: "at_phase a \<in> {PhInputs, PhChannel}" and base: "base_ok b" and config: "same_config a b"
    and closed: "closed b" and flags: "\<not> at_record_saved b" "\<not> at_recheck_ok b" and i: "\<And>s json. i \<noteq> MsgIn s json"
  shows "leads S i a (register_payout S b)"
proof -
  obtain h n where aux: "next_aux S b = (h, b\<lparr>at_aux_n := n\<rparr>)" using next_aux_state [of S b] by (metis surj_pair)
  let ?b = "b\<lparr>at_aux_n := n\<rparr>"
  have err: "leads S i a (Err e, b)" "leads S i a (Err e, ?b)" for e using leads_err_answer [OF _ _ i] base config by simp_all
  have posted: "leads S i a (Ok [PostPayout t], ?b\<lparr>at_phase := PhPayouts\<rparr>)" if "mp_payout (at_me b) \<noteq> None" for t
  proof -
    have "move S i a [PostPayout t] (?b\<lparr>at_phase := PhPayouts\<rparr>)"
      by (rule move.pays_out) (use phase closed in \<open>simp_all add: closed_def\<close>)
    thus ?thesis using base config closed flags that by (simp add: leads_def attempt_ok_def phase_ok_def closed_def)
  qed
  show ?thesis unfolding register_payout_def Let_def aux prod.case
    by (intro leads_try err posted) (use env_total_facts(3,6) [OF env] in \<open>auto simp: some_or_def split: option.splits\<close>)
qed

lemma leads_coins:
  assumes env: "env_total S" and ok: "attempt_ok S a"
  shows "leads S (CoinsChecked bad unanswered) a (on_coins S bad unanswered a)"
proof -
  define i where "i = CoinsChecked bad unanswered"
  note base = attempt_base [OF ok]
  have quiet: "leads S i a (Ok [], a)" by (rule leads_quiet [OF ok]) (use base in simp_all)
  have err: "leads S i a (Err e, a)" for e by (rule leads_err [OF ok]) (use base in simp_all)
  have stop: "leads S i a (stopping why named a)" for why named by (rule leads_stopping [OF base]) simp
  consider (funding) "at_phase a = PhFunding" | (ignored) "at_phase a \<noteq> PhFunding" "at_phase a \<noteq> PhInputs \<or> \<not> at_coins_asked a"
    | (asked) "at_phase a = PhInputs" "at_coins_asked a" by blast
  hence "leads S i a (on_coins S bad unanswered a)"
  proof cases
    case funding
    have "leads S i a (try_fund S (a\<lparr>at_recheck_ok := True\<rparr>))" if "bad = []" "unanswered = []"
      by (rule leads_try_fund [OF env ok funding]) (use that base funding in \<open>simp_all add: quiet_def answers_def i_def\<close>)
    hence "leads S i a (need a (unanswered = []) ''my coin could not be re-checked: no provider answered'' (
        need a (bad = []) ''one of my coins is no longer spendable'' (try_fund S (a\<lparr>at_recheck_ok := True\<rparr>))))"
      by (intro leads_need err)
    thus ?thesis using funding by (simp add: on_coins_def)
  next
    case ignored
    thus ?thesis using quiet by (auto simp: on_coins_def)
  next
    case asked
    have closed: "closed a" using base asked(2) by (simp add: base_ok_def)
    have flags: "\<not> at_record_saved a" "\<not> at_recheck_ok a" using ok asked(1) by (auto simp: attempt_ok_def phase_ok_def)
    have "leads S i a (register_payout S a)"
      by (rule leads_register_payout [OF env _ base same_config_refl closed flags]) (use asked in \<open>simp_all add: i_def\<close>)
    moreover have "leads S i a (Ok [OpenChannel (at_d a)], a\<lparr>at_phase := PhChannel\<rparr>)"
    proof -
      have "move S i a [OpenChannel (at_d a)] (a\<lparr>at_phase := PhChannel\<rparr>)"
        by (rule move.opens) (use asked closed in \<open>simp_all add: closed_def\<close>)
      thus ?thesis using base closed flags by (simp add: leads_def attempt_ok_def phase_ok_def closed_def)
    qed
    ultimately show ?thesis using asked stop by (simp add: on_coins_def)
  qed
  thus ?thesis by (simp add: i_def)
qed

lemma input_of_msg_returns: "env_total S \<Longrightarrow> input_of_msg S pid s m \<noteq> Abort"
  by (simp add: input_of_msg_def returns env_total_facts txid_from_str_def strict_hex_range_def strict_hex_def Let_def)

lemma point_returns: "point_from_hex valid h \<noteq> Abort"
  by (simp add: point_from_hex_def returns strict_hex_def)

text \<open>One more registration.\<close>

lemma new_registration:
  assumes ok: "attempt_ok S a" and phase: "at_phase a = PhInputs" and new: "map_of (at_regs a) s = None"
    and room: "length (at_regs a) < p_peers (at_params a)" and b: "b = a\<lparr>at_regs := insort_key fst (s, reg, json) (at_regs a)\<rparr>"
    and reg: "ir_session reg = s"
  shows "base_ok b" and "quiet i a b" and "length (at_regs b) = length (at_regs a) + 1" and "\<not> at_coins_asked b"
proof -
  have base: "base_ok a" by (rule attempt_base [OF ok])
  have asked: "\<not> at_coins_asked a" using base room by (auto simp: base_ok_def closed_def)
  have set: "set (at_regs b) = insert (s, reg, json) (set (at_regs a))" by (simp add: b set_insort_key)
  have mset: "mset (map fst (at_regs b)) = mset (s # map fst (at_regs a))" by (simp add: b)
  have "s \<notin> fst ` set (at_regs a)" using new by (simp add: map_of_eq_None_iff)
  hence "distinct (map fst (at_regs b))" using base mset_eq_imp_distinct_iff [OF mset] by (simp add: base_ok_def regs_ok_def)
  hence "regs_ok b" using base room reg set by (simp add: base_ok_def regs_ok_def list_all_iff b)
  moreover have "maps_ok b" using base set by (auto simp: base_ok_def maps_ok_def members_only_def b)
  ultimately show "base_ok b" using base asked by (simp add: base_ok_def b)
  show "quiet i a b" "length (at_regs b) = length (at_regs a) + 1" "\<not> at_coins_asked b"
    using phase asked by (simp_all add: b quiet_def answers_def)
qed

lemma leads_inputs:
  assumes env: "env_total S" and ok: "attempt_ok S a"
  shows "leads S i a (on_inputs S s musig ring inputs change height denomination json a)"
proof -
  note base = attempt_base [OF ok]
  have quiet: "leads S i a (Ok [], a)" by (rule leads_quiet [OF ok]) (use base in simp_all)
  have err: "leads S i a (Err e, a)" for e by (rule leads_err [OF ok]) (use base in simp_all)
  have stop: "leads S i a (stopping why named a)" for why named by (rule leads_stopping [OF base]) simp
  show ?thesis
  proof (cases "map_of (at_regs a) s = None \<and> at_phase a = PhInputs \<and> length (at_regs a) < p_peers (at_params a)")
    case False
    thus ?thesis using quiet err by (auto simp: on_inputs_def need_def split: option.splits)
  next
    case True
    have closed: "leads S i a (if length (at_regs b) < p_peers (at_params b) then (Ok [], b) else registration_closed b)"
      if b: "b = a\<lparr>at_regs := insort_key fst (s, reg, json) (at_regs a)\<rparr>" and "ir_session reg = s" for b reg
    proof -
      have room: "at_phase a = PhInputs" "map_of (at_regs a) s = None" "length (at_regs a) < p_peers (at_params a)" using True by auto
      note new = new_registration [OF ok room b that(2)]
      have config: "same_config a b" by (rule quiet_config [OF new(2)])
      have p: "at_params b = at_params a" by (simp add: b)
      have valid: "validate (at_params b) = Ok ()" using base by (simp add: p base_ok_def phase1_params_def)
      have b_err: "leads S i a (Err e, b)" for e by (rule leads_err [OF ok]) (use new in simp_all)
      have "leads S i a (Ok [], b)" by (rule leads_quiet [OF ok]) (use new in simp_all)
      moreover have "leads S i a (stopping why named b)" for why named by (rule leads_stopping) (use new config in simp_all)
      moreover have "leads S i a (Ok [CheckCoins cs], b\<lparr>at_coins_asked := True\<rparr>)"
        if "\<not> length (at_regs b) < p_peers (at_params b)" "registered b (my_session b)" for cs
      proof (rule leads_quiet [OF ok])
        show "quiet i a (b\<lparr>at_coins_asked := True\<rparr>)" using new(2) by (simp add: quiet_def answers_def)
        show "base_ok (b\<lparr>at_coins_asked := True\<rparr>)"
          using new that room p by (simp add: base_ok_def closed_def regs_ok_def maps_ok_def members_only_def)
      qed simp
      ultimately show ?thesis using check_registrations_returns [OF valid] b_err
        by (auto simp: registration_closed_def intro!: leads_try)
    qed
    have one: "leads S i a (Ok [], a\<lparr>at_regs := insort_key fst (s, reg, json) (at_regs a)\<rparr>)"
      if "Suc (length (at_regs a)) < p_peers (at_params a)" "ir_session reg = s" for reg using closed [OF refl that(2)] that(1) by simp
    have all: "leads S i a (registration_closed (a\<lparr>at_regs := insort_key fst (s, reg, json) (at_regs a)\<rparr>))"
      if "\<not> Suc (length (at_regs a)) < p_peers (at_params a)" "ir_session reg = s" for reg using closed [OF refl that(2)] that(1) by simp
    have "collect_ok (input_of_msg S (at_id a) s) inputs \<noteq> Abort" by (rule collect_ok_returns) (rule input_of_msg_returns [OF env])
    moreover have "registration_inputs n \<noteq> Abort" for n by (simp add: registration_inputs_def returns)
    moreover have "(case change of Some c \<Rightarrow> and_then (e_script_of S (at_network a) (cm_address c)) (\<lambda>spk. Ok (Some \<lparr>to_value = cm_amount c, to_script = spk\<rparr>))
        | None \<Rightarrow> Ok None) \<noteq> Abort" using env_total_facts(2) [OF env] by (simp add: returns split: option.splits)
    ultimately show ?thesis using True unfolding on_inputs_def Let_def
      by (auto intro!: leads_need leads_try err stop one all simp: point_returns)
  qed
qed

subsection \<open>Building and signing\<close>

lemma leads_build:
  assumes env: "env_total S" and ok: "attempt_ok S a" and phase: "at_phase a = PhPayouts" and quiet: "quiet i a b" and base: "base_ok b"
  shows "leads S i a (build_and_check S b)"
proof -
  have okb: "attempt_ok S b" by (rule quiet_ok [OF ok quiet base])
  have phb: "at_phase b = PhPayouts" using quiet phase by (simp add: quiet_def)
  have flags: "closed b" "\<not> at_record_saved b" "\<not> at_recheck_ok b" using okb phb by (auto simp: attempt_ok_def phase_ok_def)
  obtain h n where aux: "next_aux S b = (h, b\<lparr>at_aux_n := n\<rparr>)" using next_aux_state [of S b] by (metis surj_pair)
  have err: "leads S i a (Err e, b)" for e by (rule leads_err [OF ok quiet base])
  have errn: "leads S i a (Err e, b\<lparr>at_aux_n := n\<rparr>)" for e
    by (rule leads_err [OF ok]) (use quiet base in \<open>simp_all add: quiet_def answers_def\<close>)
  have view: "leads S i a (Ok ([Post (ViewJson v), post (NoncesMsg 0 ns)] @ fund), c)"
    if checked: "checked_build S b = Ok (keys, built, pay)" and msgs: "exit_messages (e_sha S) (e_curve S) keys built = Ok msgs"
      and c: "c = b\<lparr>at_aux_n := n, at_my_nonces := Some secs, at_my_view := Some (view_hash S built msgs b), at_built := Some built,
        at_keys := Some keys, at_msgs := Some msgs, at_phase := PhView\<rparr>" and "fund = [] \<or> fund = [FundChannel t k]"
    for v ns fund keys built pay msgs secs t k c
  proof -
    have "view_ok S c" using checked msgs checked_build_cong [of c b S] by (simp add: view_ok_def c)
    hence "move S i a ([Post (ViewJson v), post (NoncesMsg 0 ns)] @ fund) c"
      by (intro move.views) (use phase that(4) in \<open>auto simp: c\<close>)
    moreover have "attempt_ok S c" using \<open>view_ok S c\<close> base flags checked_build_facts(2) [OF checked]
      by (auto simp: attempt_ok_def phase_ok_def closed_def c)
    ultimately show ?thesis using quiet_config [OF quiet] by (simp add: leads_def c)
  qed
  have messages: "exit_messages (e_sha S) (e_curve S) keys built \<noteq> Abort" if "checked_build S b = Ok (keys, built, pay)" for keys built pay
    by (rule exit_messages_return(1) [OF env_total_facts(1) [OF env] checked_build_facts(1) [OF that]])
  show ?thesis unfolding build_and_check_def
  proof (rule leads_try)
    fix x assume x: "checked_build S b = Ok x"
    obtain keys built pay where kbp: "x = (keys, built, pay)" by (cases x)
    note checked = x [unfolded kbp]
    show "leads S i a (case x of (keys, built, my_payout) \<Rightarrow> try_in b (if p_payout_type (at_params b) = P2wsh
        then some_or ''no exit pays my channel exactly the pool size'' (channel_output S my_payout (at_d b) (pt_exits built)) (\<lambda>(t, v). Ok [FundChannel t v])
        else Ok []) (\<lambda>fund_channel. try_in b (exit_messages (e_sha S) (e_curve S) keys built) (\<lambda>msgs.
          let view = view_hash S built msgs b; (aux, b) = next_aux S b
          in try_in b (make_nonces (e_sha S) (e_curve S) (mp_musig (at_me b)) keys msgs (at_id b) aux) (\<lambda>(secs, pubs).
            (Ok ([Post (ViewJson (hex_encode (hash_bytes view))), post (NoncesMsg 0 (map hex_encode pubs))] @ fund_channel),
             b\<lparr>at_my_nonces := Some secs, at_my_view := Some view, at_built := Some built, at_keys := Some keys, at_msgs := Some msgs,
               at_phase := PhView\<rparr>)))))"
      unfolding kbp prod.case Let_def aux
      by (intro leads_try err errn messages [OF checked] signing_returns(1) [OF env_total_facts(1) [OF env]])
        (auto simp: returns some_or_Ok split: if_splits prod.splits
          intro!: view [OF checked, where fund = "[]", simplified] view [OF checked, where fund = "[FundChannel _ _]", simplified])
  qed (use err checked_build_returns [OF env base] in auto)
qed

lemma leads_output:
  assumes env: "env_total S" and ok: "attempt_ok S a"
  shows "leads S i a (on_output S address sig priority denomination json a)"
proof -
  note base = attempt_base [OF ok]
  have same: "leads S i a (Ok [], a)" "leads S i a (Err e, a)" for e
    using leads_quiet [OF ok quiet_refl base] leads_err [OF ok quiet_refl base] by simp_all
  have stop: "leads S i a (stopping why named a)" for why named by (rule leads_stopping [OF base]) simp
  let ?b = "\<lambda>im ps. a\<lparr>at_images := im, at_payouts := ps\<rparr>"
  have quiet: "quiet i a (?b im ps)" "base_ok (?b im ps)" if "at_phase a = PhPayouts \<or> at_phase a = PhInputs \<or> at_phase a = PhChannel" for im ps
    using that base by (auto simp: quiet_def answers_def)
  have more: "leads S i a (Ok [], ?b im ps)" "leads S i a (Err e, ?b im ps)"
    if "at_phase a = PhPayouts \<or> at_phase a = PhInputs \<or> at_phase a = PhChannel" for im ps e
    using leads_quiet [OF ok quiet [OF that], of "[]"] leads_err [OF ok quiet [OF that]] by simp_all
  have build: "leads S i a (build_and_check S (?b im ps))" if "at_phase a = PhPayouts" for im ps
    by (rule leads_build [OF env ok that]) (use quiet that in simp_all)
  show ?thesis
  proof (cases "at_phase a = PhPayouts \<or> at_phase a = PhInputs \<or> at_phase a = PhChannel")
    case True
    note more = more [OF True]
    have "leads S i a (case map_of (at_images a) image of
          Some (_, seen) \<Rightarrow> if seen = json then (Ok [], a) else stopping ''two payouts under one key image'' [] a
        | None \<Rightarrow>
            need a (\<not> list_ex (\<lambda>(s, _). s = spk) (at_payouts a)) ''a payout address registered twice'' (
            let a = a\<lparr>at_images := (image, spk, json) # at_images a, at_payouts := at_payouts a @ [(spk, 0)]\<rparr>
            in if length (at_payouts a) < p_peers (at_params a) then (Ok [], a)
               else need a (at_phase a = PhPayouts) ''every payout is in, but ours is not registered yet'' (
                    build_and_check S a)))" for image spk
      using same stop more build by (auto simp: Let_def need_def split: option.splits)
    thus ?thesis using same env_total_facts(2,7) [OF env] unfolding on_output_def
      by (auto intro!: leads_need leads_try)
  qed (use same in \<open>auto simp: on_output_def\<close>)
qed

text \<open>A map of members that has as many entries as there are members has every member.\<close>

lemma members_full:
  assumes "members_only a m" and "regs_ok a" and "p_peers (at_params a) \<le> length m"
  shows "fst ` set m = fst ` set (at_regs a)"
proof (rule card_subset_eq)
  have "card (fst ` set m) = length m" "card (fst ` set (at_regs a)) = length (at_regs a)"
    using assms(1,2) distinct_card [of "map fst m"] distinct_card [of "map fst (at_regs a)"]
    by (simp_all add: members_only_def regs_ok_def)
  moreover have "card (fst ` set m) \<le> card (fst ` set (at_regs a))" using assms(1) by (intro card_mono) (simp_all add: members_only_def)
  ultimately show "card (fst ` set m) = card (fst ` set (at_regs a))" using assms(2,3) by (simp add: regs_ok_def)
qed (use assms(1) in \<open>simp_all add: members_only_def\<close>)

lemma at_key_returns: "s \<in> fst ` set m \<Longrightarrow> at_key m s \<noteq> Abort"
  using map_of_eq_None_iff [of m s] by (auto simp: at_key_def split: option.splits)

lemma some_or_returns [simp]: "some_or e x Ok \<noteq> Abort" "some_or e x Ok = Abort \<longleftrightarrow> False"
  by (simp_all add: some_or_def split: option.splits)

lemma leads_sign:
  assumes env: "env_total S" and ok: "attempt_ok S a" and quiet: "quiet i a b" and base: "base_ok b"
  shows "leads S i a (try_sign S b)"
proof -
  let ?c = "b\<lparr>at_my_nonces := None\<rparr>"
  have qc: "quiet i a ?c" using quiet by (simp add: quiet_def answers_def)
  have okb: "attempt_ok S b" by (rule quiet_ok [OF ok quiet base])
  have same: "leads S i a (Ok [], b)" "leads S i a (Err e, b)" "leads S i a (Err e, ?c)" for e
    using leads_quiet [OF ok quiet base, of "[]"] leads_err [OF ok quiet base] leads_err [OF ok qc] base by simp_all
  have stop: "leads S i a (stopping why named b)" for why named by (rule leads_stopping [OF base quiet_config [OF quiet]])
  have maps: "regs_ok b" "members_only b (at_nonces b)" "members_only b (at_views b)" using base by (simp_all add: base_ok_def maps_ok_def)
  have signed: "leads S i a (Ok [post (PartialSigsMsg 0 sigs)], ?c\<lparr>at_phase := PhSigning\<rparr>)"
    if phase: "at_phase b = PhView" and views: "at_public b \<or> p_peers (at_params b) \<le> length (at_views b)"
      and full: "p_peers (at_params b) \<le> length (at_nonces b)" and mine: "at_my_view b = Some mine"
      and all: "\<not> list_ex (\<lambda>(_, v). v \<noteq> mine) (at_views b)" and nonces: "at_my_nonces b = Some secs" for sigs mine secs
  proof -
    let ?d = "?c\<lparr>at_phase := PhSigning\<rparr>"
    have okd: "closed b" "view_ok S b" "\<not> at_record_saved b" "\<not> at_recheck_ok b" "mp_payout (at_me b) \<noteq> None"
      using okb phase by (auto simp: attempt_ok_def phase_ok_def)
    have "view_ok S ?d" using okd(2) checked_build_cong [of ?d b S] by (simp add: view_ok_def)
    moreover have "may_sign ?d"
      using members_full [OF maps(2,1) full] members_full [OF maps(3,1)] views mine all by (auto simp: may_sign_def list_ex_iff)
    moreover have "at_phase a = PhView" using quiet phase by (simp add: quiet_def)
    moreover have "at_my_nonces b \<in> {at_my_nonces a, None}" using quiet by (simp add: quiet_def)
    hence "at_my_nonces a \<noteq> None" using nonces by (metis empty_iff insert_iff option.distinct(1))
    ultimately have "move S i a [post (PartialSigsMsg 0 sigs)] ?d" by (intro move.signs) simp_all
    moreover have "attempt_ok S ?d" using \<open>view_ok S ?d\<close> okd base members_full [OF maps(2,1) full]
      by (auto simp: attempt_ok_def phase_ok_def closed_def)
    ultimately show ?thesis using quiet_config [OF quiet] by (simp add: leads_def)
  qed
  have order: "collect_ok (\<lambda>s. and_then (at_key (at_nonces b) s) (\<lambda>(ns, _). Ok ns)) (signer_order b) \<noteq> Abort"
    if "p_peers (at_params b) \<le> length (at_nonces b)"
    by (rule collect_ok_returns) (use members_full [OF maps(2,1) that] in \<open>auto simp: returns signer_order_def intro!: at_key_returns\<close>)
  have sig: "partial_sign (e_curve S) sk keys msgs secs order \<noteq> Abort" for sk keys msgs secs order
    by (rule signing_returns(2) [OF env_total_facts(1) [OF env]])
  show ?thesis
  proof (cases "at_phase b \<noteq> PhView \<or> (\<not> at_public b \<and> length (at_views b) < p_peers (at_params b)) \<or> length (at_nonces b) < p_peers (at_params b)")
    case True
    thus ?thesis using same(1) by (auto simp: try_sign_def Let_def)
  next
    case False
    have "leads S i a (if list_ex (\<lambda>(_, v). v \<noteq> mine) (at_views b) then stopping ''the members do not see the same pool'' [] b
        else try_in b (some_or ''my nonces were used'' (at_my_nonces b) Ok) (\<lambda>secs.
          try_in ?c (collect_ok (\<lambda>s. and_then (at_key (at_nonces b) s) (\<lambda>(ns, _). Ok ns)) (signer_order b)) (\<lambda>order.
          try_in ?c (some_or ''keys'' (at_keys b) Ok) (\<lambda>keys. try_in ?c (some_or ''msgs'' (at_msgs b) Ok) (\<lambda>msgs.
          try_in ?c (partial_sign (e_curve S) (mp_musig (at_me b)) keys msgs secs order) (\<lambda>psigs.
             (Ok [post (PartialSigsMsg 0 (map hex_encode psigs))], ?c\<lparr>at_phase := PhSigning\<rparr>)))))))" if "at_my_view b = Some mine" for mine
      using False that order by (auto intro!: stop leads_try same sig signed simp: returns some_or_Ok)
    thus ?thesis unfolding try_sign_def Let_def if_not_P [OF False]
      by (intro leads_try same) (simp_all add: some_or_Ok signer_order_def cong: if_cong split del: if_split)
  qed
qed

lemma aggregate_valid:
  assumes "aggregate K keys msgs signers = Ok sigs"
  shows "list_all2 (\<lambda>m sig. k_schnorr_ok K sig (xm_msg m) (xm_output_key m)) msgs sigs"
proof -
  from assms have "list_all2 (\<lambda>x sig. aggregate_exit K keys signers x = Ok sig) (enumerate 0 msgs) sigs"
    by (auto simp: aggregate_def and_then_Ok collect_ok_Ok)
  hence "list_all2 (\<lambda>x sig. k_schnorr_ok K sig (xm_msg (snd x)) (xm_output_key (snd x))) (enumerate 0 msgs) sigs"
    by (rule list_all2_mono) (auto simp: aggregate_exit_def and_then_Ok Let_def)
  hence "list_all2 (\<lambda>m sig. k_schnorr_ok K sig (xm_msg m) (xm_output_key m)) (map snd (enumerate 0 msgs)) sigs"
    by (simp add: list_all2_map1 del: map_snd_enumerate)
  thus ?thesis by simp
qed

subsection \<open>Messages of the members\<close>

lemma base_ok_extend:
  assumes "base_ok a" and "registered a s"
  shows "map_of (at_views a) s = None \<Longrightarrow> base_ok (a\<lparr>at_views := (s, v) # at_views a\<rparr>)"
    and "map_of (at_nonces a) s = None \<Longrightarrow> base_ok (a\<lparr>at_nonces := (s, n) # at_nonces a\<rparr>)"
    and "map_of (at_psigs a) s = None \<Longrightarrow> base_ok (a\<lparr>at_psigs := (s, p) # at_psigs a\<rparr>)"
  using assms by (auto simp: base_ok_def closed_def regs_ok_def maps_ok_def members_only_def map_of_eq_None_iff split: option.splits)

lemma strict_hex_returns [simp]: "strict_hex t n \<noteq> Abort" "strict_hex t n = Abort \<longleftrightarrow> False"
  by (simp_all add: strict_hex_def returns)

lemma leads_view:
  assumes env: "env_total S" and ok: "attempt_ok S a"
  shows "leads S i a (on_view S s v a)"
proof -
  note base = attempt_base [OF ok]
  have same: "leads S i a (Ok [], a)" "leads S i a (Err e, a)" for e
    using leads_quiet [OF ok quiet_refl base] leads_err [OF ok quiet_refl base] by simp_all
  have sign: "leads S i a (try_sign S (a\<lparr>at_views := (s, h) # at_views a\<rparr>))" if "registered a s" "map_of (at_views a) s = None" for h
    by (rule leads_sign [OF env ok _ base_ok_extend(1) [OF base that]]) (simp add: quiet_def answers_def)
  show ?thesis
  proof (cases "registered a s")
    case True
    have "leads S i a (case map_of (at_views a) s of
        Some seen \<Rightarrow> need a (seen = h) ''a member sent two different views'' (Ok [], a)
      | None \<Rightarrow> try_sign S (a\<lparr>at_views := (s, h) # at_views a\<rparr>))" for h
      using same sign [OF True] by (auto intro!: leads_need split: option.split)
    thus ?thesis unfolding on_view_def Let_def using same True by (auto intro!: leads_need leads_try split: jvalue.split)
  qed (use same in \<open>simp add: on_view_def\<close>)
qed

lemma leads_nonces:
  assumes env: "env_total S" and ok: "attempt_ok S a" and reg: "registered a s"
  shows "leads S i a (on_nonces S s offset nonces json a)"
proof -
  note base = attempt_base [OF ok]
  have same: "leads S i a (Ok [], a)" "leads S i a (Err e, a)" for e
    using leads_quiet [OF ok quiet_refl base] leads_err [OF ok quiet_refl base] by simp_all
  have sign: "leads S i a (try_sign S (a\<lparr>at_nonces := (s, p) # at_nonces a\<rparr>))" if "map_of (at_nonces a) s = None" for p
    by (rule leads_sign [OF env ok _ base_ok_extend(2) [OF base reg that]]) (auto simp: quiet_def answers_def)
  have parse: "collect_ok (nonce_from_hex (e_curve S)) nonces \<noteq> Abort" by (rule collect_ok_returns) (simp add: nonce_from_hex_def returns)
  have count: "one_per_exit m n \<noteq> Abort" for m n by (simp add: one_per_exit_def returns)
  show ?thesis
    using same sign parse count by (auto simp: on_nonces_def intro!: leads_need leads_try split: option.splits)
qed

lemma leads_psigs:
  assumes env: "env_total S" and ok: "attempt_ok S a" and reg: "registered a s"
  shows "leads S i a (on_psigs S s offset sigs json a)"
proof (cases "map_of (at_psigs a) s")
  case (Some x)
  note base = attempt_base [OF ok]
  show ?thesis
    using leads_quiet [OF ok quiet_refl base, of "[]"] leads_err [OF ok quiet_refl base] Some
    by (auto simp: on_psigs_def intro!: leads_need split: prod.splits)
next
  case None
  note base = attempt_base [OF ok]
  have same: "leads S i a (Err e, a)" for e using leads_err [OF ok quiet_refl base] by simp
  have parse: "collect_ok (psig_from_hex (e_curve S)) sigs \<noteq> Abort" by (rule collect_ok_returns) (simp add: psig_from_hex_def returns)
  have count: "one_per_exit m n \<noteq> Abort" for m n by (simp add: one_per_exit_def returns)
  let ?b = "\<lambda>p. a\<lparr>at_psigs := (s, p) # at_psigs a\<rparr>"
  have quiet: "quiet i a (?b p)" and baseb: "base_ok (?b p)" for p
    using base_ok_extend(3) [OF base reg None] by (auto simp: quiet_def answers_def)
  have sameb: "leads S i a (Ok [], ?b p)" "leads S i a (Err e, ?b p)" for p e
    using leads_quiet [OF ok quiet baseb, of "[]"] leads_err [OF ok quiet baseb] by simp_all
  have stop: "leads S i a (stopping why named (?b p))" for p why named by (rule leads_stopping [OF baseb quiet_config [OF quiet]])
  have signers: "collect_ok (signer_of (?b p)) (signer_order (?b p)) \<noteq> Abort"
    if "at_phase a = PhSigning" "p_peers (at_params a) \<le> Suc (length (at_psigs a))" for p
  proof (rule collect_ok_returns)
    fix x assume x: "x \<in> set (signer_order (?b p))"
    have "fst ` set (at_psigs (?b p)) = fst ` set (at_regs (?b p))"
      by (rule members_full) (use baseb [of p] that in \<open>simp_all add: base_ok_def maps_ok_def\<close>)
    moreover have "fst ` set (at_regs a) \<subseteq> fst ` set (at_nonces a)" using ok that(1) by (simp add: attempt_ok_def phase_ok_def)
    moreover have "x \<in> fst ` set (at_regs a)" using x by (simp add: signer_order_def)
    ultimately have "x \<in> fst ` set (at_psigs (?b p))" "x \<in> fst ` set (at_nonces a)" "x \<in> fst ` set (at_regs a)" by auto
    from this [THEN at_key_returns] show "signer_of (?b p) x \<noteq> Abort" by (simp add: signer_of_def returns)
  qed
  have signed: "leads S i a (exits_signed sigs (?b p))"
    if phase: "at_phase a = PhSigning" and kept: "at_keys a = Some keys" "at_msgs a = Some msgs" and agg: "aggregate (e_curve S) keys msgs signers = Ok sigs"
    for p keys msgs signers sigs
  proof -
    from ok phase have oka: "closed a" "view_ok S a" "\<not> at_record_saved a" "\<not> at_recheck_ok a" by (auto simp: attempt_ok_def phase_ok_def)
    from oka(2) kept obtain built pay where view: "checked_build S a = Ok (keys, built, pay)" "exit_messages (e_sha S) (e_curve S) keys built = Ok msgs"
      "at_built a = Some built" by (auto simp: view_ok_def)
    note shape = checked_build_facts(1,2) [OF view(1)]
    have len: "length sigs = length (pt_exits built)"
      using aggregate_length [OF agg] exit_messages_return(2) [OF env_total_facts(1) [OF env] shape(1) view(2)] by simp
    let ?built = "built\<lparr>pt_exits := map attach_witness (zip (pt_exits built) sigs)\<rparr>"
    let ?c = "(?b p)\<lparr>at_built := Some ?built, at_phase := PhFunding\<rparr>"
    have "funding_ok S ?c" using view aggregate_valid [OF agg] len checked_build_cong(1) [of ?c a S] by (auto simp: funding_ok_def)
    moreover from this have "move S i a [SaveRecord (attempt_record_of ?c ?built pay), CheckCoins (map (\<lambda>(op, out, _). (op, out)) (mp_coins (at_me ?c)))] ?c"
      by (intro move.records) (use phase oka shape in simp_all)
    moreover have "attempt_ok S ?c" using \<open>funding_ok S ?c\<close> oka shape baseb by (auto simp: attempt_ok_def phase_ok_def closed_def)
    ultimately show ?thesis
      using view(3) shape attach_succeeds [OF shape(1) len]
      by (simp add: exits_signed_def Let_def some_or_def try_in_def leads_def attempt_record_of_def)
  qed
  have "leads S i a (if at_phase a \<noteq> PhSigning \<or> Suc (length (at_psigs a)) < p_peers (at_params a) then (Ok [], ?b (parsed, json))
      else try_in (?b (parsed, json)) (some_or ''keys'' (at_keys a) Ok) (\<lambda>keys. try_in (?b (parsed, json)) (some_or ''msgs'' (at_msgs a) Ok) (\<lambda>msgs.
           try_in (?b (parsed, json)) (collect_ok (signer_of (?b (parsed, json))) (signer_order (?b (parsed, json)))) (\<lambda>signers.
           case aggregate (e_curve S) keys msgs signers of
             Ok sigs \<Rightarrow> exits_signed sigs (?b (parsed, json))
           | Err text \<Rightarrow> stopping ''a member's partial signature is invalid'' (named text) (?b (parsed, json))
           | Abort \<Rightarrow> (Abort, ?b (parsed, json))))))" for parsed named
    using sameb stop signers signed signing_returns(3) [OF env_total_facts(1) [OF env]]
    by (auto intro!: leads_try simp: some_or_Ok split: outcome.split)
  thus ?thesis unfolding on_psigs_def None option.case Let_def
    by (intro leads_need leads_try same parse count) (simp cong: if_cong split del: if_split)
qed

lemma parse_strict_returns: "parse_strict S json \<noteq> Abort"
  by (simp add: parse_strict_def returns Let_def split: jvalue.split)

lemma leads_msg:
  assumes env: "env_total S" and ok: "attempt_ok S a"
  shows "leads S (MsgIn s json) a (on_msg S s json a)"
proof -
  note base = attempt_base [OF ok]
  have same: "leads S i a (Ok [], a)" "leads S i a (Err e, a)" for i e
    using leads_quiet [OF ok quiet_refl base] leads_err [OF ok quiet_refl base] by simp_all
  have stop: "leads S i a (stopping why named a)" for i why named by (rule leads_stopping [OF base]) simp
  have size: "message_size (str_bytes json) \<noteq> Abort" by (simp add: message_size_def returns)
  show ?thesis unfolding on_msg_def
    by (intro leads_try size same) (simp add: same stop leads_view [OF env ok] leads_inputs [OF env ok] leads_output [OF env ok]
      leads_nonces [OF env ok] leads_psigs [OF env ok] leads_try parse_strict_returns split: option.split pool_msg.split)
qed

lemma leads_step:
  assumes env: "env_total S" and ok: "attempt_ok S a"
  shows "leads S i a (step S i a)"
proof -
  note base = attempt_base [OF ok]
  have same: "leads S i a (Ok [], a)" "leads S i a (Err e, a)" for i e
    using leads_quiet [OF ok quiet_refl base] leads_err [OF ok quiet_refl base] by simp_all
  have stop: "leads S i a (stopping why named a)" for i why named by (rule leads_stopping [OF base]) simp
  show ?thesis
  proof (cases i)
    case (PayoutGiven spk)
    let ?b = "a\<lparr>at_me := (at_me a)\<lparr>mp_payout := Some spk\<rparr>\<rparr>"
    have "leads S i a (register_payout S ?b)" if "at_phase a = PhChannel"
    proof (rule leads_register_payout [OF env])
      show "base_ok ?b" using base by (simp add: base_ok_def closed_def regs_ok_def maps_ok_def members_only_def)
      show "closed ?b" using ok that by (simp add: attempt_ok_def phase_ok_def closed_def)
    qed (use ok that PayoutGiven in \<open>auto simp: attempt_ok_def phase_ok_def same_config_def\<close>)
    thus ?thesis using same PayoutGiven by (auto simp: step_def need_def)
  next
    case RecordSaved
    have "leads S i a (try_fund S (a\<lparr>at_record_saved := True\<rparr>))" if "at_phase a = PhFunding"
      by (rule leads_try_fund [OF env ok that]) (use base that RecordSaved in \<open>simp_all add: quiet_def answers_def\<close>)
    thus ?thesis using same RecordSaved by (simp add: step_def)
  next
    case ChannelSaved
    have quiet: "quiet i a (a\<lparr>at_channel_saved := True\<rparr>)" by (simp add: quiet_def answers_def ChannelSaved)
    have "leads S i a (Ok [], a\<lparr>at_channel_saved := True\<rparr>)" using leads_quiet [OF ok quiet, of "[]"] base by simp
    moreover have "leads S i a (try_fund S (a\<lparr>at_channel_saved := True\<rparr>))" if "at_phase a = PhFunding"
      using leads_try_fund [OF env ok that quiet] base by simp
    ultimately show ?thesis using same ChannelSaved by (simp add: step_def Let_def)
  qed (use same stop leads_tick [OF ok] leads_coins [OF env ok] leads_msg [OF env ok] in \<open>simp_all add: step_def\<close>)
qed

text \<open>An event answers with actions and keeps the invariant, and its state change is a move of the protocol.\<close>

lemma event_moves:
  assumes env: "env_total S" and ok: "attempt_ok S a" and run: "on_input S a i = (a', out)"
  shows "\<exists>acts. out = Ok acts \<and> attempt_ok S a' \<and> same_config a a' \<and> move S i a acts a'"
proof (cases "at_phase a = PhStopped \<or> at_phase a = PhFundingSigned")
  case True
  hence "a' = a" "out = Ok []" using run by (auto simp: on_input_def)
  thus ?thesis using ok move.quietly [OF quiet_refl, of "[]"] by simp
next
  case False
  obtain r b where step: "step S i a = (r, b)" by (cases "step S i a")
  note leads = leads_step [OF env ok, of i, unfolded step]
  show ?thesis
  proof (cases r)
    case (Ok acts)
    thus ?thesis using leads run False step by (auto simp: leads_def on_input_def)
  next
    case (Err e)
    have b: "base_ok b" "same_config a b" "\<And>s json. i = MsgIn s json \<Longrightarrow> attempt_ok S b \<and> quiet i a b" using leads Err by (auto simp: leads_def)
    have stop: "\<exists>acts. out = Ok acts \<and> attempt_ok S a' \<and> same_config a a' \<and> move S i a acts a'"
      if "(a', out) = (case stop e named b of (acts, a) \<Rightarrow> (a, Ok acts))" for named
      using that stopped_ok [OF b(1)] stop_moves [OF b(2)] by (auto simp: case_prod_unfold)
    show ?thesis
    proof (cases i)
      case (MsgIn s json)
      thus ?thesis using run False step Err stop [of "[s]"] b(3) [OF MsgIn] b(2) move.quietly [of i a b "[]" S]
        by (auto simp: on_input_def split: if_splits)
    qed (use run False step Err stop [of "[]"] in \<open>auto simp: on_input_def\<close>)
  next
    case Abort
    thus ?thesis using leads by (simp add: leads_def)
  qed
qed

end
