(* ===== verification/Tatara_Example.thy ===== *)
theory Tatara_Example
  imports Tatara_Protocol
begin

text \<open>
  A complete run of a pool of three at one phone, from its registration to its funding signature, with parsers that read
  short texts and partial signatures that are accepted but for one: the inputs at which the properties of runs are applied.
\<close>

declare hex_encode_simps [simp del]

section \<open>The functions outside\<close>

definition mix_curve :: curve_ops where
  "mix_curve =
     \<lparr>k_aggregate_ok = (\<lambda>_. Ok ()), k_ctx_key = (\<lambda>_ i. Ok (replicate 33 (of_nat (i + 100)))), k_point = (\<lambda>_. 2 # replicate 32 1),
      k_sec_nonce = (\<lambda>_ _ _ _ _. [1]), k_pub_nonce = (\<lambda>_. replicate 66 2), k_nonce_ok = (\<lambda>_. True), k_psig_ok = (\<lambda>_. True),
      k_agg_nonce = (\<lambda>_. []), k_sign_partial = (\<lambda>_ _ _ _ _ _. Ok (replicate 32 3)), k_verify_partial = (\<lambda>_ _ sg _ _ _ _. sg \<noteq> replicate 32 9),
      k_aggregate = (\<lambda>_ _ _ _ _. Ok (replicate 64 4)), k_schnorr_ok = (\<lambda>_ _ _. True)\<rparr>"

definition mix_proof :: proof_msg where
  "mix_proof = \<lparr>pf_sig = [], pf_pubkey = None\<rparr>"

definition mix_ring_sig :: "nat \<Rightarrow> ring_sig" where
  "mix_ring_sig i = \<lparr>rs_key_image = replicate i CHR ''k'', rs_c0 = [], rs_s = []\<rparr>"

definition mix_script :: "nat \<Rightarrow> script_buf" where
  "mix_script i = 0x51 # 0x20 # replicate 32 (of_nat i)"

text \<open>The text \<open>ixx\<close> is the registration of member 2, \<open>oxx\<close> its payout, \<open>nxx\<close> and \<open>pxx\<close> its nonces and partial signatures;
  \<open>pbad\<close> is a list of bad partial signatures.\<close>

definition mix_json :: "string \<Rightarrow> jvalue option" where
  "mix_json s =
     (case s of
        [] \<Rightarrow> None
      | c # cs \<Rightarrow>
          let (kind, field) =
            (if c = CHR ''i'' then (''inputs'', ''height'') else if c = CHR ''o'' then (''output'', ''address'')
             else if c = CHR ''n'' then (''nonces'', ''nonces'') else (''partial_sigs'', ''sigs''))
          in Some (JObject [(''version'', JString ''2''), (''type'', JString kind), (field, JString cs)]))"

definition mix_input :: "nat \<Rightarrow> input_msg" where
  "mix_input i =
     \<lparr>im_txid = txid_text (of_nat i), im_vout = 0, im_amount = 200000, im_script = hex_encode (0 # 0x14 # replicate 20 1), im_proof = mix_proof\<rparr>"

definition mix_msg :: "jvalue \<Rightarrow> pool_msg option" where
  "mix_msg v =
     (case (j_str (j_get v ''height''), j_str (j_get v ''address''), j_str (j_get v ''nonces'')) of
        (Some cs, _, _) \<Rightarrow>
          Some (InputsMsg (hex_encode (2 # replicate 32 (of_nat (length cs)))) (hex_encode (3 # replicate 32 (of_nat (length cs))))
            [mix_input (length cs)] None 800000 (Some 100000))
      | (None, Some cs, _) \<Rightarrow> Some (OutputMsg cs (mix_ring_sig (length cs)) 0 (Some 100000))
      | (None, None, Some cs) \<Rightarrow> Some (NoncesMsg 0 (replicate 2 (hex_encode (replicate 66 2))))
      | _ \<Rightarrow>
          let byte = (if j_str (j_get v ''sigs'') = Some ''bad'' then 9 else 3)
          in Some (PartialSigsMsg 0 (replicate 2 (hex_encode (replicate 32 byte)))))"

definition mix_env :: pool_env where
  "mix_env =
     \<lparr>e_sha = (\<lambda>_. 0), e_curve = mix_curve, e_json = mix_json, e_msg = mix_msg,
      e_script_of = (\<lambda>_ s. Ok (mix_script (length s))), e_address_of = (\<lambda>_ s. Ok []),
      e_pool_script = (\<lambda>_ i. Ok (mix_script (i + 100))), e_point_ok = (\<lambda>_. True),
      e_prove = (\<lambda>_ _ _ _. Ok mix_proof), e_verify_proof = (\<lambda>_ _ _. Ok ()), e_ring_sign = (\<lambda>_ _ _ _. Ok (mix_ring_sig 1)),
      e_ring_verify = (\<lambda>_ _ sig. Ok (rs_key_image sig)), e_sign_input = (\<lambda>_ _ _ _ _. Ok [[5]])\<rparr>"

lemma mix_env_fields [simp]:
  "e_sha mix_env = (\<lambda>_. 0)" "e_curve mix_env = mix_curve" "e_json mix_env = mix_json" "e_msg mix_env = mix_msg"
  "e_script_of mix_env net s = Ok (mix_script (length s))" "e_address_of mix_env net t = Ok []" "e_pool_script mix_env keys i = Ok (mix_script (i + 100))"
  "e_point_ok mix_env bs = True" "e_prove mix_env sk t m aux = Ok mix_proof" "e_verify_proof mix_env t m pf = Ok ()"
  "e_ring_sign mix_env ring x m aux = Ok (mix_ring_sig 1)" "e_ring_verify mix_env ring m sig = Ok (rs_key_image sig)"
  "e_sign_input mix_env tx i spent sk aux = Ok [[5]]"
  by (simp_all add: mix_env_def)

lemma mix_script_p2tr [simp]: "is_p2tr (mix_script i)"
  by (simp add: is_p2tr_def mix_script_def)

lemma mix_env_total: "env_total mix_env"
  by (simp add: env_total_def curve_total_def mix_env_def mix_curve_def)

definition mix_me :: my_part where
  "mix_me =
     \<lparr>mp_coins = [((1, 0), \<lparr>to_value = 200000, to_script = 0 # 0x14 # replicate 20 1\<rparr>, [1])], mp_change = None, mp_tip = 800000,
      mp_payout = Some (mix_script 1), mp_session = 1, mp_musig = [1], mp_ring = [1], mp_entropy = 7, mp_rate_at_join = 2\<rparr>"

text \<open>Phone 1 at the start, in a room without views.\<close>

definition mix_start :: attempt where
  "mix_start =
     \<lparr>at_id = ''ab'', at_params = new_params ''ab'' 100000 3 2000, at_network = ''bitcoin'', at_d = 100000, at_rate_milli = 2000,
      at_me = mix_me, at_aux_n = 1, at_phase = PhInputs, at_clock_phase = PhInputs, at_deadline = 1120, at_phase_s = 120,
      at_regs = [], at_coins_asked = False, at_payouts = [], at_images = [], at_built = None, at_keys = None, at_msgs = None,
      at_my_nonces = None, at_my_view = None, at_views = [], at_nonces = [], at_psigs = [], at_record_saved = False,
      at_recheck_ok = False, at_channel_saved = False, at_refused = {}, at_public = True\<rparr>"

lemma mix_start_new:
  "\<exists>acts a. new_attempt mix_env (new_params ''ab'' 100000 3 2000) ''bitcoin'' mix_me 1000 120 = Ok (a, acts) \<and> mix_start = set_public True a"
  by (simp add: new_attempt_def mix_me_def mix_start_def set_public_def registration_inputs_def MAX_INPUTS_PER_MEMBER_def
    new_params_def with_classes_def my_registration_def try_in_def next_aux_def Let_def wrap_add64_def u64_max_def)

section \<open>Registrations\<close>

definition mix_json_of :: "char \<Rightarrow> nat \<Rightarrow> string" where
  "mix_json_of c i = c # replicate i CHR ''x''"

definition mix_regs :: "nat list \<Rightarrow> (session \<times> input_registration \<times> string) list" where
  "mix_regs is = map (\<lambda>i. (of_nat i, example_reg i, mix_json_of CHR ''i'' i)) is"

lemma mix_parse:
  assumes "i < 1000"
  shows "message_size (str_bytes (mix_json_of c i)) = Ok ()"
    and "parse_strict mix_env (mix_json_of CHR ''i'' i) = Ok (InputsMsg (hex_encode (2 # replicate 32 (of_nat i))) (hex_encode (3 # replicate 32 (of_nat i)))
            [mix_input i] None 800000 (Some 100000))"
  using assms by (simp_all add: message_size_def mix_json_of_def str_bytes_def MAX_MESSAGE_BYTES_def parse_strict_def mix_json_def mix_msg_def j_get_def j_str_def
   some_or_def allowed_fields_def Let_def)

text \<open>The second argument of a message's text is read back as the message; no text is a view.\<close>

lemma mix_not_view: "(case e_json mix_env (mix_json_of c i) of Some v \<Rightarrow> if j_str (j_get v ''type'') = Some ''lij_view'' then Some v else None | None \<Rightarrow> None) = None"
  by (simp add: mix_json_def mix_json_of_def j_get_def j_str_def)

lemma mix_input_read: "input_of_msg mix_env pid s (mix_input i) = Ok ((of_nat i, 0), \<lparr>to_value = 200000, to_script = 0 # 0x14 # replicate 20 1\<rparr>)"
  by (simp add: input_of_msg_def mix_input_def is_p2wpkh_def Let_def strict_hex_range_def txid_text_facts)

lemma mix_registers:
  assumes "i < 1000" and "at_phase a = PhInputs" and "map_of (at_regs a) (of_nat i) = None" and "length (at_regs a) < 3" and "at_d a = 100000"
    and "p_peers (at_params a) = 3" and "at_refused a = {}"
  shows "on_msg mix_env (of_nat i) (mix_json_of CHR ''i'' i) a =
    (let a' = a\<lparr>at_regs := insort_key fst (of_nat i, example_reg i, mix_json_of CHR ''i'' i) (at_regs a)\<rparr>
     in if length (at_regs a') < 3 then (Ok [], a') else registration_closed a')"
proof -
  have point: "point_from_hex (e_point_ok mix_env) (hex_encode (2 # replicate 32 x)) = Ok (2 # replicate 32 x)"
    "point_from_hex (e_point_ok mix_env) (hex_encode (3 # replicate 32 x)) = Ok (3 # replicate 32 x)" for x
    by (simp_all add: point_from_hex_def)
  show ?thesis unfolding on_msg_def mix_not_view using assms mix_parse [OF assms(1)]
    by (simp add: try_in_def on_inputs_def need_def registration_inputs_def MAX_INPUTS_PER_MEMBER_def mix_input_read point example_reg_def)
qed

lemma mix_texts: "''ix'' = mix_json_of CHR ''i'' 1" "''ixx'' = mix_json_of CHR ''i'' 2" "''ixxx'' = mix_json_of CHR ''i'' 3"
  "''nx'' = mix_json_of CHR ''n'' 1" "''nxx'' = mix_json_of CHR ''n'' 2" "''nxxx'' = mix_json_of CHR ''n'' 3"
  "''px'' = mix_json_of CHR ''p'' 1" "''pxx'' = mix_json_of CHR ''p'' 2" "''pxxx'' = mix_json_of CHR ''p'' 3"
  "''ox'' = mix_json_of CHR ''o'' 1" "''oxx'' = mix_json_of CHR ''o'' 2" "''oxxx'' = mix_json_of CHR ''o'' 3"
  by (simp_all add: mix_json_of_def numeral_eq_Suc)

definition mix_registered :: attempt where
  "mix_registered = mix_start\<lparr>at_regs := mix_regs [1, 2, 3], at_coins_asked := True\<rparr>"

lemma mix_registration:
  "on_input mix_env mix_start (MsgIn 1 ''ix'') = (mix_start\<lparr>at_regs := mix_regs [1]\<rparr>, Ok [])"
  "on_input mix_env (mix_start\<lparr>at_regs := mix_regs [1]\<rparr>) (MsgIn 2 ''ixx'') = (mix_start\<lparr>at_regs := mix_regs [1, 2]\<rparr>, Ok [])"
  "\<exists>acts. on_input mix_env (mix_start\<lparr>at_regs := mix_regs [1, 2]\<rparr>) (MsgIn 3 ''ixxx'') = (mix_registered, Ok acts)"
proof -
  have three: "registration_closed (mix_start\<lparr>at_regs := mix_regs [1, 2, 3]\<rparr>) =
      (Ok [CheckCoins (concat (map ir_inputs (filter (\<lambda>r. ir_session r \<noteq> 1) (map example_reg [1, 2, 3]))))], mix_registered)"
    using example_registrations by (simp add: registration_closed_def mix_regs_def comp_def mix_start_def mix_registered_def mix_me_def try_in_def)
  show "on_input mix_env mix_start (MsgIn 1 ''ix'') = (mix_start\<lparr>at_regs := mix_regs [1]\<rparr>, Ok [])"
    using mix_registers [of 1 mix_start] by (simp add: on_input_def step_def mix_start_def mix_regs_def new_params_def with_classes_def mix_texts word_le_nat_alt)
  show "on_input mix_env (mix_start\<lparr>at_regs := mix_regs [1]\<rparr>) (MsgIn 2 ''ixx'') = (mix_start\<lparr>at_regs := mix_regs [1, 2]\<rparr>, Ok [])"
    using mix_registers [of 2 "mix_start\<lparr>at_regs := mix_regs [1]\<rparr>"]
    by (simp add: on_input_def step_def mix_start_def mix_regs_def new_params_def with_classes_def mix_texts word_le_nat_alt)
  show "\<exists>acts. on_input mix_env (mix_start\<lparr>at_regs := mix_regs [1, 2]\<rparr>) (MsgIn 3 ''ixxx'') = (mix_registered, Ok acts)"
    using mix_registers [of 3 "mix_start\<lparr>at_regs := mix_regs [1, 2]\<rparr>"] three
    by (simp add: on_input_def step_def mix_start_def mix_regs_def new_params_def with_classes_def mix_texts word_le_nat_alt)
qed

section \<open>Payouts\<close>

definition mix_paying :: attempt where
  "mix_paying = mix_registered\<lparr>at_aux_n := 2, at_phase := PhPayouts\<rparr>"

lemma mix_coins: "\<exists>acts. on_input mix_env mix_registered (CoinsChecked [] []) = (mix_paying, Ok acts)"
  by (simp add: on_input_def step_def on_coins_def mix_registered_def mix_start_def mix_me_def mix_paying_def register_payout_def try_in_def
    next_aux_def Let_def some_or_def)

definition mix_payouts :: "nat list \<Rightarrow> attempt" where
  "mix_payouts is =
     mix_paying\<lparr>at_images := rev (map (\<lambda>i. (replicate i CHR ''k'', mix_script i, mix_json_of CHR ''o'' i)) is), at_payouts := map (\<lambda>i. (mix_script i, 0)) is\<rparr>"

lemma mix_pays:
  assumes "i < 200" and "i \<notin> set is" and "\<forall>j\<in>set is. j < 200"
  shows "on_msg mix_env s (mix_json_of CHR ''o'' i) (mix_payouts is) =
    (if Suc (length is) < 3 then (Ok [], mix_payouts (is @ [i])) else build_and_check mix_env (mix_payouts (is @ [i])))"
proof -
  have parse: "parse_strict mix_env (mix_json_of CHR ''o'' i) = Ok (OutputMsg (replicate i CHR ''x'') (mix_ring_sig i) 0 (Some 100000))"
    by (simp add: mix_json_of_def parse_strict_def mix_json_def mix_msg_def j_get_def j_str_def some_or_def allowed_fields_def Let_def)
  have apart: "(mix_script j = mix_script i) = (j = i)" if "j < 200" "i < 200" for i j
    using that by (auto simp: mix_script_def word_unat_eq_iff unsigned_of_nat take_bit_eq_mod)
  have image: "map_of (rev (map (\<lambda>i. (replicate i CHR ''k'', mix_script i, mix_json_of CHR ''o'' i)) is)) (replicate i CHR ''k'') = None"
    using assms(2) by (auto simp: map_of_eq_None_iff)
  have new: "\<not> list_ex (\<lambda>(s, _). s = mix_script i) (map (\<lambda>i. (mix_script i, 0::u8)) is)"
    using assms apart [of _ i] by (auto simp: list_ex_iff)
  show ?thesis unfolding on_msg_def mix_not_view using mix_parse(1) [of i] assms(1) parse image new
    by (simp add: try_in_def on_output_def need_def mix_payouts_def mix_paying_def mix_registered_def mix_start_def mix_regs_def
      new_params_def with_classes_def mix_ring_sig_def)
qed

section \<open>The pool that is built\<close>

lemma constant_hash [simp]:
  "tagged_hash (\<lambda>_. 0) t d = 0" "tagged (\<lambda>_. 0) t d = 0" "order_key (\<lambda>_. 0) t i x = 0" "compute_txid (\<lambda>_. 0) tx = 0"
  by (simp_all add: tagged_hash_def tagged_def order_key_def compute_txid_def Let_def)

lemma sort_key_same [simp]: "sort_key (\<lambda>_. c) xs = xs"
proof (induction xs)
  case (Cons x xs)
  have "insort_key (\<lambda>_. c) x xs = x # xs" by (cases xs) simp_all
  with Cons show ?case by simp
qed simp

lemma mix_params [simp]:
  "p_id (new_params ''ab'' 100000 3 2000) = ''ab''" "p_peers (new_params ''ab'' 100000 3 2000) = 3" "p_anchor (new_params ''ab'' 100000 3 2000) = False"
  "p_fee_split (new_params ''ab'' 100000 3 2000) = Equal" "p_structure (new_params ''ab'' 100000 3 2000) = Chain"
  "p_payout_type (new_params ''ab'' 100000 3 2000) = P2tr" "anchor_value (new_params ''ab'' 100000 3 2000) = 0"
  by (simp_all add: new_params_def with_classes_def anchor_value_def)

lemma mix_script_apart [simp]: "i < 200 \<Longrightarrow> j < 200 \<Longrightarrow> mix_script i = mix_script j \<longleftrightarrow> i = j"
  by (auto simp: mix_script_def word_unat_eq_iff unsigned_of_nat take_bit_eq_mod)

definition mix_exit_set :: exit_set where
  "mix_exit_set =
     \<lparr>es_plans =
        [\<lparr>ep_from = 0, ep_outs = [Payout 0 100000, Pool 1 200310], ep_fee = 308, ep_weight = 616, ep_rate_milli = 2000, ep_depth = 0\<rparr>,
         \<lparr>ep_from = 1, ep_outs = [Payout 1 100000, Payout 2 100000], ep_fee = 310, ep_weight = 616, ep_rate_milli = 2000, ep_depth = 1\<rparr>],
      es_pools = [300618, 200310]\<rparr>"

lemma mix_exit_set: "exit_set_of (new_params ''ab'' 100000 3 2000) [100000, 100000, 100000] = Ok mix_exit_set"
proof -
  let ?p = "new_params ''ab'' 100000 3 2000"
  have costs: "exit_costs ?p = [\<lparr>ec_payouts = 1, ec_weight = 616, ec_rate_milli = 2000, ec_fee = 308\<rparr>, \<lparr>ec_payouts = 2, ec_weight = 616, ec_rate_milli = 2000, ec_fee = 308\<rparr>]"
    by (simp add: exit_costs_def exit_cost_of_def exit_rate_def new_params_def with_classes_def default_exits_def pool_consts pool_fee_def Let_def arith_defs u64_max_def div_ceil_def)
  have share: "exit_share ?p = Ok 206" 
    by (simp add: exit_share_def costs arith_defs u64_max_def wrap_sum64_def div_ceil_def)
  show ?thesis
    by (simp add: exit_set_of_def chain_set_def amounts_of_def share costs exit_turn_def Let_def mix_exit_set_def arith_defs u64_max_def wrap_sum64_def
      div_ceil_def div_ceil_or_abort_def)
qed

definition mix_tx :: "outpoint list \<Rightarrow> txout list \<Rightarrow> transaction" where
  "mix_tx ins outs = \<lparr>tx_version = 2, tx_lock_time = 800000, tx_input = map pool_txin ins, tx_output = outs\<rparr>"

definition mix_out :: "nat \<Rightarrow> nat \<Rightarrow> txout" where
  "mix_out v i = \<lparr>to_value = v, to_script = mix_script i\<rparr>"

definition mix_built :: pool_txs where
  "mix_built =
     \<lparr>pt_funding = mix_tx [(1, 0), (2, 0), (3, 0)] [mix_out 300618 100],
      pt_funding_prevouts = map (\<lambda>_. \<lparr>to_value = 200000, to_script = 0 # 0x14 # replicate 20 1\<rparr>) [1, 2, 3 :: nat], pt_pool_vout = 0,
      pt_exits = [mix_tx [(0, 0)] [mix_out 100000 1, mix_out 200310 101], mix_tx [(0, 1)] [mix_out 100000 2, mix_out 100000 3]],
      pt_spent = [mix_out 300618 100, mix_out 200310 101],
      pt_links = [\<lparr>el_from = 0, el_to = [(1, 1)], el_pays = [(0, 0)], el_depth = 0\<rparr>,
                  \<lparr>el_from = 1, el_to = [], el_pays = [(1, 0), (2, 1)], el_depth = 1\<rparr>],
      pt_payouts = map mix_script [1, 2, 3], pt_payout_amounts = [100000, 100000, 100000]\<rparr>"

lemma mix_builds:
  assumes "\<And>i. i < 2 \<Longrightarrow> spk i = Ok (mix_script (i + 100))"
  shows "build (\<lambda>_. 0) (new_params ''ab'' 100000 3 2000) (map example_reg [1, 2, 3]) (map (payout_of 100000) (map (\<lambda>i. (mix_script i, 0)) [1, 2, 3])) spk = Ok mix_built"
proof -
  have lock: "lock_time_from_height (locktime (map example_reg [1, 2, 3])) = Some 800000"
    by (simp add: locktime_def example_reg_def lock_time_from_height_def)
  have order: "payout_order (\<lambda>_. 0) pid (map (payout_of 100000) (map (\<lambda>i. (mix_script i, 0)) [1, 2, 3])) = map (payout_of 100000) (map (\<lambda>i. (mix_script i, 0)) [1, 2, 3])" for pid
    by (simp add: payout_order_def payout_of_def)
  have spk: "spk 0 = Ok (mix_script 100)" "spk (Suc 0) = Ok (mix_script 101)" using assms [of 0] assms [of 1] by simp_all
  have regs: "concat (map ir_inputs (map example_reg [1, 2, 3])) = map (\<lambda>i. ((i, 0), \<lparr>to_value = 200000, to_script = 0 # 0x14 # replicate 20 1\<rparr>)) [1, 2, 3]"
    "List.map_filter ir_change (map example_reg [1, 2, 3]) = []"
    by (simp_all add: example_reg_def map_filter_simps)
  show ?thesis
    unfolding build_def lock order regs Let_def
    using mix_exit_set
    by (simp add: some_or_def spk payout_of_def case_prod_unfold at_def mix_exit_set_def link_of_def link_out_def exit_outputs_def exit_output_def vout_of_def
      create_output_def mix_built_def mix_tx_def mix_out_def some_or_abort_def Let_def)
qed

definition mix_rederived :: rederived where
  "mix_rederived =
     \<lparr>rd_funding = pt_funding mix_built, rd_pool_vout = 0, rd_exits = pt_exits mix_built, rd_pools = [300618, 200310], rd_exit_share = 206,
      rd_pool_scripts = [mix_script 100, mix_script 101]\<rparr>"

lemma mix_rederives:
  "rederive (\<lambda>_. 0) (e_pool_script mix_env) ''ab'' 100000 2000 (map member_of (map example_reg [1, 2, 3])) (map (\<lambda>i. (mix_script i, 0)) [1, 2, 3]) 800000 =
   Ok mix_rederived"
proof -
  have plan: "default_plan 3 = [1, 2]" by (simp add: default_plan_def)
  have fee: "own_fee 616 2000 = Ok 308" "own_fee 344 2000 = Ok 172"
    by (simp_all add: own_fee_def arith_defs u64_max_def some_or_def div_ceil_def)
  have share: "own_exit_share 3 2000 = Ok 206"
    by (simp add: own_exit_share_def plan exit_fee_def fee Let_def arith_defs u64_max_def some_or_def div_ceil_def div_ceil_or_abort_def)
  define ms where "ms = map member_of (map example_reg [1, 2, 3])"
  have members: "length ms = 3" "collect_ok (check_member 100000 3 2000) ms = Ok [(), (), ()]"
    "fold (\<lambda>mb h. min (mb_height mb) h) (tl ms) (mb_height (hd ms)) = 800000"
    "concat (map (\<lambda>mb. map fst (mb_inputs mb)) ms) = [(1, 0), (2, 0), (3, 0)]" "List.map_filter mb_change ms = []"
    by (simp_all add: ms_def check_member_def member_of_def example_reg_def member_need_def share fee own_input_weight_def is_p2wpkh_def
      div_ceil_def div_ceil_or_abort_def arith_defs u64_max_def some_or_def Let_def map_filter_simps)
  have order: "own_order (\<lambda>_. 0) ''ab'' (map (\<lambda>i. (mix_script i, 0)) [1, 2, 3]) = map (\<lambda>i. (mix_script i, 0)) [1, 2, 3]" by (simp add: own_order_def)
  have three: "[0..<Suc (Suc 0)] = [0, Suc 0]" by (simp add: upt_rec)
  show ?thesis
    unfolding rederive_def ms_def [symmetric] members plan Let_def order
    by (simp add: exit_fee_def fee share arith_defs u64_max_def u32_max_def some_or_def Let_def three lock_time_from_height_def own_txin_same
      mix_rederived_def mix_built_def mix_tx_def mix_out_def)
qed

lemma mix_curve_fields [simp]:
  "k_aggregate_ok mix_curve ks = Ok ()" "k_ctx_key mix_curve ks i = Ok (replicate 33 (of_nat (i + 100)))" "k_nonce_ok mix_curve bs" "k_psig_ok mix_curve bs"
  "k_sign_partial mix_curve ks i sk sec agg m = Ok (replicate 32 3)" "k_verify_partial mix_curve ks i sg agg pk n m \<longleftrightarrow> sg \<noteq> replicate 32 9"
  "k_aggregate mix_curve ks i agg sgs m = Ok (replicate 64 4)" "k_schnorr_ok mix_curve sg m key" "k_pub_nonce mix_curve sec = replicate 66 2"
  by (simp_all add: mix_curve_def)

lemma mix_script_pubkey: "script_pubkey mix_curve ks i = Ok (mix_script (i + 100))"
proof -
  have "tl (replicate 33 x) = replicate 32 x" for x :: u8 by (simp add: tl_replicate)
  thus ?thesis by (simp add: script_pubkey_def output_key_def mix_script_def)
qed

definition mix_keys :: pool_keys where
  "mix_keys = sort (map ir_musig (map example_reg [1, 2, 3]))"

definition mix_paid :: attempt where
  "mix_paid = mix_payouts [1, 2, 3]"

lemma mix_checked: "checked_build mix_env mix_paid = Ok (mix_keys, mix_built, mix_script 1)"
proof -
  let ?a = "mix_paid" and ?regs = "map example_reg [1, 2, 3]"
  have fields: "all_regs ?a = ?regs" "at_payouts ?a = map (\<lambda>i. (mix_script i, 0)) [1, 2, 3]" "at_id ?a = ''ab''" "at_d ?a = 100000" "at_rate_milli ?a = 2000"
    "at_params ?a = new_params ''ab'' 100000 3 2000" "at_me ?a = mix_me"
    by (simp_all add: mix_paid_def mix_payouts_def mix_paying_def mix_registered_def mix_start_def mix_regs_def)
  have apart: "scripts_apart mix_rederived (map member_of ?regs) (map fst (map (\<lambda>i. (mix_script i, 0 :: u8)) [1, 2, 3])) = Ok ()"
    by (simp add: scripts_apart_def mix_rederived_def member_of_def example_reg_def map_filter_simps Let_def) (simp add: mix_script_def)
  have same: "same_as_rederived mix_built mix_rederived = Ok ()" by (simp add: same_as_rederived_def mix_rederived_def mix_built_def mix_tx_def pool_txin_def)
  have once: "my_payout_once (pt_exits mix_built) (mix_script 1) 100000 = Ok ()"
    by (simp add: my_payout_once_def mix_built_def mix_tx_def mix_out_def)
  have keys: "pool_keys_new mix_curve (map ir_musig ?regs) = Ok mix_keys"
    by (simp add: pool_keys_new_def Let_def mix_keys_def del: sort_key_simps)
  have me: "List.find (\<lambda>(m, r). ir_session r = 1) (zip (map member_of ?regs) ?regs) = Some (member_of (example_reg 1), example_reg 1)"
    by (simp add: example_reg_def)
  have mine: "mine_in_funding (pt_funding mix_built) (member_of (example_reg 1)) = Ok ()"
    by (simp add: mine_in_funding_def member_of_def example_reg_def mix_built_def mix_tx_def pool_txin_def)
  show ?thesis
    unfolding checked_build_def fields Let_def
    using mix_rederives mix_builds [of "script_pubkey mix_curve mix_keys", OF mix_script_pubkey] apart same once keys me mine
    by (simp add: within_fee_limit_milli_def mix_me_def some_or_def arith_defs u64_max_def del: sort_key_simps list.map)
qed

section \<open>Nonces and partial signatures\<close>

definition mix_msgs :: "exit_message list" where
  "mix_msgs = map (\<lambda>i. \<lparr>xm_index = i, xm_key = i, xm_msg = 0, xm_output_key = replicate 32 (of_nat (i + 100))\<rparr>) [0, 1]"

lemma mix_messages: "exit_messages (\<lambda>_. 0) mix_curve mix_keys mix_built = Ok mix_msgs"
proof -
  have sighash: "exit_sighash (\<lambda>_. 0) (mix_tx [op] outs) spent = Ok 0" for op outs spent
    by (simp add: exit_sighash_def key_spend_sighash_def taproot_signing_data_def sighash_common_def sighash_input_def prevouts_all_def
      Let_def mix_tx_def)
  have "output_key mix_curve ks i = Ok (replicate 32 (of_nat (i + 100)))" for ks i by (simp add: output_key_def tl_replicate)
  thus ?thesis by (simp add: exit_messages_def exit_message_of_def mix_built_def sighash mix_msgs_def)
qed

definition mix_view :: attempt where
  "mix_view =
     mix_paid\<lparr>at_aux_n := 3, at_my_nonces := Some (map (\<lambda>i. (i, 0, [1])) [0, 1]), at_my_view := Some 0, at_built := Some mix_built,
       at_keys := Some mix_keys, at_msgs := Some mix_msgs, at_phase := PhView\<rparr>"

lemma mix_paid_fields [simp]:
  "at_params mix_paid = new_params ''ab'' 100000 3 2000" "at_me mix_paid = mix_me" "at_aux_n mix_paid = 2" "at_regs mix_paid = mix_regs [1, 2, 3]"
  "at_nonces mix_paid = []" "at_psigs mix_paid = []" "at_views mix_paid = []" "at_public mix_paid" "at_d mix_paid = 100000" "at_id mix_paid = ''ab''"
  "\<not> at_record_saved mix_paid" "\<not> at_recheck_ok mix_paid"
  by (simp_all add: mix_paid_def mix_payouts_def mix_paying_def mix_registered_def mix_start_def)

lemma mix_builds_and_checks: "\<exists>acts. build_and_check mix_env mix_paid = (Ok acts, mix_view)"
proof -
  have "2 # replicate 32 1 \<in> set mix_keys" by (simp add: mix_keys_def example_reg_def)
  hence "make_nonces (\<lambda>_. 0) mix_curve sk mix_keys mix_msgs pid aux = Ok (map (\<lambda>i. (i, 0, [1])) [0, 1], map (\<lambda>_. replicate 66 2) [0, 1 :: nat])" for sk pid aux
    by (simp add: make_nonces_def make_nonce_def mix_msgs_def) (simp add: mix_curve_def)
  thus ?thesis
    by (simp add: build_and_check_def mix_checked try_in_def mix_messages next_aux_def view_hash_def Let_def mix_view_def)
qed

lemma mix_parse_signing:
  "parse_strict mix_env (mix_json_of CHR ''n'' i) = Ok (NoncesMsg 0 (map hex_encode [replicate 66 2, replicate 66 2]))"
  "parse_strict mix_env (mix_json_of CHR ''p'' i) = Ok (PartialSigsMsg 0 (map hex_encode [replicate 32 3, replicate 32 3]))"
proof -
  have "replicate i CHR ''x'' \<noteq> ''bad''" by (cases i) simp_all
  thus "parse_strict mix_env (mix_json_of CHR ''n'' i) = Ok (NoncesMsg 0 (map hex_encode [replicate 66 2, replicate 66 2]))"
    "parse_strict mix_env (mix_json_of CHR ''p'' i) = Ok (PartialSigsMsg 0 (map hex_encode [replicate 32 3, replicate 32 3]))"
    by (simp_all add: mix_json_of_def parse_strict_def mix_json_def mix_msg_def j_get_def j_str_def some_or_def allowed_fields_def Let_def numeral_2_eq_2)
qed

definition mix_sent :: "char \<Rightarrow> bytes \<Rightarrow> nat list \<Rightarrow> (session \<times> bytes list \<times> string) list" where
  "mix_sent c bs is = map (\<lambda>i. (of_nat i, [bs, bs], mix_json_of c i)) is"

lemma mix_nonces_message:
  assumes "i < 1000" and "registered a (of_nat i)" and "map_of (at_nonces a) (of_nat i) = None" and "at_msgs a = Some mix_msgs" and "at_nonces a = mix_sent CHR ''n'' (replicate 66 2) is"
  shows "on_msg mix_env (of_nat i) (mix_json_of CHR ''n'' i) a = try_sign mix_env (a\<lparr>at_nonces := mix_sent CHR ''n'' (replicate 66 2) (i # is)\<rparr>)"
proof -
  have hex: "nonce_from_hex mix_curve (hex_encode (replicate 66 2)) = Ok (replicate 66 2)" by (simp add: nonce_from_hex_def)
  show ?thesis unfolding on_msg_def mix_not_view using assms mix_parse(1) [of i] hex
    by (simp add: try_in_def mix_parse_signing on_nonces_def need_def exits_expected_def mix_msgs_def one_per_exit_def mix_sent_def)
qed

lemma mix_psigs_message:
  assumes "i < 1000" and "registered a (of_nat i)" and "map_of (at_psigs a) (of_nat i) = None" and "at_msgs a = Some mix_msgs" and "at_keys a = Some mix_keys"
    and "at_psigs a = mix_sent CHR ''p'' (replicate 32 3) is" and "at_phase a = PhSigning" and "p_peers (at_params a) = 3"
  shows "on_msg mix_env (of_nat i) (mix_json_of CHR ''p'' i) a =
    (let b = a\<lparr>at_psigs := mix_sent CHR ''p'' (replicate 32 3) (i # is)\<rparr>
     in if length is < 2 then (Ok [], b)
        else try_in b (collect_ok (signer_of b) (signer_order b)) (\<lambda>signers. case aggregate mix_curve mix_keys mix_msgs signers of
               Ok sigs \<Rightarrow> exits_signed sigs b
             | Err text \<Rightarrow> stopping ''a member's partial signature is invalid''
                 (if at_public b then [] else map fst (filter (\<lambda>(k, r, _). str_contains text (hex_encode (ir_musig r))) (at_regs b))) b
             | Abort \<Rightarrow> (Abort, b)))"
proof -
  have hex: "psig_from_hex mix_curve (hex_encode (replicate 32 3)) = Ok (replicate 32 3)" by (simp add: psig_from_hex_def)
  show ?thesis unfolding on_msg_def mix_not_view using assms mix_parse(1) [of i] hex
    by (simp add: try_in_def mix_parse_signing on_psigs_def need_def exits_expected_def mix_msgs_def one_per_exit_def mix_sent_def Let_def some_or_def)
qed

definition mix_signing :: attempt where
  "mix_signing = mix_view\<lparr>at_nonces := mix_sent CHR ''n'' (replicate 66 2) [3, 2, 1], at_my_nonces := None, at_phase := PhSigning\<rparr>"

lemma mix_signs:
  "try_sign mix_env (mix_view\<lparr>at_nonces := mix_sent CHR ''n'' (replicate 66 2) [3, 2, 1]\<rparr>) =
   (Ok [post (PartialSigsMsg 0 (map hex_encode [replicate 32 3, replicate 32 3]))], mix_signing)"
proof -
  have "collect_ok (\<lambda>s. and_then (at_key (mix_sent CHR ''n'' (replicate 66 2) [3, 2, 1]) s) (\<lambda>(ns, _). Ok ns)) [1, 2, 3] =
      Ok (map (\<lambda>_. [replicate 66 2, replicate 66 2]) [1, 2, 3 :: nat])" by (simp add: mix_sent_def at_key_def)
  moreover have "partial_sign mix_curve sk mix_keys mix_msgs (map (\<lambda>i. (i, 0, [1])) [0, 1]) (map (\<lambda>_. [replicate 66 2, replicate 66 2]) [1, 2, 3 :: nat]) =
      Ok [replicate 32 3, replicate 32 3]" for sk
    by (simp add: partial_sign_def mix_msgs_def sign_exit_def mix_keys_def)
  ultimately show ?thesis
    by (simp add: try_sign_def mix_view_def mix_signing_def Let_def try_in_def some_or_def signer_order_def mix_regs_def) (simp add: mix_sent_def)
qed

definition mix_signed :: pool_txs where
  "mix_signed = mix_built\<lparr>pt_exits := map attach_witness (zip (pt_exits mix_built) [replicate 64 4, replicate 64 4])\<rparr>"

definition mix_funding :: attempt where
  "mix_funding = mix_signing\<lparr>at_psigs := mix_sent CHR ''p'' (replicate 32 3) [3, 2, 1], at_built := Some mix_signed, at_phase := PhFunding\<rparr>"

lemma mix_all_signed:
  "\<exists>acts. on_msg mix_env 3 (mix_json_of CHR ''p'' 3) (mix_signing\<lparr>at_psigs := mix_sent CHR ''p'' (replicate 32 3) [2, 1]\<rparr>) = (Ok acts, mix_funding)"
proof -
  let ?a = "mix_signing\<lparr>at_psigs := mix_sent CHR ''p'' (replicate 32 3) [2, 1]\<rparr>" and ?b = "mix_signing\<lparr>at_psigs := mix_sent CHR ''p'' (replicate 32 3) [3, 2, 1]\<rparr>"
  define signers :: "signer list" where
    "signers = map (\<lambda>i. (2 # replicate 32 (of_nat i), [replicate 66 2, replicate 66 2], [replicate 32 3, replicate 32 3])) [1, 2, 3]"
  have "collect_ok (signer_of ?b) (signer_order ?b) = Ok signers"
    by (simp add: signers_def mix_signing_def mix_view_def mix_regs_def signer_order_def signer_of_def at_key_def mix_sent_def example_reg_def)
  moreover have "aggregate mix_curve mix_keys mix_msgs signers = Ok [replicate 64 4, replicate 64 4]"
  proof -
    have "sort (map fst signers) = sort mix_keys" by (simp add: mix_keys_def signers_def example_reg_def comp_def sorted_sort_id del: sort_key_simps)
    moreover have "bad_signers mix_curve mix_keys signers agg i m = []" if "i < 2" for agg i m
      using that by (auto simp: bad_signers_def signers_def less_2_cases_iff)
    ultimately show ?thesis
      by (simp add: aggregate_def aggregate_exit_def mix_msgs_def Let_def) (simp add: signers_def)
  qed
  moreover have "exits_signed [replicate 64 4, replicate 64 4] ?b = (Ok [SaveRecord (attempt_record_of mix_funding mix_signed (mix_script 1)),
      CheckCoins (map (\<lambda>(op, out, _). (op, out)) (mp_coins mix_me))], mix_funding)"
  proof -
    have "attach mix_built [replicate 64 4, replicate 64 4] = Ok mix_signed"
      by (simp add: attach_def mix_signed_def mix_built_def mix_tx_def)
    thus ?thesis by (simp add: exits_signed_def mix_signing_def mix_view_def try_in_def some_or_def Let_def mix_funding_def mix_me_def attempt_record_of_def)
  qed
  ultimately show ?thesis using mix_psigs_message [of 3 ?a "[2, 1]"]
    by (simp add: mix_signing_def mix_view_def mix_regs_def mix_sent_def try_in_def Let_def)
qed

section \<open>The funding signature\<close>

lemma mix_funds:
  "on_input mix_env mix_funding RecordSaved = (mix_funding\<lparr>at_record_saved := True\<rparr>, Ok [])"
  "\<exists>ws. on_input mix_env (mix_funding\<lparr>at_record_saved := True\<rparr>) (CoinsChecked [] []) =
     (mix_funding\<lparr>at_record_saved := True, at_recheck_ok := True, at_aux_n := 4, at_phase := PhFundingSigned\<rparr>, Ok [post (FundingSigsMsg ws), FundingSigned])"
  by (simp_all add: on_input_def step_def on_coins_def try_fund_def mix_funding_def mix_signing_def mix_view_def need_def try_in_def some_or_def
    mix_me_def mix_signed_def mix_built_def mix_tx_def pool_txin_def next_aux_def post_def)

section \<open>The run\<close>

definition mix_events :: "pool_input list" where
  "mix_events =
     [MsgIn 1 ''ix'', MsgIn 2 ''ixx'', MsgIn 3 ''ixxx'', CoinsChecked [] [], MsgIn 11 ''ox'', MsgIn 12 ''oxx'', MsgIn 13 ''oxxx'',
      MsgIn 1 ''nx'', MsgIn 2 ''nxx'', MsgIn 3 ''nxxx'', MsgIn 1 ''px'', MsgIn 2 ''pxx'', MsgIn 3 ''pxxx'', RecordSaved]"

lemma on_input_Ok: "at_phase a \<noteq> PhStopped \<Longrightarrow> at_phase a \<noteq> PhFundingSigned \<Longrightarrow> step S i a = (Ok acts, b) \<Longrightarrow> fst (on_input S a i) = b"
  by (simp add: on_input_def)

lemma mix_payout_events:
  "fst (on_input mix_env mix_paying (MsgIn 11 ''ox'')) = mix_payouts [1]"
  "fst (on_input mix_env (mix_payouts [1]) (MsgIn 12 ''oxx'')) = mix_payouts [1, 2]"
  "fst (on_input mix_env (mix_payouts [1, 2]) (MsgIn 13 ''oxxx'')) = mix_view"
proof -
  have phase: "at_phase (mix_payouts is) = PhPayouts" for "is"
    by (simp add: mix_payouts_def mix_paying_def)
  have none: "mix_paying = mix_payouts []" by (simp add: mix_payouts_def mix_paying_def mix_registered_def mix_start_def)
  show "fst (on_input mix_env mix_paying (MsgIn 11 ''ox'')) = mix_payouts [1]"
    unfolding none using mix_pays [of 1 "[]" 11] phase by (simp add: on_input_Ok step_def mix_texts)
  show "fst (on_input mix_env (mix_payouts [1]) (MsgIn 12 ''oxx'')) = mix_payouts [1, 2]"
    using mix_pays [of 2 "[1]" 12] phase by (simp add: on_input_Ok step_def mix_texts)
  show "fst (on_input mix_env (mix_payouts [1, 2]) (MsgIn 13 ''oxxx'')) = mix_view"
    using mix_pays [of 3 "[1, 2]" 13] phase mix_builds_and_checks by (auto simp: on_input_Ok step_def mix_texts mix_paid_def)
qed

lemma mix_nonce_events:
  "fst (on_input mix_env mix_view (MsgIn 1 ''nx'')) = mix_view\<lparr>at_nonces := mix_sent CHR ''n'' (replicate 66 2) [1]\<rparr>"
  "fst (on_input mix_env (mix_view\<lparr>at_nonces := mix_sent CHR ''n'' (replicate 66 2) [1]\<rparr>) (MsgIn 2 ''nxx'')) =
     mix_view\<lparr>at_nonces := mix_sent CHR ''n'' (replicate 66 2) [2, 1]\<rparr>"
  "on_input mix_env (mix_view\<lparr>at_nonces := mix_sent CHR ''n'' (replicate 66 2) [2, 1]\<rparr>) (MsgIn 3 ''nxxx'') =
     (mix_signing, Ok [post (PartialSigsMsg 0 (map hex_encode [replicate 32 3, replicate 32 3]))])"
proof -
  have early: "try_sign mix_env (mix_view\<lparr>at_nonces := ns\<rparr>) = (Ok [], mix_view\<lparr>at_nonces := ns\<rparr>)" if "length ns < 3" for ns
    using that by (simp add: try_sign_def mix_view_def Let_def)
  have view: "at_phase mix_view = PhView" "at_msgs mix_view = Some mix_msgs" "at_regs mix_view = mix_regs [1, 2, 3]" "at_nonces mix_view = []"
    by (simp_all add: mix_view_def)
  show "fst (on_input mix_env mix_view (MsgIn 1 ''nx'')) = mix_view\<lparr>at_nonces := mix_sent CHR ''n'' (replicate 66 2) [1]\<rparr>"
    by (rule on_input_Ok) (use mix_nonces_message [of 1 mix_view "[]"] early in \<open>simp_all add: view step_def mix_texts mix_sent_def mix_regs_def\<close>)
  show "fst (on_input mix_env (mix_view\<lparr>at_nonces := mix_sent CHR ''n'' (replicate 66 2) [1]\<rparr>) (MsgIn 2 ''nxx'')) =
     mix_view\<lparr>at_nonces := mix_sent CHR ''n'' (replicate 66 2) [2, 1]\<rparr>"
    by (rule on_input_Ok) (use mix_nonces_message [of 2 "mix_view\<lparr>at_nonces := mix_sent CHR ''n'' (replicate 66 2) [1]\<rparr>" "[1]"] early
      in \<open>simp_all add: view step_def mix_texts mix_sent_def mix_regs_def\<close>)
  show "on_input mix_env (mix_view\<lparr>at_nonces := mix_sent CHR ''n'' (replicate 66 2) [2, 1]\<rparr>) (MsgIn 3 ''nxxx'') =
     (mix_signing, Ok [post (PartialSigsMsg 0 (map hex_encode [replicate 32 3, replicate 32 3]))])"
    using mix_signs mix_nonces_message [of 3 "mix_view\<lparr>at_nonces := mix_sent CHR ''n'' (replicate 66 2) [2, 1]\<rparr>" "[2, 1]"]
    by (simp add: view on_input_def step_def mix_texts mix_sent_def mix_regs_def)
qed

lemma mix_psig_events:
  "fst (on_input mix_env mix_signing (MsgIn 1 ''px'')) = mix_signing\<lparr>at_psigs := mix_sent CHR ''p'' (replicate 32 3) [1]\<rparr>"
  "fst (on_input mix_env (mix_signing\<lparr>at_psigs := mix_sent CHR ''p'' (replicate 32 3) [1]\<rparr>) (MsgIn 2 ''pxx'')) =
     mix_signing\<lparr>at_psigs := mix_sent CHR ''p'' (replicate 32 3) [2, 1]\<rparr>"
  "fst (on_input mix_env (mix_signing\<lparr>at_psigs := mix_sent CHR ''p'' (replicate 32 3) [2, 1]\<rparr>) (MsgIn 3 ''pxxx'')) = mix_funding"
proof -
  have signing: "at_phase mix_signing = PhSigning" "at_msgs mix_signing = Some mix_msgs" "at_keys mix_signing = Some mix_keys" "at_regs mix_signing = mix_regs [1, 2, 3]"
    "at_psigs mix_signing = []" "at_params mix_signing = new_params ''ab'' 100000 3 2000"
    by (simp_all add: mix_signing_def mix_view_def)
  show "fst (on_input mix_env mix_signing (MsgIn 1 ''px'')) = mix_signing\<lparr>at_psigs := mix_sent CHR ''p'' (replicate 32 3) [1]\<rparr>"
    by (rule on_input_Ok) (use mix_psigs_message [of 1 mix_signing "[]"] in \<open>simp_all add: signing step_def mix_texts mix_sent_def mix_regs_def\<close>)
  show "fst (on_input mix_env (mix_signing\<lparr>at_psigs := mix_sent CHR ''p'' (replicate 32 3) [1]\<rparr>) (MsgIn 2 ''pxx'')) =
     mix_signing\<lparr>at_psigs := mix_sent CHR ''p'' (replicate 32 3) [2, 1]\<rparr>"
    by (rule on_input_Ok) (use mix_psigs_message [of 2 "mix_signing\<lparr>at_psigs := mix_sent CHR ''p'' (replicate 32 3) [1]\<rparr>" "[1]"]
      in \<open>simp_all add: signing step_def mix_texts mix_sent_def mix_regs_def\<close>)
  obtain acts where "on_msg mix_env 3 (mix_json_of CHR ''p'' 3) (mix_signing\<lparr>at_psigs := mix_sent CHR ''p'' (replicate 32 3) [2, 1]\<rparr>) = (Ok acts, mix_funding)"
    using mix_all_signed by blast
  thus "fst (on_input mix_env (mix_signing\<lparr>at_psigs := mix_sent CHR ''p'' (replicate 32 3) [2, 1]\<rparr>) (MsgIn 3 ''pxxx'')) = mix_funding"
    by (intro on_input_Ok) (simp_all add: signing step_def mix_texts)
qed

lemma mix_run_view: "final_state (on_input mix_env) mix_start (take 9 mix_events) = mix_view\<lparr>at_nonces := mix_sent CHR ''n'' (replicate 66 2) [2, 1]\<rparr>"
proof -
  obtain acts acts' where steps: "on_input mix_env (mix_start\<lparr>at_regs := mix_regs [1, 2]\<rparr>) (MsgIn 3 ''ixxx'') = (mix_registered, Ok acts)"
    "on_input mix_env mix_registered (CoinsChecked [] []) = (mix_paying, Ok acts')" using mix_registration(3) mix_coins by blast
  have "take 9 mix_events = [MsgIn 1 ''ix'', MsgIn 2 ''ixx'', MsgIn 3 ''ixxx'', CoinsChecked [] [], MsgIn 11 ''ox'', MsgIn 12 ''oxx'', MsgIn 13 ''oxxx'',
      MsgIn 1 ''nx'', MsgIn 2 ''nxx'']" by (simp add: mix_events_def)
  thus ?thesis unfolding final_state_Cons
    by (simp only: steps final_state_Cons mix_registration(1,2) mix_payout_events mix_nonce_events(1,2) fst_conv run_steps.simps(1))
qed

lemma mix_run: "final_state (on_input mix_env) mix_start mix_events = mix_funding\<lparr>at_record_saved := True\<rparr>"
proof -
  have "mix_events = take 9 mix_events @ [MsgIn 3 ''nxxx'', MsgIn 1 ''px'', MsgIn 2 ''pxx'', MsgIn 3 ''pxxx'', RecordSaved]" by (simp add: mix_events_def)
  hence "final_state (on_input mix_env) mix_start mix_events =
      final_state (on_input mix_env) (mix_view\<lparr>at_nonces := mix_sent CHR ''n'' (replicate 66 2) [2, 1]\<rparr>) [MsgIn 3 ''nxxx'', MsgIn 1 ''px'', MsgIn 2 ''pxx'', MsgIn 3 ''pxxx'', RecordSaved]"
    by (metis final_state_append mix_run_view)
  thus ?thesis
    by (simp only: final_state_Cons mix_nonce_events(3) mix_psig_events mix_funds(1) fst_conv run_steps.simps(1))
qed

end
