(* ===== verification/Tatara_Runs.thy ===== *)
theory Tatara_Runs
  imports Tatara_Example
begin

text \<open>
  Whole runs of one phone's machine, from the attempt its driver starts (\<open>lij-core/src/tatara/phone.rs\<close>) through any
  sequence of messages, answers and ticks: what has happened when the machine posts a signature, and what the record
  holds that it asked to have saved first.
\<close>

section \<open>What an exit spends\<close>

text \<open>The outpoint names an output of one of the transactions.\<close>

definition made_by :: "sha256 \<Rightarrow> transaction list \<Rightarrow> outpoint \<Rightarrow> txout \<Rightarrow> bool" where
  "made_by sha txs op out =
     list_ex (\<lambda>tx. fst op = compute_txid sha tx \<and> list_ex (\<lambda>(n, o'). snd op = of_nat n \<and> o' = out) (enumerate 0 (tx_output tx))) txs"

lemma made_by_mono: "made_by sha txs op out \<Longrightarrow> set txs \<subseteq> set txs' \<Longrightarrow> made_by sha txs' op out"
  by (auto simp: made_by_def list_ex_iff)

lemma made_by_output: "tx \<in> set txs \<Longrightarrow> n < length (tx_output tx) \<Longrightarrow> made_by sha txs (compute_txid sha tx, of_nat n) (tx_output tx ! n)"
  by (force simp: made_by_def list_ex_iff in_set_enumerate_eq)

text \<open>The pool outputs created so far are outputs of the transactions, under the script of their key.\<close>

definition made_from :: "sha256 \<Rightarrow> (nat \<Rightarrow> script_buf outcome) \<Rightarrow> transaction list \<Rightarrow> created \<Rightarrow> bool" where
  "made_from sha spk txs made =
     (\<forall>i < length made. \<forall>x. made ! i = Some x \<longrightarrow> made_by sha txs (fst x) (snd x) \<and> spk i = Ok (to_script (snd x)))"

lemma link_of_scripts:
  assumes "link_of plan outs spk order = Ok link"
  shows "el_from link = ep_from plan" and "\<forall>l\<in>set (el_to link). snd l < length outs \<and> spk (fst l) = Ok (to_script (outs ! snd l))"
proof -
  obtain to pays where fold: "fold_ok (link_out outs spk order) (ep_outs plan) ([], []) = Ok (to, pays)" and link: "el_to link = to" "el_from link = ep_from plan"
    using assms by (auto simp: link_of_def and_then_Ok)
  have "list_all (\<lambda>l. snd l < length outs \<and> spk (fst l) = Ok (to_script (outs ! snd l))) (fst (to, pays))"
    by (rule fold_ok_keeps [OF fold, where P = "\<lambda>_ acc. list_all (\<lambda>l. snd l < length outs \<and> spk (fst l) = Ok (to_script (outs ! snd l))) (fst acc)"])
      (auto simp: link_out_def vout_of_def and_then_Ok some_or_Ok at_Ok split: plan_out.splits dest!: position_Some)
  thus "\<forall>l\<in>set (el_to link). snd l < length outs \<and> spk (fst l) = Ok (to_script (outs ! snd l))" by (simp add: link list_all_iff)
  show "el_from link = ep_from plan" by (rule link)
qed

lemma create_output_made:
  assumes "made_from sha spk txs made" and "create_output (compute_txid sha tx) tx l made = Ok made'" and "tx \<in> set txs"
    and "spk (fst l) = Ok (to_script (tx_output tx ! snd l))"
  shows "made_from sha spk txs made'"
proof -
  obtain i n where l: "l = (i, n)" by (cases l)
  from assms(2) have n: "n < length (tx_output tx)" and made': "made' = made[i := Some ((compute_txid sha tx, of_nat n), tx_output tx ! n)]"
    by (auto simp: create_output_def at_Ok l split: if_splits)
  show ?thesis unfolding made_from_def
  proof (intro allI impI)
    fix j x assume "j < length made'" "made' ! j = Some x"
    thus "made_by sha txs (fst x) (snd x) \<and> spk j = Ok (to_script (snd x))"
      using assms(1) [unfolded made_from_def, rule_format, of j x] assms(4) made_by_output [OF assms(3) n, of sha]
      by (cases "j = i") (auto simp: l made')
  qed
qed

text \<open>Every exit spends an output of the funding or of an exit, under the script of the key its link names.\<close>

lemma build_exits_spend:
  "build_exits sha p spk order lock t qs made = Ok built \<Longrightarrow> made_from sha spk txs made \<Longrightarrow>
   list_all (\<lambda>(tx, spent, link). tx_input tx = [pool_txin (previous_output (hd (tx_input tx)))] \<and>
     made_by sha (txs @ map fst built) (previous_output (hd (tx_input tx))) spent \<and> spk (el_from link) = Ok (to_script spent)) built"
proof (induction qs arbitrary: t made built txs)
  case (Cons q qs)
  from Cons.prems(1) obtain prev out outs link made' rest where
    turn: "ep_from q < length made" "made ! ep_from q = Some (prev, out)" "link_of q outs spk order = Ok link"
    "fold_ok (create_output (compute_txid sha \<lparr>tx_version = 2, tx_lock_time = lock, tx_input = [pool_txin prev], tx_output = outs\<rparr>)
       \<lparr>tx_version = 2, tx_lock_time = lock, tx_input = [pool_txin prev], tx_output = outs\<rparr>) (el_to link) made = Ok made'"
    "build_exits sha p spk order lock (t + 1) qs made' = Ok rest"
    "built = (\<lparr>tx_version = 2, tx_lock_time = lock, tx_input = [pool_txin prev], tx_output = outs\<rparr>, out, link) # rest"
    by (auto simp: and_then_Ok at_Ok some_or_Ok Let_def)
  define tx where "tx = \<lparr>tx_version = 2, tx_lock_time = lock, tx_input = [pool_txin prev], tx_output = outs\<rparr>"
  note turn = turn [folded tx_def]
  have outs: "tx_output tx = outs" "tx_input tx = [pool_txin prev]" by (simp_all add: tx_def)
  have "made_from sha spk (txs @ [tx]) made"
    using Cons.prems(2) by (fastforce simp: made_from_def intro: made_by_mono)
  hence "made_from sha spk (txs @ [tx]) made'"
    by (rule fold_ok_keeps [OF turn(4), where P = "\<lambda>_. made_from sha spk (txs @ [tx])"])
      (use link_of_scripts(2) [OF turn(3)] nth_mem in \<open>fastforce intro: create_output_made simp: outs\<close>)
  from Cons.IH [OF turn(5) this] have "list_all (\<lambda>(tx, spent, link). tx_input tx = [pool_txin (previous_output (hd (tx_input tx)))] \<and>
     made_by sha (txs @ map fst built) (previous_output (hd (tx_input tx))) spent \<and> spk (el_from link) = Ok (to_script spent)) rest"
    by (simp add: turn(6))
  moreover have "made_by sha txs prev out" "spk (ep_from q) = Ok (to_script out)" using Cons.prems(2) turn(1,2) by (metis made_from_def fst_conv snd_conv)+
  moreover from this(1) have "made_by sha (txs @ map fst built) prev out" by (rule made_by_mono) auto
  ultimately show ?case using link_of_scripts(1) [OF turn(3)] by (simp add: turn(6) outs pool_txin_def)
qed simp

lemma build_parts:
  assumes "build sha p regs payouts spk = Ok txs"
  obtains k pool_spk vout order lock plans built where "spk 0 = Ok pool_spk" "position (\<lambda>out. to_script out = pool_spk) (tx_output (pt_funding txs)) = Some vout"
    "build_exits sha p spk order lock 0 plans
       ((replicate k None)[0 := Some ((compute_txid sha (pt_funding txs), of_nat vout), tx_output (pt_funding txs) ! vout)]) = Ok built"
    "pt_exits txs = map fst built" "pt_spent txs = map (fst \<circ> snd) built" "pt_links txs = map (snd \<circ> snd) built"
proof -
  have "\<exists>k pool_spk vout order lock plans built. spk 0 = Ok pool_spk \<and> position (\<lambda>out. to_script out = pool_spk) (tx_output (pt_funding txs)) = Some vout \<and>
      build_exits sha p spk order lock 0 plans
        ((replicate k None)[0 := Some ((compute_txid sha (pt_funding txs), of_nat vout), tx_output (pt_funding txs) ! vout)]) = Ok built \<and>
      pt_exits txs = map fst built \<and> pt_spent txs = map (fst \<circ> snd) built \<and> pt_links txs = map (snd \<circ> snd) built"
    using assms unfolding build_def ensure_Ok some_or_Ok some_or_abort_Ok at_Ok and_then_Ok Let_def
    apply (elim exE conjE)
    subgoal for lock es pool_spk vout built
      by (rule exI [of _ "length (es_pools es)"], rule exI [of _ pool_spk], rule exI [of _ vout],
          rule exI [of _ "map po_script (payout_order sha (p_id p) payouts)"], rule exI [of _ lock], rule exI [of _ "es_plans es"], rule exI [of _ built])
        (auto simp del: sort_key_simps)
    done
  thus ?thesis using that by blast
qed

lemma build_spends:
  assumes "build sha p regs payouts spk = Ok txs" and "t < length (pt_exits txs)"
  shows "\<exists>op. tx_input (pt_exits txs ! t) = [pool_txin op] \<and> made_by sha (pt_funding txs # pt_exits txs) op (pt_spent txs ! t)"
    and "spk (el_from (pt_links txs ! t)) = Ok (to_script (pt_spent txs ! t))"
proof -
  from assms(1) obtain k pool_spk vout order lock plans built where
    parts: "spk 0 = Ok pool_spk" "position (\<lambda>out. to_script out = pool_spk) (tx_output (pt_funding txs)) = Some vout"
    "build_exits sha p spk order lock 0 plans
       ((replicate k None)[0 := Some ((compute_txid sha (pt_funding txs), of_nat vout), tx_output (pt_funding txs) ! vout)]) = Ok built"
    "pt_exits txs = map fst built" "pt_spent txs = map (fst \<circ> snd) built" "pt_links txs = map (snd \<circ> snd) built"
    by (rule build_parts)
  have "made_from sha spk [pt_funding txs]
      ((replicate k None)[0 := Some ((compute_txid sha (pt_funding txs), of_nat vout), tx_output (pt_funding txs) ! vout)])"
    using position_Some [OF parts(2)] parts(1) by (auto simp: made_from_def nth_list_update intro!: made_by_output)
  from build_exits_spend [OF parts(3) this] have "(\<lambda>(tx, spent, link). tx_input tx = [pool_txin (previous_output (hd (tx_input tx)))] \<and>
     made_by sha (pt_funding txs # map fst built) (previous_output (hd (tx_input tx))) spent \<and> spk (el_from link) = Ok (to_script spent)) (built ! t)"
    using assms(2) parts(4) by (simp add: list_all_length)
  hence at: "tx_input (pt_exits txs ! t) = [pool_txin (previous_output (hd (tx_input (pt_exits txs ! t))))]"
    "made_by sha (pt_funding txs # pt_exits txs) (previous_output (hd (tx_input (pt_exits txs ! t)))) (pt_spent txs ! t)"
    "spk (el_from (pt_links txs ! t)) = Ok (to_script (pt_spent txs ! t))"
    using assms(2) parts(4-6) by (simp_all add: case_prod_unfold)
  from at(1,2) show "\<exists>op. tx_input (pt_exits txs ! t) = [pool_txin op] \<and> made_by sha (pt_funding txs # pt_exits txs) op (pt_spent txs ! t)" by metis
  show "spk (el_from (pt_links txs ! t)) = Ok (to_script (pt_spent txs ! t))" by (rule at(3))
qed

section \<open>The record\<close>

text \<open>A valid exit: its one input spends an output of the pool's transactions, with a signature that verifies under that output's key
  for the hash the exit is signed with.\<close>

definition exit_valid :: "sha256 \<Rightarrow> curve_ops \<Rightarrow> transaction list \<Rightarrow> transaction \<Rightarrow> bool" where
  "exit_valid sha K txs tx =
     (\<exists>op sg spent key h. tx_input tx = [(pool_txin op)\<lparr>ti_witness := [sg]\<rparr>] \<and> made_by sha txs op spent \<and>
        to_script spent = [0x51, 0x20] @ key \<and> exit_sighash sha tx spent = Ok h \<and> k_schnorr_ok K sg h key)"

text \<open>What the record promises its owner: every exit is valid, and the exits pay the payout once, exactly the denomination.\<close>

definition record_ok :: "pool_env \<Rightarrow> nat \<Rightarrow> attempt_record \<Rightarrow> bool" where
  "record_ok S d rec =
     (list_all (exit_valid (e_sha S) (e_curve S) (rc_funding rec # rc_exits rec)) (rc_exits rec) \<and>
      filter (\<lambda>out. to_script out = rc_payout rec) (concat (map tx_output (rc_exits rec))) = [\<lparr>to_value = d, to_script = rc_payout rec\<rparr>])"

lemma attached_sighash:
  assumes "length (tx_input tx) = 1"
  shows "exit_sighash sha (attach_witness (tx, sg)) spent = exit_sighash sha tx spent"
proof -
  obtain i where "tx_input tx = [i]" using assms by (auto simp: length_Suc_conv)
  thus ?thesis
    by (simp add: attach_witness_def exit_sighash_def key_spend_sighash_def taproot_signing_data_def sighash_common_def sighash_input_def
      prevouts_all_def sha_prevouts_def sha_sequences_def sha_outputs_def Let_def)
qed

lemma my_payout_exact:
  assumes "my_payout_once exits mine d = Ok ()"
  shows "filter (\<lambda>out. to_script out = mine) (concat (map tx_output exits)) = [\<lparr>to_value = d, to_script = mine\<rparr>]"
proof -
  let ?hits = "filter (\<lambda>out. to_script out = mine) (concat (map tx_output exits))"
  from assms have hits: "length ?hits = 1" "to_value (hd ?hits) = d" by (auto simp: my_payout_once_def Let_def hd_map length_Suc_conv)
  then obtain out where out: "?hits = [out]" by (auto simp: length_Suc_conv)
  hence "out \<in> set ?hits" by simp
  hence "to_script out = mine" by simp
  thus ?thesis using out hits by simp
qed

lemma made_by_attached:
  assumes "made_by sha (f # exits) op out" and "length sigs = length exits" and "list_all (\<lambda>tx. length (tx_input tx) = 1) exits"
  shows "made_by sha (f # map attach_witness (zip exits sigs)) op out"
proof -
  have same: "\<exists>tx'\<in>set (f # map attach_witness (zip exits sigs)). compute_txid sha tx' = compute_txid sha tx \<and> tx_output tx' = tx_output tx"
    if tx: "tx \<in> set (f # exits)" for tx
  proof (cases "tx = f")
    case False
    then obtain i where i: "i < length exits" "tx = exits ! i" using tx by (auto simp: in_set_conv_nth)
    hence "(tx, sigs ! i) \<in> set (zip exits sigs)" "length (tx_input tx) = 1" using assms(2,3) by (auto simp: set_zip list_all_length)
    thus ?thesis using attach_witness_keeps [of tx] by (intro bexI [of _ "attach_witness (tx, sigs ! i)"]) auto
  qed auto
  from assms(1) obtain tx where "tx \<in> set (f # exits)" "fst op = compute_txid sha tx"
    "list_ex (\<lambda>(n, o'). snd op = of_nat n \<and> o' = out) (enumerate 0 (tx_output tx))" unfolding made_by_def list_ex_iff by blast
  with same [of tx] show ?thesis unfolding made_by_def list_ex_iff [of _ "f # map attach_witness (zip exits sigs)"] by force
qed

lemma checked_build_built:
  assumes "checked_build S a = Ok (keys, built, pay)"
  shows "build (e_sha S) (at_params a) (all_regs a) (map (payout_of (at_d a)) (at_payouts a)) (script_pubkey (e_curve S) keys) = Ok built"
  using assms by (auto simp: checked_build_def Let_def and_then_Ok some_or_Ok)

lemma funding_record:
  assumes "funding_ok S a" and "at_built a = Some built" and "mp_payout (at_me a) = Some pay"
  shows "record_ok S (at_d a) (attempt_record_of a built pay)"
proof -
  from assms(1,2) obtain keys built0 pay0 msgs sigs where
    checked: "checked_build S a = Ok (keys, built0, pay0)" and msgs: "exit_messages (e_sha S) (e_curve S) keys built0 = Ok msgs"
    and valid: "list_all2 (\<lambda>m sg. k_schnorr_ok (e_curve S) sg (xm_msg m) (xm_output_key m)) msgs sigs"
    and len: "length sigs = length (pt_exits built0)" and built: "built = built0\<lparr>pt_exits := map attach_witness (zip (pt_exits built0) sigs)\<rparr>"
    by (auto simp: funding_ok_def)
  note facts = checked_build_facts(1-3) [OF checked] and build = checked_build_built [OF checked]
  have pay: "pay0 = pay" using facts(2) assms(3) by simp
  let ?exits = "map attach_witness (zip (pt_exits built0) sigs)"
  have one: "list_all (\<lambda>tx. length (tx_input tx) = 1) (pt_exits built0)" using facts(1) by (simp add: pool_shape_def)
  have outs: "map tx_output ?exits = map tx_output (pt_exits built0)"
    using attach_witness_keeps(1) one len by (auto simp: list_all_length intro!: nth_equalityI)
  have "exit_valid (e_sha S) (e_curve S) (pt_funding built0 # ?exits) (?exits ! t)" if t: "t < length ?exits" for t
  proof -
    have t': "t < length (pt_exits built0)" "t < length sigs" using t by simp_all
    from build_spends(1) [OF build t'(1)] obtain op where
      op: "tx_input (pt_exits built0 ! t) = [pool_txin op]" "made_by (e_sha S) (pt_funding built0 # pt_exits built0) op (pt_spent built0 ! t)" by blast
    have tx: "?exits ! t = attach_witness (pt_exits built0 ! t, sigs ! t)" using t by simp
    have "exit_message_of (e_sha S) (e_curve S) keys (t, (pt_exits built0 ! t, pt_spent built0 ! t), pt_links built0 ! t) = Ok (msgs ! t)"
      using msgs t'(1) facts(1) by (auto simp: exit_messages_def collect_ok_Ok list_all2_conv_all_nth nth_enumerate_eq pool_shape_def)
    then obtain h key where h: "exit_sighash (e_sha S) (pt_exits built0 ! t) (pt_spent built0 ! t) = Ok h"
      "output_key (e_curve S) keys (el_from (pt_links built0 ! t)) = Ok key"
      "msgs ! t = \<lparr>xm_index = t, xm_key = el_from (pt_links built0 ! t), xm_msg = h, xm_output_key = key\<rparr>"
      by (auto simp: exit_message_of_def and_then_Ok)
    have "to_script (pt_spent built0 ! t) = [0x51, 0x20] @ key"
      using build_spends(2) [OF build t'(1)] h(2) by (simp add: script_pubkey_def)
    moreover have "k_schnorr_ok (e_curve S) (sigs ! t) h key" using list_all2_nthD2 [OF valid t'(2)] h(3) by simp
    moreover have "exit_sighash (e_sha S) (?exits ! t) (pt_spent built0 ! t) = Ok h" using attached_sighash h(1) op(1) by (simp add: tx)
    moreover have "tx_input (?exits ! t) = [(pool_txin op)\<lparr>ti_witness := [sigs ! t]\<rparr>]" using op(1) by (simp add: tx attach_witness_def)
    moreover have "made_by (e_sha S) (pt_funding built0 # ?exits) op (pt_spent built0 ! t)" by (rule made_by_attached [OF op(2) len one])
    ultimately show ?thesis unfolding exit_valid_def by blast
  qed
  moreover have "filter (\<lambda>out. to_script out = pay) (concat (map tx_output ?exits)) = [\<lparr>to_value = at_d a, to_script = pay\<rparr>]"
    using my_payout_exact [OF facts(3)] outs pay by simp
  ultimately show ?thesis by (simp add: record_ok_def attempt_record_of_def built list_all_length)
qed

section \<open>Runs\<close>

text \<open>How the driver sets up a new attempt: the coins it refuses, whether the room is public, and a public room's deadline.\<close>

definition ready :: "outpoint list \<Rightarrow> bool \<Rightarrow> nat \<Rightarrow> attempt \<Rightarrow> attempt" where
  "ready refused public until a =
     (let m = set_public public (refusing refused a) in if public then first_phase_until until m else m)"

text \<open>An attempt as the driver starts it, for a pool that passed the checks of the join.\<close>

definition started :: "'r rate_ops \<Rightarrow> pool_env \<Rightarrow> 'r pool_event \<Rightarrow> my_part \<Rightarrow> attempt \<Rightarrow> bool" where
  "started R S ev me a =
     (\<exists>dc t p network now phase_s acts a0 refused public until.
        phase1_pool R ev dc t = Ok p \<and> new_attempt S p network me now phase_s = Ok (a0, acts) \<and> a = ready refused public until a0)"

lemma prove_coins_frame: "\<exists>n. snd (prove_coins S coins a) = a\<lparr>at_aux_n := n\<rparr>"
proof (induction coins arbitrary: a)
  case Nil
  show ?case by (rule exI [of _ "at_aux_n a"]) simp
next
  case (Cons c coins)
  obtain op out sk where c: "c = (op, out, sk)" by (cases c)
  obtain h k where aux: "next_aux S a = (h, a\<lparr>at_aux_n := k\<rparr>)" using next_aux_state [of S a] by (metis surj_pair)
  obtain n where "snd (prove_coins S coins (a\<lparr>at_aux_n := k\<rparr>)) = a\<lparr>at_aux_n := n\<rparr>" using Cons [of "a\<lparr>at_aux_n := k\<rparr>"] by auto
  then obtain r where rest: "prove_coins S coins (a\<lparr>at_aux_n := k\<rparr>) = (r, a\<lparr>at_aux_n := n\<rparr>)" by (cases "prove_coins S coins (a\<lparr>at_aux_n := k\<rparr>)") auto
  have keep: "\<exists>n. snd (try_in (a\<lparr>at_aux_n := m\<rparr>) r' f) = a\<lparr>at_aux_n := n\<rparr>"
    if "\<And>x. \<exists>n. snd (f x) = a\<lparr>at_aux_n := n\<rparr>" for m f and r' :: "'x outcome"
    using that by (cases r') (auto simp: try_in_def intro: exI [of _ m])
  show ?case by (simp add: c Let_def aux) (intro keep; simp add: rest; intro keep; auto)
qed

lemma new_attempt_ok:
  assumes "phase1_params p d" and "new_attempt S p network me now phase_s = Ok (a, acts)"
  shows "attempt_ok S a" and "at_phase a = PhInputs" and "at_d a = d" and "at_me a = me" and "at_params a = p" and "\<not> at_channel_saved a"
    and "at_phase_s a = phase_s"
proof -
  define a0 where "a0 = \<lparr>at_id = p_id p, at_params = p, at_network = network, at_d = cls_amount (hd (p_classes p)),
              at_rate_milli = p_fee_rate_milli p, at_me = me, at_aux_n = 0, at_phase = PhInputs, at_clock_phase = PhInputs,
              at_deadline = wrap_add64 now phase_s, at_phase_s = phase_s, at_regs = [], at_coins_asked = False, at_payouts = [],
              at_images = [], at_built = None, at_keys = None, at_msgs = None, at_my_nonces = None, at_my_view = None,
              at_views = [], at_nonces = [], at_psigs = [], at_record_saved = False, at_recheck_ok = False,
              at_channel_saved = False, at_refused = {}, at_public = False\<rparr>"
  from assms(2) have payout: "(mp_payout me \<noteq> None) = (p_payout_type p = P2tr)" and reg: "a = snd (my_registration S a0)"
    by (auto simp: new_attempt_def and_then_Ok a0_def Let_def split: prod.splits)
  obtain r n where "prove_coins S (mp_coins me) a0 = (r, a0\<lparr>at_aux_n := n\<rparr>)"
    using prove_coins_frame [of S "mp_coins me" a0] by (cases "prove_coins S (mp_coins me) a0") auto
  hence a: "a = a0\<lparr>at_aux_n := n\<rparr>" using reg by (auto simp: my_registration_def try_in_def a0_def split: outcome.split option.split)
  have "mp_payout me = None \<Longrightarrow> p_payout_type p = P2wsh" using payout by (cases "p_payout_type p") simp_all
  thus "attempt_ok S a" using assms(1)
    by (auto simp: a a0_def attempt_ok_def phase_ok_def base_ok_def regs_ok_def maps_ok_def members_only_def phase1_params_def)
  show "at_phase a = PhInputs" "at_d a = d" "at_me a = me" "at_params a = p" "\<not> at_channel_saved a" "at_phase_s a = phase_s"
    using assms(1) by (simp_all add: a a0_def phase1_params_def)
qed

lemma started_ok:
  assumes "started R S ev me a"
  shows "attempt_ok S a" and "at_phase a = PhInputs" and "at_d a = ev_denomination ev" and "at_me a = me" and "\<not> at_channel_saved a"
    and "phase1_params (at_params a) (at_d a)"
proof -
  from assms obtain dc t p network now phase_s acts a0 refused public until where
    new: "phase1_pool R ev dc t = Ok p" "new_attempt S p network me now phase_s = Ok (a0, acts)" "a = ready refused public until a0"
    by (auto simp: started_def)
  note facts = new_attempt_ok [OF phase1_pool_params [OF new(1)] new(2)]
  have same: "attempt_ok S (ready refused public until a0) = attempt_ok S a0"
    by (simp add: ready_def set_public_def refusing_def first_phase_until_def attempt_ok_def phase_ok_def base_ok_def regs_ok_def maps_ok_def
      members_only_def closed_def view_ok_def funding_ok_def checked_build_def view_hash_def sorted_ring_def Let_def)
  show "attempt_ok S a" using facts(1) same new(3) by simp
  show "at_phase a = PhInputs" "at_d a = ev_denomination ev" "at_me a = me" "\<not> at_channel_saved a" "phase1_params (at_params a) (at_d a)"
    using facts phase1_pool_params [OF new(1)] by (simp_all add: new(3) ready_def set_public_def refusing_def first_phase_until_def Let_def)
qed

lemma same_config_trans: "same_config a b \<Longrightarrow> same_config b c \<Longrightarrow> same_config a c"
  by (simp add: same_config_def)

lemma run_ok:
  assumes "env_total S" and "attempt_ok S a"
  shows "attempt_ok S (final_state (on_input S) a es) \<and> same_config a (final_state (on_input S) a es)"
proof (induction es rule: rev_induct)
  case (snoc e es)
  let ?b = "final_state (on_input S) a es"
  obtain b' out where "on_input S ?b e = (b', out)" by (cases "on_input S ?b e")
  with event_moves [OF assms(1), of ?b e b' out] snoc show ?case by (auto intro: same_config_trans)
qed (use assms in simp)

lemma run_output:
  assumes "n < length es"
  shows "outputs (on_input S) a es ! n = snd (on_input S (final_state (on_input S) a (take n es)) (es ! n))"
proof -
  have "outputs (on_input S) a (take n es @ es ! n # drop (Suc n) es) ! n = snd (on_input S (final_state (on_input S) a (take n es)) (es ! n))"
    unfolding outputs_append outputs_Cons using assms by (simp add: nth_append)
  thus ?thesis using assms by (simp add: id_take_nth_drop [symmetric])
qed

text \<open>Event \<open>n\<close> of a run.\<close>

lemma run_event:
  assumes "env_total S" and "attempt_ok S a" and "n < length es"
  shows "\<exists>acts. outputs (on_input S) a es ! n = Ok acts \<and>
    move S (es ! n) (final_state (on_input S) a (take n es)) acts (final_state (on_input S) a (take (Suc n) es))"
proof -
  let ?b = "final_state (on_input S) a (take n es)"
  have ok: "attempt_ok S ?b" using run_ok [OF assms(1,2)] by blast
  obtain b' out where ev: "on_input S ?b (es ! n) = (b', out)" by (cases "on_input S ?b (es ! n)")
  from event_moves [OF assms(1) ok ev] obtain acts where acts: "out = Ok acts" "move S (es ! n) ?b acts b'" by blast
  have "final_state (on_input S) a (take (Suc n) es) = b'" using assms(3) ev by (simp add: take_Suc_conv_app_nth)
  moreover have "outputs (on_input S) a es ! n = out" using run_output [OF assms(3)] ev by simp
  ultimately show ?thesis using acts by simp
qed

section \<open>Signatures\<close>

datatype sig_kind = ExitSigs | FundingSigs

definition sig_of :: "action \<Rightarrow> sig_kind option" where
  "sig_of act =
     (case act of
        Post (EnvelopeJson (PartialSigsMsg _ _)) \<Rightarrow> Some ExitSigs
      | Post (EnvelopeJson (FundingSigsMsg _)) \<Rightarrow> Some FundingSigs
      | _ \<Rightarrow> None)"

definition sigs_in :: "action list outcome \<Rightarrow> sig_kind list" where
  "sigs_in out = (case out of Ok acts \<Rightarrow> List.map_filter sig_of acts | _ \<Rightarrow> [])"

text \<open>The signatures a phone has posted when it is in a phase.\<close>

definition sigs_at :: "phase \<Rightarrow> sig_kind list set" where
  "sigs_at ph =
     (case ph of
        PhSigning \<Rightarrow> {[ExitSigs]} | PhFunding \<Rightarrow> {[ExitSigs]} | PhFundingSigned \<Rightarrow> {[ExitSigs, FundingSigs]}
      | PhStopped \<Rightarrow> {[], [ExitSigs]} | _ \<Rightarrow> {[]})"

lemma sigs_move:
  assumes "move S i a acts a'" and "sigs \<in> sigs_at (at_phase a)" and "at_phase a \<noteq> PhFundingSigned"
  shows "sigs @ List.map_filter sig_of acts \<in> sigs_at (at_phase a')"
  using assms
proof (cases rule: move.cases)
  case quietly
  have "List.map_filter sig_of acts = []" using quietly(2) by (induction acts) (auto simp: map_filter_simps sig_of_def)
  thus ?thesis using assms(2) quietly(1) by (simp add: quiet_def)
next
  case (stops why named)
  have "List.map_filter sig_of acts = []"
    using stops(3) by (induction acts) (auto simp: map_filter_simps sig_of_def post_def)
  thus ?thesis using assms(2,3) stops(1) by (cases "at_phase a") (simp_all add: sigs_at_def)
qed (use assms(2) in \<open>auto simp: sigs_at_def map_filter_simps sig_of_def post_def\<close>)

lemma run_signatures:
  assumes "env_total S" and "attempt_ok S a" and "at_phase a = PhInputs"
  shows "concat (map sigs_in (outputs (on_input S) a es)) \<in> sigs_at (at_phase (final_state (on_input S) a es))"
proof (induction es rule: rev_induct)
  case Nil
  show ?case by (simp add: assms(3) sigs_at_def)
next
  case (snoc e es)
  let ?b = "final_state (on_input S) a es"
  obtain b' out where ev: "on_input S ?b e = (b', out)" by (cases "on_input S ?b e")
  show ?case
  proof (cases "at_phase ?b = PhFundingSigned")
    case True
    hence "b' = ?b" "out = Ok []" using ev by (auto simp: on_input_def)
    thus ?thesis using snoc by (simp add: ev sigs_in_def map_filter_simps)
  next
    case False
    from event_moves [OF assms(1) _ ev] run_ok [OF assms(1,2)] obtain acts where "out = Ok acts" "move S e ?b acts b'" by blast
    thus ?thesis using sigs_move [OF _ snoc False] by (simp add: ev sigs_in_def)
  qed
qed

section \<open>What came before a funding signature\<close>

text \<open>In the Funding phase the record was handed over at some event, and the answers came after it.\<close>

definition recorded :: "pool_env \<Rightarrow> attempt \<Rightarrow> pool_input list \<Rightarrow> attempt \<Rightarrow> bool" where
  "recorded S a es b =
     (\<exists>k < length es. \<exists>built pay. at_built b = Some built \<and> mp_payout (at_me b) = Some pay \<and>
        outputs (on_input S) a es ! k = Ok [SaveRecord (attempt_record_of b built pay), CheckCoins (map (\<lambda>(op, out, _). (op, out)) (mp_coins (at_me b)))] \<and>
        (at_record_saved b \<longrightarrow> RecordSaved \<in> set (drop (Suc k) es)) \<and> (at_recheck_ok b \<longrightarrow> CoinsChecked [] [] \<in> set (drop (Suc k) es)))"

lemma recorded_quiet:
  assumes "recorded S a es b" and "quiet e b b'" and "out = snd (on_input S (final_state (on_input S) a es) e)"
  shows "recorded S a (es @ [e]) b'"
proof -
  from assms(1) obtain k built pay where k: "k < length es" "at_built b = Some built" "mp_payout (at_me b) = Some pay"
    "outputs (on_input S) a es ! k = Ok [SaveRecord (attempt_record_of b built pay), CheckCoins (map (\<lambda>(op, out, _). (op, out)) (mp_coins (at_me b)))]"
    "at_record_saved b \<longrightarrow> RecordSaved \<in> set (drop (Suc k) es)" "at_recheck_ok b \<longrightarrow> CoinsChecked [] [] \<in> set (drop (Suc k) es)"
    unfolding recorded_def by blast
  have q: "at_me b' = at_me b" "at_built b' = at_built b" "same_config b b'" "answers e b b'" using assms(2) by (simp_all add: quiet_def)
  have "attempt_record_of b' built pay = attempt_record_of b built pay" using q(3) by (simp add: attempt_record_of_def same_config_def)
  moreover have "at_record_saved b' \<longrightarrow> RecordSaved \<in> set (drop (Suc k) (es @ [e]))" "at_recheck_ok b' \<longrightarrow> CoinsChecked [] [] \<in> set (drop (Suc k) (es @ [e]))"
    using k(1,5,6) q(4) by (auto simp: answers_def)
  ultimately show ?thesis unfolding recorded_def
    by (intro exI [of _ k] exI [of _ built] exI [of _ pay]) (use k q in \<open>simp add: nth_append\<close>)
qed

lemma run_recorded:
  assumes "env_total S" and "attempt_ok S a" and "at_phase a = PhInputs"
  shows "at_phase (final_state (on_input S) a es) = PhFunding \<Longrightarrow> recorded S a es (final_state (on_input S) a es)"
proof (induction es rule: rev_induct)
  case (snoc e es)
  let ?b = "final_state (on_input S) a es"
  obtain b' out where ev: "on_input S ?b e = (b', out)" by (cases "on_input S ?b e")
  from event_moves [OF assms(1) _ ev] run_ok [OF assms(1,2)] obtain acts where acts: "out = Ok acts" "move S e ?b acts b'" by blast
  have phase: "at_phase b' = PhFunding" using snoc.prems by (simp add: ev)
  from acts(2) show ?case
  proof (cases rule: move.cases)
    case quietly
    hence "at_phase ?b = PhFunding" using phase by (simp add: quiet_def)
    from recorded_quiet [OF snoc.IH [OF this] quietly(1) refl] show ?thesis by (simp add: ev)
  next
    case (records built pay)
    show ?thesis unfolding recorded_def
      by (rule exI [of _ "length es"], simp add: ev acts(1)) (use records in \<open>simp add: nth_append\<close>)
  qed (use phase in simp_all)
qed (use assms(3) in simp)

text \<open>Only the answer to it sets the channel's flag.\<close>

definition keeps_channel :: "attempt \<Rightarrow> 'x outcome \<times> attempt \<Rightarrow> bool" where
  "keeps_channel a ra = (at_channel_saved (snd ra) = at_channel_saved a)"

lemma keeps_channel_intros:
  "at_channel_saved b = at_channel_saved a \<Longrightarrow> keeps_channel a (r, b)"
  "at_channel_saved b = at_channel_saved a \<Longrightarrow> (\<And>x. r = Ok x \<Longrightarrow> keeps_channel a (f x)) \<Longrightarrow> keeps_channel a (try_in b r f)"
  "at_channel_saved b = at_channel_saved a \<Longrightarrow> keeps_channel a ra \<Longrightarrow> keeps_channel a (need b c e ra)"
  "at_channel_saved b = at_channel_saved a \<Longrightarrow> keeps_channel a (stopping why named b)"
  by (cases r; simp add: keeps_channel_def try_in_def need_def stopping_def stop_def)+

lemma next_aux_channel: "at_channel_saved (snd (next_aux S a)) = at_channel_saved a"
  by (simp add: next_aux_def Let_def)

lemma sign_coins_channel: "at_channel_saved (snd (sign_coins S tx spent coins a)) = at_channel_saved a"
proof (induction S tx spent coins a rule: sign_coins.induct)
  case (2 S tx spent op uu sk coins a)
  show ?case using next_aux_channel [of S a] 2
    by (auto simp: try_in_def Let_def split: outcome.split prod.splits)
qed simp

lemma handlers_keep_channel:
  "keeps_channel a (try_fund S a)" "keeps_channel a (registration_closed a)" "keeps_channel a (register_payout S a)" "keeps_channel a (build_and_check S a)"
  "keeps_channel a (try_sign S a)" "keeps_channel a (exits_signed sigs a)"
proof -
  show "keeps_channel a (try_fund S a)" unfolding try_fund_def Let_def
    by (auto intro!: keeps_channel_intros simp: sign_coins_channel split: prod.splits) (use sign_coins_channel in \<open>metis snd_conv\<close>)+
  show "keeps_channel a (registration_closed a)" unfolding registration_closed_def by (auto intro!: keeps_channel_intros)
  show "keeps_channel a (register_payout S a)" unfolding register_payout_def Let_def
    by (auto intro!: keeps_channel_intros split: prod.splits) (use next_aux_channel in \<open>metis snd_conv\<close>)+
  show "keeps_channel a (build_and_check S a)" unfolding build_and_check_def Let_def
    by (auto intro!: keeps_channel_intros split: prod.splits) (use next_aux_channel in \<open>metis snd_conv\<close>)+
  show "keeps_channel a (try_sign S a)" unfolding try_sign_def Let_def by (auto intro!: keeps_channel_intros)
  show "keeps_channel a (exits_signed sigs a)" unfolding exits_signed_def Let_def by (auto intro!: keeps_channel_intros)
qed

lemma keeps_channel_from: "keeps_channel b ra \<Longrightarrow> at_channel_saved b = at_channel_saved a \<Longrightarrow> keeps_channel a ra"
  by (simp add: keeps_channel_def)

lemma on_msg_keeps_channel: "keeps_channel a (on_msg S s json a)"
proof -
  note from_handlers = handlers_keep_channel [THEN keeps_channel_from]
  have "keeps_channel a (on_view S s v a)" for v unfolding on_view_def Let_def
    by (auto intro!: keeps_channel_intros from_handlers split: jvalue.splits option.splits)
  moreover have "keeps_channel a (on_inputs S s musig ring inputs change height denomination json a)" for musig ring inputs change height denomination
    unfolding on_inputs_def Let_def by (auto intro!: keeps_channel_intros from_handlers split: option.splits)
  moreover have "keeps_channel a (on_output S address sg priority denomination json a)" for address sg priority denomination
    unfolding on_output_def Let_def by (auto intro!: keeps_channel_intros from_handlers split: option.splits)
  moreover have "keeps_channel a (on_nonces S s offset nonces json a)" for offset nonces
    unfolding on_nonces_def by (auto intro!: keeps_channel_intros from_handlers split: option.splits)
  moreover have "keeps_channel a (on_psigs S s offset sigs json a)" for offset sigs
    unfolding on_psigs_def Let_def by (auto intro!: keeps_channel_intros from_handlers split: option.splits outcome.splits)
  ultimately show ?thesis unfolding on_msg_def
    by (auto intro!: keeps_channel_intros split: option.splits pool_msg.splits)
qed

lemma event_channel:
  assumes "i \<noteq> ChannelSaved"
  shows "at_channel_saved (fst (on_input S a i)) = at_channel_saved a"
proof -
  note from_handlers = handlers_keep_channel [THEN keeps_channel_from]
  have "keeps_channel a (on_coins S bad unanswered a)" for bad unanswered unfolding on_coins_def
    by (auto intro!: keeps_channel_intros from_handlers)
  moreover have "keeps_channel a (on_tick now a)" for now unfolding on_tick_def by (auto intro!: keeps_channel_intros)
  ultimately have "keeps_channel a (step S i a)"
    using assms on_msg_keeps_channel by (cases i) (simp_all add: step_def keeps_channel_intros from_handlers)
  moreover obtain r b where step: "step S i a = (r, b)" by (cases "step S i a")
  ultimately have "at_channel_saved b = at_channel_saved a" by (simp add: keeps_channel_def)
  thus ?thesis unfolding on_input_def step by (cases r) (simp_all add: stop_def split: pool_input.split)
qed

lemma run_channel_saved:
  assumes "\<not> at_channel_saved a"
  shows "at_channel_saved (final_state (on_input S) a es) \<Longrightarrow> ChannelSaved \<in> set es"
proof (induction es rule: rev_induct)
  case (snoc e es)
  thus ?case using event_channel [of e S "final_state (on_input S) a es"] by (cases "e = ChannelSaved") auto
qed (use assms in simp)

text \<open>The last event of a run that posts a funding signature.\<close>

lemma funding_event:
  assumes env: "env_total S" and ok: "attempt_ok S a" and start: "at_phase a = PhInputs" and channel: "\<not> at_channel_saved a"
    and out: "snd (on_input S (final_state (on_input S) a es) e) = Ok acts" and posted: "post (FundingSigsMsg ws) \<in> set acts"
  shows "\<exists>k rec. k < length es \<and>
      outputs (on_input S) a es ! k = Ok [SaveRecord rec, CheckCoins (map (\<lambda>(op, out, _). (op, out)) (mp_coins (at_me a)))] \<and>
      RecordSaved \<in> set (drop (Suc k) (es @ [e])) \<and> CoinsChecked [] [] \<in> set (drop (Suc k) (es @ [e])) \<and>
      (p_payout_type (at_params a) = P2wsh \<longrightarrow> ChannelSaved \<in> set (es @ [e])) \<and>
      record_ok S (at_d a) rec \<and> signs_for (rc_funding rec) (mp_coins (at_me a)) ws"
proof -
  let ?b = "final_state (on_input S) a es"
  obtain b' out' where ev: "on_input S ?b e = (b', out')" by (cases "on_input S ?b e")
  have okb: "attempt_ok S ?b" and config: "same_config a ?b" using run_ok [OF env ok] by blast+
  from event_moves [OF env okb ev] out ev have "move S e ?b acts b'" by auto
  from this posted obtain built where funds: "at_phase ?b = PhFunding" "answers e ?b b'" "at_record_saved b'" "at_recheck_ok b'"
    "p_payout_type (at_params ?b) = P2wsh \<longrightarrow> at_channel_saved b'" "at_built ?b = Some built" "signs_for (pt_funding built) (mp_coins (at_me ?b)) ws"
    by (cases rule: move.cases) (auto simp: post_def)
  from run_recorded [OF env ok start funds(1)] obtain k pay where k: "k < length es" "mp_payout (at_me ?b) = Some pay"
    "outputs (on_input S) a es ! k = Ok [SaveRecord (attempt_record_of ?b built pay), CheckCoins (map (\<lambda>(op, out, _). (op, out)) (mp_coins (at_me ?b)))]"
    "at_record_saved ?b \<longrightarrow> RecordSaved \<in> set (drop (Suc k) es)" "at_recheck_ok ?b \<longrightarrow> CoinsChecked [] [] \<in> set (drop (Suc k) es)"
    using funds(6) unfolding recorded_def by auto
  have "funding_ok S ?b" using okb funds(1) by (simp add: attempt_ok_def phase_ok_def)
  from funding_record [OF this funds(6) k(2)] have "record_ok S (at_d a) (attempt_record_of ?b built pay)" using config by (simp add: same_config_def)
  moreover have "RecordSaved \<in> set (drop (Suc k) (es @ [e]))" "CoinsChecked [] [] \<in> set (drop (Suc k) (es @ [e]))"
    using k(1,4,5) funds(2-4) by (auto simp: answers_def)
  moreover have "ChannelSaved \<in> set (es @ [e])" if "p_payout_type (at_params a) = P2wsh"
    using run_channel_saved [OF channel, where es = "es @ [e]" and S = S] funds(5) that config by (simp add: ev same_config_def)
  ultimately show ?thesis using k(1,3) funds(7) config
    by (intro exI [of _ k] exI [of _ "attempt_record_of ?b built pay"]) (simp add: same_config_def attempt_record_of_def)
qed

section \<open>Properties of runs\<close>

lemma mix_started: "started example_rates mix_env example_event mix_me mix_start"
proof -
  obtain acts a where "new_attempt mix_env (new_params ''ab'' 100000 3 2000) ''bitcoin'' mix_me 1000 120 = Ok (a, acts)" "mix_start = set_public True a"
    using mix_start_new by blast
  moreover from this(2) have "mix_start = ready [] True 0 a" by (simp add: ready_def refusing_def first_phase_until_def set_public_def)
  ultimately show ?thesis unfolding started_def using example_phase1 by blast
qed



text \<open>C7: Well-formedness: after any run the registrations are distinct, at most as many as the pool takes and each under its own
  session; views, nonces and partial signatures come from registered members, once each; from the Channel phase on the
  registration is complete and has this phone; what the later phases work on was built and checked from these
  registrations; and the pool, this phone's coins and its change are those it started with.
\<close>

theorem mix_stays_well_formed:
  assumes "env_total S" and "started R S ev me a"
  shows "attempt_ok S (final_state (on_input S) a es) \<and> same_config a (final_state (on_input S) a es)"
  by (rule run_ok [OF assms(1) started_ok(1) [OF assms(2)]])

theorem mix_stays_well_formed_witness:
  "attempt_ok mix_env (mix_funding\<lparr>at_record_saved := True\<rparr>) \<and> same_config mix_start (mix_funding\<lparr>at_record_saved := True\<rparr>)"
  using mix_stays_well_formed [OF mix_env_total mix_started, of mix_events] unfolding mix_run .

text \<open>C8: Over a whole run a phone posts its partial signatures at most once, its funding signatures at most once, and the funding
  signatures only after the partial signatures.
\<close>

theorem signatures_posted_once:
  assumes "env_total S" and "started R S ev me a"
  shows "concat (map sigs_in (outputs (on_input S) a es)) \<in> {[], [ExitSigs], [ExitSigs, FundingSigs]}"
  using run_signatures [OF assms(1) started_ok(1,2) [OF assms(2)], of es]
  by (cases "at_phase (final_state (on_input S) a es)") (auto simp: sigs_at_def)

theorem signatures_posted_once_witness:
  "concat (map sigs_in (outputs (on_input mix_env) mix_start (mix_events @ [CoinsChecked [] []]))) \<in> {[], [ExitSigs], [ExitSigs, FundingSigs]}"
  by (rule signatures_posted_once [OF mix_env_total mix_started])



text \<open>C2: Before a phone posts its funding signatures it has handed over a record, and after that the answer came that the record is
  saved and the answer that its coins are still good, and in a channel pool the answer that the channel is saved. In the record every
  exit spends an output of the pool's transactions with a signature valid under that output's key, and the exits pay this
  phone's payout once, exactly the denomination. The funding signatures are one for each of this phone's coins, all of which are inputs
  of the recorded funding.
\<close>

theorem funding_signature_comes_last:
  assumes "env_total S" and "started R S ev me a"
    and "snd (on_input S (final_state (on_input S) a es) e) = Ok acts" and "post (FundingSigsMsg ws) \<in> set acts"
  shows "\<exists>k rec. k < length es \<and>
      outputs (on_input S) a es ! k = Ok [SaveRecord rec, CheckCoins (map (\<lambda>(op, out, _). (op, out)) (mp_coins me))] \<and>
      RecordSaved \<in> set (drop (Suc k) (es @ [e])) \<and> CoinsChecked [] [] \<in> set (drop (Suc k) (es @ [e])) \<and>
      (p_payout_type (at_params a) = P2wsh \<longrightarrow> ChannelSaved \<in> set (es @ [e])) \<and>
      record_ok S (ev_denomination ev) rec \<and> signs_for (rc_funding rec) (mp_coins me) ws"
  using funding_event [OF assms(1) started_ok(1,2,5) [OF assms(2)] assms(3,4)] started_ok(3,4) [OF assms(2)] by simp

theorem funding_signature_comes_last_witness:
  "\<exists>k rec. k < length mix_events \<and>
      outputs (on_input mix_env) mix_start mix_events ! k = Ok [SaveRecord rec, CheckCoins (map (\<lambda>(op, out, _). (op, out)) (mp_coins mix_me))] \<and>
      record_ok mix_env 100000 rec"
proof -
  obtain ws where "snd (on_input mix_env (final_state (on_input mix_env) mix_start mix_events) (CoinsChecked [] [])) = Ok [post (FundingSigsMsg ws), FundingSigned]"
    using mix_funds(2) unfolding mix_run by auto
  from funding_signature_comes_last [OF mix_env_total mix_started this, of ws] show ?thesis by (auto simp: example_event_def)
qed

end
