(* ===== verification/Tatara_Blame.thy ===== *)
theory Tatara_Blame
  imports Tatara_Runs
begin

text \<open>
  Who can stop an attempt, whom a stop names, and that a silent phase ends. Naming matters: the coins of a named member are
  refused in later pools.
\<close>

section \<open>Time\<close>

lemma on_tick_stops:
  assumes "at_clock_phase a = at_phase a" and "at_deadline a < now"
  shows "\<exists>why named. on_tick now a = stopping why named a \<and> set named \<subseteq> fst ` set (at_regs a) \<and> my_session a \<notin> set named"
proof -
  have "set (stalled a) \<subseteq> fst ` set (at_regs a)" "my_session a \<notin> set (stalled a)"
    by (cases "at_phase a"; auto simp: stalled_def)+
  thus ?thesis using assms by (auto simp: on_tick_def intro!: exI)
qed



section \<open>Strangers\<close>

text \<open>The answer does not stop the attempt.\<close>

definition no_stop :: "action list outcome \<times> attempt \<Rightarrow> bool" where
  "no_stop ra = (case fst ra of Ok acts \<Rightarrow> list_all (\<lambda>x. case x of Stopped _ _ \<Rightarrow> False | _ \<Rightarrow> True) acts | _ \<Rightarrow> True)"

lemma no_stop_intros:
  "no_stop (Ok [], b)" "no_stop (Err e, b)"
  "(\<And>x. r = Ok x \<Longrightarrow> no_stop (f x)) \<Longrightarrow> no_stop (try_in b r f)"
  "no_stop ra \<Longrightarrow> no_stop (need b c e ra)"
  by (cases r; simp add: no_stop_def try_in_def need_def)+

lemma build_no_stop: "no_stop (build_and_check S a)"
  unfolding build_and_check_def Let_def
  by (auto intro!: no_stop_intros simp: some_or_Ok split: prod.splits if_splits) (auto simp: no_stop_def post_def)

text \<open>A handler's answer stops the attempt only in the ways listed, or leaves the sender registered.\<close>

definition stranger_stop :: "session \<Rightarrow> action list outcome \<times> attempt \<Rightarrow> bool" where
  "stranger_stop s ra =
     (no_stop ra \<or> registered (snd ra) s \<or>
      (\<exists>b. ra = stopping ''two payouts under one key image'' [] b \<or> ra = stopping ''a member brought a coin refused after an earlier pool'' [s] b))"

lemma stranger_stop_intros:
  "no_stop ra \<Longrightarrow> stranger_stop s ra"
  "registered b s \<Longrightarrow> stranger_stop s (r, b)"
  "stranger_stop s (stopping ''two payouts under one key image'' [] b)"
  "stranger_stop s (stopping ''a member brought a coin refused after an earlier pool'' [s] b)"
  "(\<And>x. r' = Ok x \<Longrightarrow> stranger_stop s (f x)) \<Longrightarrow> stranger_stop s (try_in b r' f)"
  "stranger_stop s ra \<Longrightarrow> stranger_stop s (need b c e ra)"
proof -
  show "no_stop ra \<Longrightarrow> stranger_stop s ra" "registered b s \<Longrightarrow> stranger_stop s (r, b)" by (simp_all add: stranger_stop_def)
  show "stranger_stop s (stopping ''two payouts under one key image'' [] b)"
    "stranger_stop s (stopping ''a member brought a coin refused after an earlier pool'' [s] b)" unfolding stranger_stop_def by blast+
  have err: "stranger_stop s (Err e, b)" "stranger_stop s (Abort, b)" for e by (simp_all add: stranger_stop_def no_stop_def)
  show "(\<And>x. r' = Ok x \<Longrightarrow> stranger_stop s (f x)) \<Longrightarrow> stranger_stop s (try_in b r' f)" using err by (cases r') (simp_all add: try_in_def)
  show "stranger_stop s ra \<Longrightarrow> stranger_stop s (need b c e ra)" using err by (simp add: need_def)
qed

lemma registration_closed_regs: "at_regs (snd (registration_closed a)) = at_regs a"
  by (auto simp: registration_closed_def try_in_def stopping_def stop_def split: outcome.split)

lemma on_inputs_stranger: "stranger_stop s (on_inputs S s musig ring inputs change height denomination json a)"
proof -
  have closed: "stranger_stop s (registration_closed b)" if "registered b s" for b
    using stranger_stop_intros(2) [of s "snd (registration_closed b)" "fst (registration_closed b)"] that registration_closed_regs [of b] by simp
  have added: "registered (a\<lparr>at_regs := insort_key fst (s, x) (at_regs a)\<rparr>) s" for x by (simp add: set_insort_key)
  show ?thesis
    unfolding on_inputs_def Let_def
    by (auto intro!: stranger_stop_intros(3-6) closed added stranger_stop_intros(1) [OF no_stop_intros(1)] split: option.splits)
qed

lemma on_output_stranger: "stranger_stop s (on_output S address sg priority denomination json a)"
  unfolding on_output_def Let_def
  by (auto intro!: stranger_stop_intros(3-6) stranger_stop_intros(1) [OF no_stop_intros(1)] stranger_stop_intros(1) [OF build_no_stop] split: option.splits)

lemma on_msg_stranger:
  assumes "\<not> registered a s"
  shows "stranger_stop s (on_msg S s json a)"
  using assms unfolding on_msg_def on_view_def
  by (auto intro!: stranger_stop_intros(5) on_inputs_stranger on_output_stranger stranger_stop_intros(1) [OF no_stop_intros(1)]
      split: option.splits pool_msg.splits)



section \<open>Bad signatures\<close>

lemma collect_ok_first_err:
  assumes "\<And>j. j < i \<Longrightarrow> \<exists>y. f (xs ! j) = Ok y" and "i < length xs" and "f (xs ! i) = Err e"
  shows "collect_ok f xs = Err e"
  using assms
proof (induction xs arbitrary: i)
  case (Cons x xs)
  show ?case
  proof (cases i)
    case (Suc k)
    have "collect_ok f xs = Err e" by (rule Cons.IH [of k]) (use Cons.prems(1) [of "Suc _"] Cons.prems(2,3) Suc in auto)
    moreover obtain y where "f x = Ok y" using Cons.prems(1) [of 0] Suc by auto
    ultimately show ?thesis by simp
  qed (use Cons.prems in simp)
qed simp

text \<open>The first exit with a bad partial signature fails the aggregation, with the bad signers' keys in the text.\<close>

lemma aggregate_bad:
  assumes "sort (map fst signers) = sort keys" and "\<And>pk pubs sgs. (pk, pubs, sgs) \<in> set signers \<Longrightarrow> length pubs = length msgs \<and> length sgs = length msgs"
    and "\<And>j. j < i \<Longrightarrow> \<exists>sg. aggregate_exit K keys signers (j, msgs ! j) = Ok sg" and "i < length msgs"
    and "k_ctx_key K keys (xm_key (msgs ! i)) = Ok key"
    and "bad = bad_signers K keys signers (agg_nonce K (map (fst \<circ> snd) signers) i) i (msgs ! i)" and "bad \<noteq> []"
  shows "aggregate K keys msgs signers =
    Err (''invalid partial signature for exit '' @ show_nat (i + 1) @ '' from '' @ str_join '', '' (map hex_encode bad))"
proof -
  have "\<exists>us. collect_ok (\<lambda>(pk, pubs, sgs). ensure (length pubs = length msgs \<and> length sgs = length msgs)
      (hex_encode pk @ '' did not send one nonce and one partial signature per exit'') (Ok ())) ss = Ok us" if "set ss \<subseteq> set signers" for ss
    using that assms(2) by (induction ss) (auto simp: and_then_Ok)
  from this [of signers] obtain us where lens: "collect_ok (\<lambda>(pk, pubs, sgs). ensure (length pubs = length msgs \<and> length sgs = length msgs)
      (hex_encode pk @ '' did not send one nonce and one partial signature per exit'') (Ok ())) signers = Ok us" by auto
  have "aggregate_exit K keys signers (i, msgs ! i) =
      Err (''invalid partial signature for exit '' @ show_nat (i + 1) @ '' from '' @ str_join '', '' (map hex_encode bad))"
    using assms(5-7) by (simp add: aggregate_exit_def Let_def ensure_def)
  hence "collect_ok (aggregate_exit K keys signers) (enumerate 0 msgs) =
      Err (''invalid partial signature for exit '' @ show_nat (i + 1) @ '' from '' @ str_join '', '' (map hex_encode bad))"
    by (intro collect_ok_first_err [of i]) (use assms(3,4) in \<open>auto simp: nth_enumerate_eq\<close>)
  thus ?thesis using assms(1) lens by (simp add: aggregate_def)
qed


definition mix_signers :: "signer list" where
  "mix_signers = map (\<lambda>i. (2 # replicate 32 (of_nat i), [replicate 66 2, replicate 66 2],
     if i = 3 then [replicate 32 9, replicate 32 9] else [replicate 32 3, replicate 32 3])) [1, 2, 3]"


section \<open>The last to register\<close>

text \<open>A member whose coin does not cover what the pool needs.\<close>

definition mix_poor :: input_registration where
  "mix_poor = (example_reg 2)\<lparr>ir_inputs := [((2, 0), \<lparr>to_value = 100000, to_script = 0 # 0x14 # replicate 20 1\<rparr>)]\<rparr>"


end
