(* ===== verification/Ring_Sig.thy ===== *)
theory Ring_Sig
  imports Pool_Sign
begin

text \<open>
  The linkable ring signature that registers payouts (\<open>patches/joinstr-v2/src/ring.rs\<close>, with \<open>util.rs\<close> and the scalars of
  \<open>vendor/secp\<close>): a member signs under the ring of all members' keys, and all signatures by one key carry one key image.
  Scalars are numbers below the curve order. The points of the curve, compressed to 33 bytes, and their operations are the
  fields of an argument \<open>C\<close>; infinity is \<^const>\<open>None\<close>.
\<close>

unbundle bit_operations_syntax

section \<open>Scalars\<close>

definition CURVE_ORDER :: hash256 where
  "CURVE_ORDER = 0xFFFFFFFFFFFFFFFFFFFFFFFFFFFFFFFEBAAEDCE6AF48A03BBFD25E8CD0364141"

abbreviation curve_order :: nat where
  "curve_order \<equiv> unat CURVE_ORDER"

definition scalar_bytes :: "nat \<Rightarrow> bytes" where
  "scalar_bytes v = hash_bytes (of_nat v)"

definition scalar_from_hex :: "string \<Rightarrow> nat outcome" where
  "scalar_from_hex s =
     and_then (strict_hex s 32) (\<lambda>b. ensure (bytes_hash b < CURVE_ORDER) ''bad scalar'' (Ok (unat (bytes_hash b))))"

definition nonzero_scalar :: "hash256 \<Rightarrow> nat option" where
  "nonzero_scalar h = (if h \<noteq> 0 \<and> h < CURVE_ORDER then Some (unat h) else None)"

definition scalar_sub :: "nat \<Rightarrow> nat \<Rightarrow> nat" where
  "scalar_sub a b = (a + (curve_order - b)) mod curve_order"

text \<open>Reduction without a number above the order: distances to the largest 256-bit number are bit complements.\<close>

definition scalar_or_abort :: "hash256 \<Rightarrow> nat outcome" where
  "scalar_or_abort h = (if h < CURVE_ORDER then Ok (unat h) else Abort)"

definition reduce_from_internal :: "hash256 \<Rightarrow> hash256 \<Rightarrow> nat outcome" where
  "reduce_from_internal z modulus =
     (let modulus_neg = modulus XOR (- 1); z_neg = z XOR (- 1); needs_reduction = modulus \<le> z
      in and_then (scalar_or_abort (if needs_reduction then z_neg else z)) (\<lambda>q.
         and_then (scalar_or_abort modulus_neg) (\<lambda>r.
         Ok (if needs_reduction then scalar_sub r q else q))))"

definition reduce_from :: "hash256 \<Rightarrow> nat outcome" where
  "reduce_from z = reduce_from_internal z CURVE_ORDER"

text \<open>The first counter of 32 bits that gives a value. A loop that has tried them all goes on for ever.\<close>

function first_counter :: "(nat \<Rightarrow> 'a option) \<Rightarrow> nat \<Rightarrow> 'a outcome" where
  "first_counter f i =
     (if i < 2 ^ 32 then (case f i of Some x \<Rightarrow> Ok x | None \<Rightarrow> first_counter f (Suc i)) else Abort)"
  by pat_completeness auto
termination by (relation "measure (\<lambda>(f, i). 2 ^ 32 - i)") auto

declare first_counter.simps [simp del]

definition derive_scalar :: "sha256 \<Rightarrow> string \<Rightarrow> bytes list \<Rightarrow> nat outcome" where
  "derive_scalar sha tag parts = first_counter (\<lambda>i. nonzero_scalar (tagged_hash sha tag (parts @ [u32_le_bytes i]))) 0"

section \<open>Points\<close>

record secp_ops =
  s_mul :: "nat \<Rightarrow> bytes \<Rightarrow> bytes option"
  s_add :: "bytes option \<Rightarrow> bytes option \<Rightarrow> bytes option"
  s_base :: bytes
  s_lift :: "hash256 \<Rightarrow> bytes option"
  s_point :: "bytes \<Rightarrow> bool"

text \<open>The product of a non-zero scalar and a point is a point.\<close>

definition point_mul :: "secp_ops \<Rightarrow> nat \<Rightarrow> bytes \<Rightarrow> bytes outcome" where
  "point_mul C x p = some_or_abort (s_mul C x p) Ok"

definition not_inf :: "bytes option \<Rightarrow> bytes outcome" where
  "not_inf p = some_or ''point at infinity'' p Ok"

definition hash_to_point :: "sha256 \<Rightarrow> secp_ops \<Rightarrow> bytes \<Rightarrow> bytes outcome" where
  "hash_to_point sha C p =
     first_counter (\<lambda>i. s_lift C (tagged_hash sha ''joinstr/v2/hash_to_point'' [p, u32_le_bytes i])) 0"

definition hash_to_point_tagged :: "sha256 \<Rightarrow> secp_ops \<Rightarrow> bytes \<Rightarrow> bytes \<Rightarrow> bytes outcome" where
  "hash_to_point_tagged sha C tag p =
     first_counter (\<lambda>i. s_lift C (tagged_hash sha ''joinstr/v2/lij/hash_to_point_tagged''
       [p, u32_le_bytes (length tag), tag, u32_le_bytes i])) 0"

definition ring_hash :: "sha256 \<Rightarrow> bytes list \<Rightarrow> hash256" where
  "ring_hash sha ring = sha (concat ring)"

definition ring_hash_tagged :: "sha256 \<Rightarrow> bytes list \<Rightarrow> bytes \<Rightarrow> hash256" where
  "ring_hash_tagged sha ring tag =
     tagged_hash sha ''joinstr/v2/lij/ring_hash_tagged'' [hash_bytes (ring_hash sha ring), u32_le_bytes (length tag), tag]"

text \<open>The image of a key, for a hash to points.\<close>

definition image_by :: "(bytes \<Rightarrow> bytes outcome) \<Rightarrow> secp_ops \<Rightarrow> nat \<Rightarrow> bytes outcome" where
  "image_by hp C x = and_then (point_mul C x (s_base C)) (\<lambda>pk. and_then (hp pk) (point_mul C x))"

definition key_image :: "sha256 \<Rightarrow> secp_ops \<Rightarrow> nat \<Rightarrow> bytes outcome" where
  "key_image sha C x = image_by (hash_to_point sha C) C x"

definition key_image_tagged :: "sha256 \<Rightarrow> secp_ops \<Rightarrow> nat \<Rightarrow> bytes \<Rightarrow> bytes outcome" where
  "key_image_tagged sha C x tag = image_by (hash_to_point_tagged sha C tag) C x"

definition challenge :: "sha256 \<Rightarrow> hash256 \<Rightarrow> bytes \<Rightarrow> hash256 \<Rightarrow> bytes \<Rightarrow> bytes \<Rightarrow> nat outcome" where
  "challenge sha rh img m l r =
     reduce_from (tagged_hash sha ''joinstr/v2/ring'' [hash_bytes rh, img, hash_bytes m, l, r])"

section \<open>Signing\<close>

definition check_ring :: "bytes list \<Rightarrow> unit outcome" where
  "check_ring keys =
     ensure (keys \<noteq> []) ''empty ring'' (
     ensure (list_all (\<lambda>(a, b). a < b) (zip keys (tl keys))) ''ring not sorted, or a key twice'' (Ok ()))"

text \<open>From one member's challenge and response to the next member's challenge.\<close>

definition ring_link ::
  "sha256 \<Rightarrow> secp_ops \<Rightarrow> hash256 \<Rightarrow> bytes \<Rightarrow> hash256 \<Rightarrow> bytes \<Rightarrow> bytes outcome \<Rightarrow> nat \<Rightarrow> nat \<Rightarrow> nat outcome" where
  "ring_link sha C rh img m p hp_p s c =
     and_then (not_inf (s_add C (s_mul C s (s_base C)) (s_mul C c p))) (\<lambda>l.
     and_then hp_p (\<lambda>h.
     and_then (not_inf (s_add C (s_mul C s h) (s_mul C c img))) (\<lambda>r.
     challenge sha rh img m l r)))"

definition ring_turn ::
  "sha256 \<Rightarrow> secp_ops \<Rightarrow> (bytes \<Rightarrow> bytes outcome) \<Rightarrow> hash256 \<Rightarrow> bytes \<Rightarrow> hash256 \<Rightarrow> hash256 \<Rightarrow> bytes \<Rightarrow> bytes list \<Rightarrow> nat \<Rightarrow>
     nat list \<times> nat list \<Rightarrow> (nat list \<times> nat list) outcome" where
  "ring_turn sha C hp rh img m aux xb ring i st =
     (case st of (c, s) \<Rightarrow>
        and_then (derive_scalar sha ''joinstr/v2/lij/ring-decoy'' [hash_bytes aux, xb, hash_bytes m, hash_bytes rh, u32_le_bytes i]) (\<lambda>d.
        and_then (ring_link sha C rh img m (ring ! i) (hp (ring ! i)) d (c ! i)) (\<lambda>next.
        Ok (c[(i + 1) mod length ring := next], s[i := d]))))"

text \<open>The loop visits the members after the signer, wrapping around, until it is back at the signer.\<close>

definition sign_core ::
  "sha256 \<Rightarrow> secp_ops \<Rightarrow> bytes list \<Rightarrow> nat \<Rightarrow> hash256 \<Rightarrow> hash256 \<Rightarrow> (bytes \<Rightarrow> bytes outcome) \<Rightarrow> hash256 \<Rightarrow> ring_sig outcome" where
  "sign_core sha C ring x m aux hp rh =
     (let n = length ring; xb = scalar_bytes x in
      and_then (point_mul C x (s_base C)) (\<lambda>pk.
      some_or ''own key not in ring'' (position (\<lambda>p. p = pk) ring) (\<lambda>j.
      and_then (hp pk) (\<lambda>hp_j.
      and_then (point_mul C x hp_j) (\<lambda>img.
      and_then (derive_scalar sha ''joinstr/v2/lij/ring-commit'' [hash_bytes aux, xb, hash_bytes m, hash_bytes rh]) (\<lambda>a.
      and_then (point_mul C a (s_base C)) (\<lambda>l.
      and_then (point_mul C a hp_j) (\<lambda>r.
      and_then (challenge sha rh img m l r) (\<lambda>first.
      and_then (fold_ok (ring_turn sha C hp rh img m aux xb ring) (map (\<lambda>k. (j + k) mod n) [1..<n])
                  ((replicate n 0)[(j + 1) mod n := first], replicate n 0)) (\<lambda>(c, s).
      Ok \<lparr>rs_key_image = hex_encode img, rs_c0 = hex_encode (scalar_bytes (c ! 0)),
          rs_s = map (hex_encode \<circ> scalar_bytes) (s[j := scalar_sub a (c ! j * x mod curve_order)])\<rparr>))))))))))"

definition ring_sign :: "sha256 \<Rightarrow> secp_ops \<Rightarrow> bytes list \<Rightarrow> nat \<Rightarrow> hash256 \<Rightarrow> hash256 \<Rightarrow> ring_sig outcome" where
  "ring_sign sha C ring x m aux =
     and_then (check_ring ring) (\<lambda>_. sign_core sha C ring x m aux (hash_to_point sha C) (ring_hash sha ring))"

definition ring_sign_tagged ::
  "sha256 \<Rightarrow> secp_ops \<Rightarrow> bytes list \<Rightarrow> nat \<Rightarrow> hash256 \<Rightarrow> hash256 \<Rightarrow> bytes \<Rightarrow> ring_sig outcome" where
  "ring_sign_tagged sha C ring x m aux tag =
     and_then (check_ring ring) (\<lambda>_.
       sign_core sha C ring x m aux (hash_to_point_tagged sha C tag) (ring_hash_tagged sha ring tag))"

section \<open>Verifying\<close>

record sig_ring =
  rg_keys :: "bytes list"
  rg_hps :: "bytes list"
  rg_hash :: hash256

definition ring_new :: "sha256 \<Rightarrow> secp_ops \<Rightarrow> bytes list \<Rightarrow> sig_ring outcome" where
  "ring_new sha C keys =
     and_then (check_ring keys) (\<lambda>_.
     and_then (collect_ok (hash_to_point sha C) keys) (\<lambda>hps.
     Ok \<lparr>rg_keys = keys, rg_hps = hps, rg_hash = ring_hash sha keys\<rparr>))"

definition ring_new_tagged :: "sha256 \<Rightarrow> secp_ops \<Rightarrow> bytes list \<Rightarrow> bytes \<Rightarrow> sig_ring outcome" where
  "ring_new_tagged sha C keys tag =
     and_then (check_ring keys) (\<lambda>_.
     and_then (collect_ok (hash_to_point_tagged sha C tag) keys) (\<lambda>hps.
     Ok \<lparr>rg_keys = keys, rg_hps = hps, rg_hash = ring_hash_tagged sha keys tag\<rparr>))"

definition verify_with :: "sha256 \<Rightarrow> secp_ops \<Rightarrow> sig_ring \<Rightarrow> hash256 \<Rightarrow> ring_sig \<Rightarrow> bytes outcome" where
  "verify_with sha C rg m sig =
     ensure (\<not> (length (rs_s sig) \<noteq> length (rg_keys rg) \<or> rg_keys rg = [])) ''ring size mismatch'' (
     and_then (point_from_hex (s_point C) (rs_key_image sig)) (\<lambda>img.
     and_then (scalar_from_hex (rs_c0 sig)) (\<lambda>c0.
     and_then (collect_ok scalar_from_hex (rs_s sig)) (\<lambda>s.
     and_then (fold_ok (\<lambda>(i, p) c. ring_link sha C (rg_hash rg) img m p (at (rg_hps rg) i Ok) (s ! i) c)
                 (enumerate 0 (rg_keys rg)) c0) (\<lambda>c.
     ensure (c = c0) ''ring signature does not verify'' (Ok img))))))"

definition ring_verify :: "sha256 \<Rightarrow> secp_ops \<Rightarrow> bytes list \<Rightarrow> hash256 \<Rightarrow> ring_sig \<Rightarrow> bytes outcome" where
  "ring_verify sha C ring m sig = and_then (ring_new sha C ring) (\<lambda>rg. verify_with sha C rg m sig)"

definition ring_verify_tagged :: "sha256 \<Rightarrow> secp_ops \<Rightarrow> bytes list \<Rightarrow> hash256 \<Rightarrow> ring_sig \<Rightarrow> bytes \<Rightarrow> bytes outcome" where
  "ring_verify_tagged sha C ring m sig tag = and_then (ring_new_tagged sha C ring tag) (\<lambda>rg. verify_with sha C rg m sig)"

section \<open>The scalars compute modulo the order\<close>

lemma curve_order_value: "curve_order = 115792089237316195423570985008687907852837564279074904382605163141518161494337"
  by (simp add: CURVE_ORDER_def)

lemma unat_complement: "unat (NOT x :: hash256) = 2 ^ 256 - 1 - unat x"
proof -
  have "NOT x = - 1 - x" by (simp add: not_eq_complement)
  moreover have "unat (- 1 - x) = unat (- 1 :: hash256) - unat x" by (rule unat_sub) simp
  moreover have "unat (- 1 :: hash256) = 2 ^ 256 - 1" by (simp add: unsigned_minus_1_eq_mask mask_eq_exp_minus_1)
  ultimately show ?thesis by simp
qed

lemma reduce_from_mod: "reduce_from z = Ok (unat z mod curve_order)"
proof (cases "z < CURVE_ORDER")
  case True
  thus ?thesis
    by (simp add: reduce_from_def reduce_from_internal_def Let_def scalar_or_abort_def word_less_nat_alt word_le_nat_alt unat_complement curve_order_value)
next
  case False
  have z: "unat z < 2 ^ 256" using unsigned_less [of z] by simp
  with False have "curve_order \<le> unat z" "unat z - curve_order < curve_order" 
    by (simp_all add: word_less_nat_alt curve_order_value)
  moreover from this have "unat z mod curve_order = unat z - curve_order" by (simp add: le_mod_geq)
  ultimately show ?thesis using False z
    by (simp add: reduce_from_def reduce_from_internal_def Let_def scalar_or_abort_def not_less word_less_nat_alt word_le_nat_alt unat_complement scalar_sub_def curve_order_value)
qed

lemma challenge_less: "challenge sha rh img m l r = Ok c \<Longrightarrow> c < curve_order"
  by (auto simp: challenge_def reduce_from_mod curve_order_value)

lemma first_counter_value:
  assumes "first_counter f i = Ok x"
  shows "\<exists>k. f k = Some x"
  using assms by (induction f i rule: first_counter.induct) (auto simp: first_counter.simps split: if_splits option.splits)

lemma derive_scalar_less: "derive_scalar sha tag parts = Ok d \<Longrightarrow> d < curve_order"
  unfolding derive_scalar_def by (drule first_counter_value) (auto simp: nonzero_scalar_def word_less_nat_alt split: if_splits)

lemma scalar_sub_add:
  assumes "a < curve_order" and "b < curve_order"
  shows "scalar_sub a b < curve_order" and "(scalar_sub a b + b) mod curve_order = a"
proof -
  have pos: "0 < curve_order" by (simp add: curve_order_value)
  show "scalar_sub a b < curve_order" using pos by (simp add: scalar_sub_def)
  have "(scalar_sub a b + b) mod curve_order = (a + (curve_order - b) + b) mod curve_order" by (simp add: scalar_sub_def mod_simps)
  thus "(scalar_sub a b + b) mod curve_order = a" using assms by simp
qed

lemma scalar_hex_round_trip: "v < curve_order \<Longrightarrow> scalar_from_hex (hex_encode (scalar_bytes v)) = Ok v"
proof -
  assume v: "v < curve_order"
  hence "v < 2 ^ 256" by (simp add: curve_order_value)
  hence "unat (of_nat v :: hash256) = v" by (simp add: unsigned_of_nat take_bit_nat_eq_self)
  thus ?thesis using v by (simp add: scalar_from_hex_def scalar_bytes_def word_less_nat_alt)
qed

section \<open>A signature verifies\<close>

text \<open>What is relied on of the curve: the points form a group of the curve order, in which scalars act by repeated addition,
  and a point is 33 bytes with the sign of its second coordinate first.\<close>

definition secp_laws :: "secp_ops \<Rightarrow> bool" where
  "secp_laws C \<longleftrightarrow>
     s_point C (s_base C) \<and> (\<forall>h p. s_lift C h = Some p \<longrightarrow> s_point C p) \<and>
     (\<forall>p. s_point C p \<longrightarrow> length p = 33 \<and> (hd p = 2 \<or> hd p = 3)) \<and>
     (\<forall>x p q. x < curve_order \<longrightarrow> s_point C p \<longrightarrow> s_mul C x p = Some q \<longrightarrow>
        s_point C q \<and> (\<forall>c<curve_order. s_mul C c q = s_mul C (c * x mod curve_order) p)) \<and>
     (\<forall>p s t. s_point C p \<longrightarrow> s < curve_order \<longrightarrow> t < curve_order \<longrightarrow>
        s_add C (s_mul C s p) (s_mul C t p) = s_mul C ((s + t) mod curve_order) p)"

lemma secp_lawsD:
  assumes "secp_laws C"
  shows "s_point C (s_base C)" and "s_lift C z = Some p \<Longrightarrow> s_point C p" and "s_point C p \<Longrightarrow> length p = 33 \<and> (hd p = 2 \<or> hd p = 3)"
    and "x < curve_order \<Longrightarrow> s_point C p \<Longrightarrow> s_mul C x p = Some q \<Longrightarrow> s_point C q"
    and "x < curve_order \<Longrightarrow> s_point C p \<Longrightarrow> s_mul C x p = Some q \<Longrightarrow> c < curve_order \<Longrightarrow> s_mul C c q = s_mul C (c * x mod curve_order) p"
    and "s_point C p \<Longrightarrow> s < curve_order \<Longrightarrow> t < curve_order \<Longrightarrow>
      s_add C (s_mul C s p) (s_mul C t p) = s_mul C ((s + t) mod curve_order) p"
  using assms unfolding secp_laws_def by blast+

lemma wrap_distinct:
  fixes j :: nat
  assumes "1 \<le> a" and "a < b" and "b \<le> n"
  shows "(j + a) mod n \<noteq> (j + b) mod n"
proof
  assume "(j + a) mod n = (j + b) mod n"
  hence "n dvd (j + b) - (j + a)" using assms by (metis add_le_cancel_left less_imp_le_nat mod_eq_dvd_iff_nat)
  hence "n \<le> b - a" using assms by (auto dest: dvd_imp_le)
  thus False using assms by simp
qed

lemma wrap_cases:
  fixes i j n :: nat
  assumes "i < n" and "j < n" and "i \<noteq> j"
  obtains k where "1 \<le> k" "k < n" "i = (j + k) mod n"
proof (cases "j < i")
  case True
  thus ?thesis using that [of "i - j"] assms(1) by simp
next
  case False
  have "i + n = j + (n - (j - i))" using False assms by simp
  hence "(j + (n - (j - i))) mod n = (i + n) mod n" by (simp only:)
  thus ?thesis using that [of "n - (j - i)"] False assms by simp
qed

text \<open>The responses and challenges after the loop: each member's gives the next one's, from the signer's successor round to the signer.\<close>

lemma ring_turns:
  assumes "fold_ok (ring_turn sha C hp rh img m aux xb ring) (map (\<lambda>k. (j + k) mod length ring) [1..<length ring]) ((replicate (length ring) 0)[(j + 1) mod length ring := first], replicate (length ring) 0) = Ok (c, s)"
    and "j < length ring" and "first < curve_order"
  shows "length c = length ring \<and> length s = length ring \<and> c ! ((j + 1) mod length ring) = first \<and>
    (\<forall>i<length ring. c ! i < curve_order \<and> s ! i < curve_order) \<and>
    (\<forall>k. 1 \<le> k \<and> k < length ring \<longrightarrow>
       (let i = (j + k) mod length ring
        in ring_link sha C rh img m (ring ! i) (hp (ring ! i)) (s ! i) (c ! i) = Ok (c ! ((j + Suc k) mod length ring))))"
proof -
  define n where "n = length ring"
  define idx where "idx k = (j + k) mod n" for k
  let ?link = "\<lambda>i s c. ring_link sha C rh img m (ring ! i) (hp (ring ! i)) s c"
  let ?P = "\<lambda>k (c, s). length c = n \<and> length s = n \<and> c ! idx 1 = first \<and> (\<forall>i<n. c ! i < curve_order \<and> s ! i < curve_order) \<and>
    (\<forall>t. 1 \<le> t \<and> t \<le> k \<longrightarrow> ?link (idx t) (s ! idx t) (c ! idx t) = Ok (c ! idx (Suc t)))"
  have n: "0 < n" using assms(2) unfolding n_def by linarith
  hence idx: "idx k < n" for k by (simp add: idx_def)
  have apart: "idx a \<noteq> idx b" if "1 \<le> a" "a < b" "b \<le> n" for a b using wrap_distinct [OF that] by (simp add: idx_def)
  have "?P (length (map idx [1..<n])) (c, s)"
  proof (rule fold_ok_keeps [where f = "ring_turn sha C hp rh img m aux xb ring" and s = "((replicate n 0)[idx 1 := first], replicate n 0)"])
    show "fold_ok (ring_turn sha C hp rh img m aux xb ring) (map idx [1..<n]) ((replicate n 0)[idx 1 := first], replicate n 0) = Ok (c, s)"
      using assms(1) unfolding idx_def [abs_def] n_def .
    show "?P 0 ((replicate n 0)[idx 1 := first], replicate n 0)" using idx assms(3) by (auto simp: nth_list_update curve_order_value)
    fix k st st'
    assume k: "k < length (map idx [1..<n])" and P: "?P k st" and turn: "ring_turn sha C hp rh img m aux xb ring (map idx [1..<n] ! k) st = Ok st'"
    obtain c s where st: "st = (c, s)" by fastforce
    from k have k': "Suc (Suc k) \<le> n" and at: "map idx [1..<n] ! k = idx (Suc k)" by auto
    have follows: "(idx (Suc k) + 1) mod length ring = idx (Suc (Suc k))" by (simp add: idx_def n_def mod_simps)
    from turn [unfolded st at ring_turn_def prod.case follows] obtain d c' where d: "d < curve_order" and c': "?link (idx (Suc k)) d (c ! idx (Suc k)) = Ok c'"
      and st': "st' = (c[idx (Suc (Suc k)) := c'], s[idx (Suc k) := d])"
      by (auto simp: and_then_Ok dest: derive_scalar_less)
    have "c' < curve_order" using c' by (auto simp: ring_link_def and_then_Ok dest: challenge_less)
    have old: "length c = n" "length s = n" "c ! idx 1 = first" "\<forall>i<n. c ! i < curve_order \<and> s ! i < curve_order"
      "\<And>t. 1 \<le> t \<Longrightarrow> t \<le> k \<Longrightarrow> ?link (idx t) (s ! idx t) (c ! idx t) = Ok (c ! idx (Suc t))" using P by (auto simp: st)
    let ?c = "c[idx (Suc (Suc k)) := c']" and ?s = "s[idx (Suc k) := d]"
    have "?link (idx t) (?s ! idx t) (?c ! idx t) = Ok (?c ! idx (Suc t))" if t: "1 \<le> t" "t \<le> Suc k" for t
    proof (cases "t = Suc k")
      case True
      thus ?thesis using c' old(1,2) idx apart [of "Suc k" "Suc (Suc k)"] k' by simp
    next
      case False
      hence "idx t \<noteq> idx (Suc k)" "idx t \<noteq> idx (Suc (Suc k))" "idx (Suc t) \<noteq> idx (Suc (Suc k))"
        using t k' apart [of t "Suc k"] apart [of t "Suc (Suc k)"] apart [of "Suc t" "Suc (Suc k)"] by auto
      thus ?thesis using old(5) [OF t(1)] t(2) False by simp
    qed
    moreover have "?c ! idx 1 = first" using old(3) apart [of 1 "Suc (Suc k)"] k' by simp
    moreover have "\<forall>i<n. ?c ! i < curve_order \<and> ?s ! i < curve_order" using old(1,2,4) d idx [of "Suc k"] idx [of "Suc (Suc k)"] \<open>c' < curve_order\<close> by (auto simp: nth_list_update)
    ultimately show "?P (Suc k) st'" using old(1,2) by (simp add: st')
  qed
  thus ?thesis using assms(2) unfolding idx_def n_def by (auto simp: Let_def)
qed

text \<open>The signer's own response closes the ring: it gives the challenge the signer started with.\<close>

lemma ring_closes:
  assumes "secp_laws C" and "s_mul C x (s_base C) = Some pk" and "s_point C h" and "s_mul C x h = Some img"
    and "s_mul C a (s_base C) = Some l" and "s_mul C a h = Some r" and "a < curve_order" and "c < curve_order" and "x < curve_order"
  shows "ring_link sha C rh img m pk (Ok h) (scalar_sub a (c * x mod curve_order)) c = challenge sha rh img m l r"
proof -
  let ?b = "c * x mod curve_order"
  have b: "?b < curve_order" by (simp add: curve_order_value)
  have sum: "s_add C (s_mul C (scalar_sub a ?b) p) (s_mul C ?b p) = s_mul C a p" if "s_point C p" for p
    using secp_lawsD(6) [OF assms(1) that scalar_sub_add(1) [OF assms(7) b] b] scalar_sub_add(2) [OF assms(7) b] by simp
  note base = secp_lawsD(1) [OF assms(1)]
  show ?thesis
    unfolding ring_link_def secp_lawsD(5) [OF assms(1,9) base assms(2,8)] secp_lawsD(5) [OF assms(1,9,3,4,8)] sum [OF base] and_then.simps sum [OF assms(3)]
    by (simp add: not_inf_def assms(5,6))
qed

lemma ring_walk:
  assumes "\<And>i. i < length keys \<Longrightarrow> f (i, keys ! i) (c ! i) = Ok (c ! (Suc i mod length keys))" and "keys \<noteq> []"
  shows "fold_ok f (enumerate 0 keys) (c ! 0) = Ok (c ! 0)"
proof -
  have "fold_ok f (enumerate 0 (take k keys)) (c ! 0) = Ok (c ! (k mod length keys))" if "k \<le> length keys" for k
    using that
  proof (induction k)
    case (Suc k)
    have "enumerate 0 (take (Suc k) keys) = enumerate 0 (take k keys) @ [(k, keys ! k)]"
      using Suc.prems by (simp add: take_Suc_conv_app_nth enumerate_append_eq)
    thus ?case using Suc assms(1) [of k] by (simp add: fold_ok_append)
  qed simp
  from this [of "length keys"] show ?thesis by simp
qed

text \<open>Responses that link every challenge to the next are a signature that verifies.\<close>

lemma linked_verifies:
  assumes link: "\<And>i. i < length ring \<Longrightarrow> ring_link sha C rh img m (ring ! i) (hp (ring ! i)) (s ! i) (c ! i) = Ok (c ! (Suc i mod length ring))"
    and ring: "ring \<noteq> []" "length s = length ring" and img: "point_from_hex (s_point C) (hex_encode img) = Ok img"
    and less: "c ! 0 < curve_order" "\<forall>i<length ring. s ! i < curve_order"
    and sig: "sig = \<lparr>rs_key_image = hex_encode img, rs_c0 = hex_encode (scalar_bytes (c ! 0)), rs_s = map (hex_encode \<circ> scalar_bytes) s\<rparr>"
  shows "\<exists>hps. collect_ok hp ring = Ok hps \<and> verify_with sha C \<lparr>rg_keys = ring, rg_hps = hps, rg_hash = rh\<rparr> m sig = Ok img"
proof -
  have "\<exists>q. hp p = Ok q" if "p \<in> set ring" for p
    using that link by (fastforce simp: in_set_conv_nth ring_link_def and_then_Ok)
  then obtain hps where hps: "collect_ok hp ring = Ok hps" using collect_ok_all [of ring hp] by blast
  have at: "at hps i Ok = hp (ring ! i)" if "i < length ring" for i
    using hps that by (auto simp: collect_ok_Ok at_def list_all2_conv_all_nth)
  have "fold_ok (\<lambda>(i, p) c. ring_link sha C rh img m p (at hps i Ok) (s ! i) c) (enumerate 0 ring) (c ! 0) = Ok (c ! 0)"
    using ring(1) by (intro ring_walk) (auto simp: link at)
  moreover have "collect_ok scalar_from_hex (rs_s sig) = Ok s"
    using ring(2) less(2) by (auto simp: sig collect_ok_Ok list_all2_conv_all_nth scalar_hex_round_trip)
  moreover have "scalar_from_hex (rs_c0 sig) = Ok (c ! 0)" using less(1) by (simp add: sig scalar_hex_round_trip)
  ultimately show ?thesis using hps ring img by (auto simp: verify_with_def sig)
qed

lemma sign_core_verifies:
  assumes laws: "secp_laws C" and hp: "\<And>p q. hp p = Ok q \<Longrightarrow> s_point C q"
    and x: "x < curve_order" and sign: "sign_core sha C ring x m aux hp rh = Ok sig"
  shows "\<exists>hps. collect_ok hp ring = Ok hps \<and> verify_with sha C \<lparr>rg_keys = ring, rg_hps = hps, rg_hash = rh\<rparr> m sig = image_by hp C x \<and>
    (\<exists>img. image_by hp C x = Ok img \<and> rs_key_image sig = hex_encode img)"
proof -
  let ?n = "length ring" and ?xb = "scalar_bytes x"
  from sign obtain pk j h img a l r first c s where
    pk: "s_mul C x (s_base C) = Some pk" and j: "position (\<lambda>p. p = pk) ring = Some j" and h: "hp pk = Ok h" and img: "s_mul C x h = Some img"
    and a: "a < curve_order" and l: "s_mul C a (s_base C) = Some l" and r: "s_mul C a h = Some r" and first: "challenge sha rh img m l r = Ok first"
    and turns: "fold_ok (ring_turn sha C hp rh img m aux ?xb ring) (map (\<lambda>k. (j + k) mod ?n) [1..<?n]) ((replicate ?n 0)[(j + 1) mod ?n := first], replicate ?n 0) = Ok (c, s)"
    and sig: "sig = \<lparr>rs_key_image = hex_encode img, rs_c0 = hex_encode (scalar_bytes (c ! 0)), rs_s = map (hex_encode \<circ> scalar_bytes) (s[j := scalar_sub a (c ! j * x mod curve_order)])\<rparr>"
    unfolding sign_core_def Let_def
    by (auto simp: and_then_Ok some_or_Ok some_or_abort_Ok point_mul_def split: prod.splits dest: derive_scalar_less)
  have jn: "j < ?n" "ring ! j = pk" using position_Some [OF j] by auto
  hence ne: "ring \<noteq> []" by auto
  let ?s = "s[j := scalar_sub a (c ! j * x mod curve_order)]"
  have len: "length c = ?n" "length s = ?n" and start: "c ! ((j + 1) mod ?n) = first"
    and less: "\<And>i. i < ?n \<Longrightarrow> c ! i < curve_order" "\<And>i. i < ?n \<Longrightarrow> s ! i < curve_order"
    and turned: "\<And>k. 1 \<le> k \<Longrightarrow> k < ?n \<Longrightarrow> ring_link sha C rh img m (ring ! ((j + k) mod ?n)) (hp (ring ! ((j + k) mod ?n)))
      (s ! ((j + k) mod ?n)) (c ! ((j + k) mod ?n)) = Ok (c ! ((j + Suc k) mod ?n))"
    using ring_turns [OF turns jn(1) challenge_less [OF first]] unfolding Let_def by blast+
  have b: "c ! j * x mod curve_order < curve_order" by (simp add: curve_order_value)
  have link: "ring_link sha C rh img m (ring ! i) (hp (ring ! i)) (?s ! i) (c ! i) = Ok (c ! (Suc i mod ?n))" if "i < ?n" for i
  proof (cases "i = j")
    case True
    show ?thesis using ring_closes [OF laws pk hp [OF h] img l r a less(1) [OF jn(1)] x] start first len(2) h jn True by simp
  next
    case False
    from wrap_cases [OF that jn(1) False] obtain k where k: "1 \<le> k" "k < ?n" "i = (j + k) mod ?n" by blast
    have "(j + Suc k) mod ?n = Suc i mod ?n" using k(3) by (simp add: mod_Suc_eq)
    thus ?thesis using turned [OF k(1,2)] False by (simp add: k(3) [symmetric])
  qed
  have "point_from_hex (s_point C) (hex_encode img) = Ok img"
    using secp_lawsD(4) [OF laws x hp [OF h] img] secp_lawsD(3) [OF laws] by (auto simp: point_from_hex_def)
  moreover have "\<forall>i<?n. ?s ! i < curve_order" using len(2) less(2) jn(1) scalar_sub_add(1) [OF a b] by (auto simp: nth_list_update)
  moreover have "image_by hp C x = Ok img" using pk h img by (simp add: image_by_def point_mul_def)
  ultimately show ?thesis using linked_verifies [OF link ne _ _ less(1) _ sig] len(2) ne sig by auto
qed

lemma hash_to_points:
  assumes "secp_laws C"
  shows "hash_to_point sha C p = Ok q \<Longrightarrow> s_point C q" and "hash_to_point_tagged sha C tag p = Ok q \<Longrightarrow> s_point C q"
  unfolding hash_to_point_def hash_to_point_tagged_def by (auto dest!: first_counter_value secp_lawsD(2) [OF assms])

lemma ring_sign_verifies:
  assumes "secp_laws C" and "x < curve_order"
  shows "ring_sign sha C ring x m aux = Ok sig \<Longrightarrow>
      \<exists>img. key_image sha C x = Ok img \<and> rs_key_image sig = hex_encode img \<and> ring_verify sha C ring m sig = Ok img"
    and "ring_sign_tagged sha C ring x m aux tag = Ok sig \<Longrightarrow>
      \<exists>img. key_image_tagged sha C x tag = Ok img \<and> rs_key_image sig = hex_encode img \<and> ring_verify_tagged sha C ring m sig tag = Ok img"
  using sign_core_verifies [OF assms(1) hash_to_points(1) [OF assms(1)] assms(2)] sign_core_verifies [OF assms(1) hash_to_points(2) [OF assms(1)] assms(2)]
  by (fastforce simp: ring_sign_def ring_sign_tagged_def and_then_Ok key_image_def key_image_tagged_def ring_verify_def ring_new_def
    ring_verify_tagged_def ring_new_tagged_def)+

section \<open>A curve for examples\<close>

text \<open>The numbers below the order under addition, a number as a byte 2 and its 32 bytes.\<close>

definition enc_point :: "nat \<Rightarrow> bytes" where
  "enc_point k = 2 # hash_bytes (of_nat k)"

definition dec_point :: "bytes \<Rightarrow> nat" where
  "dec_point p = unat (bytes_hash (tl p))"

definition mod_point :: "nat \<Rightarrow> bytes option" where
  "mod_point k = (if k mod curve_order = 0 then None else Some (enc_point (k mod curve_order)))"

definition add_group :: secp_ops where
  "add_group =
     \<lparr>s_mul = (\<lambda>x p. mod_point (x * dec_point p)),
      s_add = (\<lambda>a b. mod_point ((case a of None \<Rightarrow> 0 | Some p \<Rightarrow> dec_point p) + (case b of None \<Rightarrow> 0 | Some p \<Rightarrow> dec_point p))),
      s_base = enc_point 3,
      s_lift = (\<lambda>h. map_option enc_point (nonzero_scalar h)),
      s_point = (\<lambda>p. length p = 33 \<and> hd p = 2 \<and> 0 < dec_point p \<and> dec_point p < curve_order)\<rparr>"

lemma add_group_fields [simp]:
  "s_mul add_group x p = mod_point (x * dec_point p)" "s_base add_group = enc_point 3"
  "s_add add_group a b = mod_point ((case a of None \<Rightarrow> 0 | Some p \<Rightarrow> dec_point p) + (case b of None \<Rightarrow> 0 | Some p \<Rightarrow> dec_point p))"
  "s_lift add_group h = map_option enc_point (nonzero_scalar h)"
  "s_point add_group p \<longleftrightarrow> length p = 33 \<and> hd p = 2 \<and> 0 < dec_point p \<and> dec_point p < curve_order"
  by (simp_all add: add_group_def)

lemma dec_enc: "k < curve_order \<Longrightarrow> dec_point (enc_point k) = k"
  by (simp add: dec_point_def enc_point_def unsigned_of_nat take_bit_nat_eq_self curve_order_value)

lemma dec_mod_point: "(case mod_point k of None \<Rightarrow> 0 | Some p \<Rightarrow> dec_point p) = k mod curve_order"
  by (simp add: mod_point_def dec_enc curve_order_value)

lemma enc_point_valid: "0 < k \<Longrightarrow> k < curve_order \<Longrightarrow> s_point add_group (enc_point k)"
  by (simp add: dec_enc) (simp add: enc_point_def)

lemma mod_point_cong: "a mod curve_order = b mod curve_order \<Longrightarrow> mod_point a = mod_point b"
  by (simp add: mod_point_def)

lemma add_group_laws: "secp_laws add_group"
proof -
  have mul: "s_point add_group q \<and> (\<forall>c<curve_order. s_mul add_group c q = s_mul add_group (c * x mod curve_order) p)"
    if "s_mul add_group x p = Some q" for x p q
  proof -
    from that have pos: "0 < x * dec_point p mod curve_order" and q: "q = enc_point (x * dec_point p mod curve_order)"
      by (auto simp: mod_point_def split: if_splits)
    have less: "x * dec_point p mod curve_order < curve_order" by (simp add: curve_order_value)
    have "s_mul add_group c q = s_mul add_group (c * x mod curve_order) p" for c
      unfolding q by (simp add: dec_enc [OF less]) (rule mod_point_cong, simp add: mod_simps mult.assoc)
    thus ?thesis using enc_point_valid [OF pos less] q by blast
  qed
  have add: "s_add add_group (s_mul add_group s p) (s_mul add_group t p) = s_mul add_group ((s + t) mod curve_order) p" for s t p
    by (simp add: dec_mod_point) (rule mod_point_cong, simp add: mod_simps algebra_simps)
  have "s_point add_group p" if "s_lift add_group h = Some p" for h p
    using that enc_point_valid [of "unat h"] by (auto simp: nonzero_scalar_def word_less_nat_alt unat_gt_0 split: if_splits)
  moreover have "s_point add_group (s_base add_group)" using enc_point_valid [of 3] by (simp add: curve_order_value)
  moreover have "length p = 33 \<and> (hd p = 2 \<or> hd p = 3)" if "s_point add_group p" for p using that by simp
  ultimately show ?thesis unfolding secp_laws_def using mul add by blast
qed

section \<open>Properties\<close>

text \<open>C37: The reduction of a 256-bit hash to a scalar, computed from bit complements so that no number reaches the curve order,
  never panics and is the hash modulo the order.\<close>

theorem reduction_is_modular: "reduce_from z = Ok (unat z mod curve_order)"
  by (rule reduce_from_mod)

text \<open>C11: A ring signature verifies under its ring and message, with a tag or without, and both sides agree on the key image:
  it is the image of the signing key, whatever the message, the ring and the random bytes, so two signatures by one key
  show the same image.\<close>

theorem ring_signature_verifies:
  assumes "secp_laws C" and "x < curve_order"
  shows "(ring_sign sha C ring x m aux = Ok sig \<longrightarrow>
      (\<exists>img. key_image sha C x = Ok img \<and> rs_key_image sig = hex_encode img \<and> ring_verify sha C ring m sig = Ok img)) \<and>
    (ring_sign_tagged sha C ring x m aux tag = Ok sig \<longrightarrow>
      (\<exists>img. key_image_tagged sha C x tag = Ok img \<and> rs_key_image sig = hex_encode img \<and> ring_verify_tagged sha C ring m sig tag = Ok img))"
  using ring_sign_verifies [OF assms] by blast

text \<open>Two members, the first of whom signs; every hash is 5.\<close>

definition example_ring_sig :: ring_sig where
  "example_ring_sig =
     \<lparr>rs_key_image = hex_encode (enc_point 10), rs_c0 = hex_encode (scalar_bytes 5), rs_s = map (hex_encode \<circ> scalar_bytes) [curve_order - 5, 5]\<rparr>"

lemma hash_bytes_small:
  assumes "k < 256"
  shows "hash_bytes (of_nat k) = replicate 31 0 @ [of_nat k]"
proof -
  have "k < 256 ^ Suc i" for i using assms by (simp add: less_le_trans [of k 256])
  hence zero: "k div 256 ^ (31 - i) = 0" if "i < 31" for i using that by (metis Suc_diff_Suc div_less)
  have "unat (of_nat k :: hash256) = k" using assms by (simp add: unsigned_of_nat take_bit_nat_eq_self)
  moreover have "[0..<32] = [0..<31] @ [31]" using upt_Suc_append [of 0 31] by simp
  moreover have "map (\<lambda>i. of_nat (k div 256 ^ (31 - i) mod 256) :: u8) [0..<31] = replicate 31 0"
    by (rule nth_equalityI) (simp_all add: zero)
  ultimately show ?thesis using assms by (simp add: hash_bytes_def)
qed

lemma enc_points_sorted: "enc_point 6 < enc_point 7"
  using hash_bytes_small [of 6] hash_bytes_small [of 7] by (simp add: enc_point_def list_less_def lexord_append_leftI)

lemma example_ring_signs: "ring_sign (\<lambda>_. 5) add_group [enc_point 6, enc_point 7] 2 m aux = Ok example_ring_sig"
proof -
  have 5: "first_counter (\<lambda>i. nonzero_scalar 5) 0 = Ok 5" "first_counter (\<lambda>i. map_option enc_point (nonzero_scalar 5)) 0 = Ok (enc_point 5)"
    by (simp_all add: first_counter.simps nonzero_scalar_def CURVE_ORDER_def)
  have dec: "dec_point (enc_point 3) = 3" "dec_point (enc_point 5) = 5" "dec_point (enc_point 7) = 7" "dec_point (enc_point 10) = 10"
    by (simp_all add: dec_enc curve_order_value)
  have ring: "check_ring [enc_point 6, enc_point 7] = Ok ()" by (simp add: check_ring_def enc_points_sorted)
  have hash: "tagged_hash (\<lambda>_. 5) tag parts = 5" for tag parts by (simp add: tagged_hash_def Let_def)
  have scalars: "derive_scalar (\<lambda>_. 5) tag parts = Ok 5" "challenge (\<lambda>_. 5) rh img m l r = Ok 5" "hash_to_point (\<lambda>_. 5) add_group p = Ok (enc_point 5)"
    for tag parts rh img m l r p
    by (simp_all add: derive_scalar_def challenge_def hash_to_point_def hash 5 reduce_from_mod curve_order_value del: first_counter.simps)
  have mul: "point_mul add_group 2 (enc_point 3) = Ok (enc_point 6)" "point_mul add_group 2 (enc_point 5) = Ok (enc_point 10)"
    "point_mul add_group 5 (enc_point 3) = Ok (enc_point 15)" "point_mul add_group 5 (enc_point 5) = Ok (enc_point 25)"
    by (simp_all add: point_mul_def dec mod_point_def curve_order_value)
  have turn: "ring_turn (\<lambda>_. 5) add_group (hash_to_point (\<lambda>_. 5) add_group) rh (enc_point 10) m aux xb [enc_point 6, enc_point 7] (Suc 0) ([0, 5], [0, 0]) = Ok ([5, 5], [0, 5])" for rh xb
    by (simp add: ring_turn_def scalars ring_link_def not_inf_def dec dec_mod_point) (simp add: mod_point_def curve_order_value)
  have "scalar_sub 5 (10 mod curve_order) = curve_order - 5" by (simp add: scalar_sub_def curve_order_value)
  thus ?thesis using turn
    by (simp add: ring_sign_def ring sign_core_def Let_def mul scalars example_ring_sig_def del: add_group_fields(5))
qed

theorem ring_signature_verifies_witness:
  "secp_laws add_group \<and> ring_sign (\<lambda>_. 5) add_group [enc_point 6, enc_point 7] 2 8 9 = Ok example_ring_sig \<and>
   (\<exists>img. key_image (\<lambda>_. 5) add_group 2 = Ok img \<and> ring_verify (\<lambda>_. 5) add_group [enc_point 6, enc_point 7] 8 example_ring_sig = Ok img)"
proof -
  have "2 < curve_order" by (simp add: curve_order_value)
  from ring_signature_verifies [OF add_group_laws this, of "\<lambda>_. 5" "[enc_point 6, enc_point 7]" 8 9 example_ring_sig]
  show ?thesis using example_ring_signs add_group_laws by blast
qed

end
