(* ===== verification/Pool_Funding.thy ===== *)
theory Pool_Funding
  imports Pool_Sign
begin

text \<open>
  Ownership proofs and the signatures of a pool's funding inputs (\<open>patches/joinstr-v2/src/funding.rs\<close>), for taproot and
  segwit version 0 coins, with the signature hash of the latter (\<open>vendor/bitcoin/src/crypto/sighash.rs\<close>). The
  signature schemes of the secp256k1 crate, the taproot tweak and HASH160 are the fields of an argument \<open>Q\<close>.
\<close>

section \<open>The signature hash of segwit version 0\<close>

datatype ecdsa_sighash_type = EcAll | EcNone | EcSingle | EcAllAnyone | EcNoneAnyone | EcSingleAnyone

fun ecdsa_type_byte :: "ecdsa_sighash_type \<Rightarrow> u8" where
  "ecdsa_type_byte EcAll = 0x01"
| "ecdsa_type_byte EcNone = 0x02"
| "ecdsa_type_byte EcSingle = 0x03"
| "ecdsa_type_byte EcAllAnyone = 0x81"
| "ecdsa_type_byte EcNoneAnyone = 0x82"
| "ecdsa_type_byte EcSingleAnyone = 0x83"

fun ecdsa_split :: "ecdsa_sighash_type \<Rightarrow> ecdsa_sighash_type \<times> bool" where
  "ecdsa_split EcAllAnyone = (EcAll, True)"
| "ecdsa_split EcNoneAnyone = (EcNone, True)"
| "ecdsa_split EcSingleAnyone = (EcSingle, True)"
| "ecdsa_split t = (t, False)"

definition from_standard :: "u8 \<Rightarrow> ecdsa_sighash_type outcome" where
  "from_standard b =
     some_or ''non standard sighash type''
       (List.find (\<lambda>t. ecdsa_type_byte t = b) [EcAll, EcNone, EcSingle, EcAllAnyone, EcNoneAnyone, EcSingleAnyone]) Ok"

definition p2wpkh_script_code :: "script_buf \<Rightarrow> script_buf option" where
  "p2wpkh_script_code s = (if is_p2wpkh s then Some ([0x76, 0xA9, 0x14] @ drop 2 s @ [0x88, 0xAC]) else None)"

text \<open>Hashes of this version are hashed again.\<close>

definition again :: "sha256 \<Rightarrow> bytes \<Rightarrow> bytes" where
  "again sha h = hash_bytes (sha h)"

definition segwit_v0_signing_data ::
  "sha256 \<Rightarrow> transaction \<Rightarrow> nat \<Rightarrow> script_buf \<Rightarrow> nat \<Rightarrow> ecdsa_sighash_type \<Rightarrow> bytes outcome" where
  "segwit_v0_signing_data sha tx i script_code amount ty =
     (let (base, anyone) = ecdsa_split ty; zero = replicate 32 0;
          spent = (if anyone then zero else again sha (sha_prevouts sha tx));
          sequences = (if \<not> anyone \<and> base \<noteq> EcSingle \<and> base \<noteq> EcNone then again sha (sha_sequences sha tx) else zero);
          outputs = (if base \<noteq> EcSingle \<and> base \<noteq> EcNone then again sha (sha_outputs sha tx)
                     else if base = EcSingle \<and> i < length (tx_output tx) then again sha (hash_bytes (sha (ser_txout (tx_output tx ! i))))
                     else zero)
      in ensure (i < length (tx_input tx)) ''InputsIndex'' (
         Ok (u32_le_bytes (tx_version tx) @ spent @ sequences @ ser_outpoint (previous_output (tx_input tx ! i)) @ ser_script script_code @
             u64_le_bytes amount @ u32_le_bytes (unat (ti_sequence (tx_input tx ! i))) @ outputs @ u32_le_bytes (unat (tx_lock_time tx)) @
             u32_le_bytes (unat (ecdsa_type_byte ty)))))"

definition p2wpkh_signature_hash ::
  "sha256 \<Rightarrow> transaction \<Rightarrow> nat \<Rightarrow> script_buf \<Rightarrow> nat \<Rightarrow> ecdsa_sighash_type \<Rightarrow> hash256 outcome" where
  "p2wpkh_signature_hash sha tx i script amount ty =
     some_or ''NotP2wpkhScript'' (p2wpkh_script_code script) (\<lambda>code.
     and_then (segwit_v0_signing_data sha tx i code amount ty) (\<lambda>d. Ok (sha (hash_bytes (sha d)))))"

section \<open>Proofs and signatures\<close>

record coin_ops =
  q_pub :: "bytes \<Rightarrow> bytes"
  q_tweak :: "bytes \<Rightarrow> bytes"
  q_xonly :: "bytes \<Rightarrow> bytes"
  q_schnorr :: "hash256 \<Rightarrow> bytes \<Rightarrow> hash256 \<Rightarrow> bytes"
  q_schnorr_ok :: "bytes \<Rightarrow> hash256 \<Rightarrow> bytes \<Rightarrow> bool"
  q_ecdsa :: "hash256 \<Rightarrow> bytes \<Rightarrow> bytes"
  q_ecdsa_ok :: "hash256 \<Rightarrow> bytes \<Rightarrow> bytes \<Rightarrow> bool"
  q_der_ok :: "bytes \<Rightarrow> bool"
  q_xonly_ok :: "bytes \<Rightarrow> bool"
  q_pub_ok :: "bytes \<Rightarrow> bool"
  q_hash160 :: "bytes \<Rightarrow> bytes"

definition p2tr_output_key :: "coin_ops \<Rightarrow> script_buf \<Rightarrow> bytes outcome" where
  "p2tr_output_key Q spk =
     (if length spk < 34 then Abort
      else let k = take 32 (drop 2 spk) in ensure (q_xonly_ok Q k) ''malformed public key'' (Ok k))"

definition prove :: "coin_ops \<Rightarrow> bytes \<Rightarrow> script_buf \<Rightarrow> hash256 \<Rightarrow> hash256 \<Rightarrow> proof_msg outcome" where
  "prove Q sk spk msg aux =
     (if is_p2tr spk then Ok \<lparr>pf_sig = hex_encode (q_schnorr Q msg (q_tweak Q sk) aux), pf_pubkey = None\<rparr>
      else if is_p2wpkh spk then Ok \<lparr>pf_sig = hex_encode (q_ecdsa Q msg sk), pf_pubkey = Some (hex_encode (q_pub Q sk))\<rparr>
      else Err ''unsupported input type'')"

definition p2wpkh_pubkey :: "coin_ops \<Rightarrow> script_buf \<Rightarrow> bytes \<Rightarrow> bytes outcome" where
  "p2wpkh_pubkey Q spk pubkey =
     ensure (length pubkey = 33 \<and> q_pub_ok Q pubkey) ''malformed public key'' (
     ensure ([0x00, 0x14] @ q_hash160 Q pubkey = spk) ''public key does not match the P2WPKH program'' (Ok pubkey))"

definition verify_proof :: "coin_ops \<Rightarrow> script_buf \<Rightarrow> hash256 \<Rightarrow> proof_msg \<Rightarrow> unit outcome" where
  "verify_proof Q spk msg pf =
     and_then (if is_p2tr spk then strict_hex (pf_sig pf) 64 else strict_hex_range (pf_sig pf) 8 72) (\<lambda>sig.
     if is_p2tr spk then
       and_then (p2tr_output_key Q spk) (\<lambda>k. ensure (q_schnorr_ok Q sig msg k) ''invalid ownership proof'' (Ok ()))
     else if is_p2wpkh spk then
       and_then (strict_hex (case pf_pubkey pf of Some p \<Rightarrow> p | None \<Rightarrow> []) 33) (\<lambda>pub.
       and_then (p2wpkh_pubkey Q spk pub) (\<lambda>pk.
       ensure (q_der_ok Q sig) ''malformed signature'' (
       ensure (q_ecdsa_ok Q msg sig pk) ''invalid ownership proof'' (Ok ()))))
     else Err ''unsupported input type'')"

definition sign_input :: "sha256 \<Rightarrow> coin_ops \<Rightarrow> transaction \<Rightarrow> nat \<Rightarrow> txout list \<Rightarrow> bytes \<Rightarrow> hash256 \<Rightarrow> bytes list outcome" where
  "sign_input sha Q tx i spent sk aux =
     at spent i (\<lambda>out.
       if is_p2tr (to_script out) then
         and_then (key_spend_sighash sha tx i (PrevoutsAll spent) SighashDefault) (\<lambda>h. Ok [q_schnorr Q h (q_tweak Q sk) aux])
       else if is_p2wpkh (to_script out) then
         and_then (p2wpkh_signature_hash sha tx i (to_script out) (to_value out) EcAll) (\<lambda>h.
         Ok [q_ecdsa Q h sk @ [ecdsa_type_byte EcAll], q_pub Q sk])
       else Err ''unsupported input type'')"

definition ecdsa_from_slice :: "coin_ops \<Rightarrow> bytes \<Rightarrow> (bytes \<times> ecdsa_sighash_type) outcome" where
  "ecdsa_from_slice Q sl =
     ensure (sl \<noteq> []) ''empty signature'' (
     and_then (from_standard (last sl)) (\<lambda>ty.
     ensure (q_der_ok Q (butlast sl)) ''malformed signature'' (Ok (butlast sl, ty))))"

definition verify_input :: "sha256 \<Rightarrow> coin_ops \<Rightarrow> transaction \<Rightarrow> nat \<Rightarrow> txout list \<Rightarrow> bytes list \<Rightarrow> unit outcome" where
  "verify_input sha Q tx i spent witness =
     at spent i (\<lambda>out.
       if is_p2tr (to_script out) then
         ensure (length witness = 1 \<and> length (witness ! 0) = 64) ''P2TR witness must be one 64 byte signature'' (
         and_then (key_spend_sighash sha tx i (PrevoutsAll spent) SighashDefault) (\<lambda>h.
         and_then (p2tr_output_key Q (to_script out)) (\<lambda>k.
         ensure (q_schnorr_ok Q (witness ! 0) h k) ''invalid P2TR funding signature'' (Ok ()))))
       else if is_p2wpkh (to_script out) then
         ensure (length witness = 2) ''P2WPKH witness must have two items'' (
         and_then (ecdsa_from_slice Q (witness ! 0)) (\<lambda>(sig, ty).
         ensure (ty = EcAll) ''funding signatures must use SIGHASH_ALL'' (
         and_then (p2wpkh_pubkey Q (to_script out) (witness ! 1)) (\<lambda>pk.
         and_then (p2wpkh_signature_hash sha tx i (to_script out) (to_value out) EcAll) (\<lambda>h.
         ensure (q_ecdsa_ok Q h sig pk) ''invalid P2WPKH funding signature'' (Ok ()))))))
       else Err ''unsupported input type'')"

section \<open>Own coins are proved and signed\<close>

text \<open>What is relied on of the schemes: keys and signatures have their lengths and parse, and a signature made with a secret
  key verifies under its public key.\<close>

definition coin_laws :: "coin_ops \<Rightarrow> bool" where
  "coin_laws Q \<longleftrightarrow>
     (\<forall>sk. length (q_pub Q sk) = 33 \<and> q_pub_ok Q (q_pub Q sk) \<and> length (q_hash160 Q (q_pub Q sk)) = 20) \<and>
     (\<forall>kp. length (q_xonly Q kp) = 32 \<and> q_xonly_ok Q (q_xonly Q kp)) \<and>
     (\<forall>m kp aux. length (q_schnorr Q m kp aux) = 64 \<and> q_schnorr_ok Q (q_schnorr Q m kp aux) m (q_xonly Q kp)) \<and>
     (\<forall>m sk. 8 \<le> length (q_ecdsa Q m sk) \<and> length (q_ecdsa Q m sk) \<le> 72 \<and> q_der_ok Q (q_ecdsa Q m sk) \<and>
        q_ecdsa_ok Q m (q_ecdsa Q m sk) (q_pub Q sk))"

definition coin_of_key :: "coin_ops \<Rightarrow> bytes \<Rightarrow> script_buf \<Rightarrow> bool" where
  "coin_of_key Q sk spk \<longleftrightarrow> spk = [0x51, 0x20] @ q_xonly Q (q_tweak Q sk) \<or> spk = [0x00, 0x14] @ q_hash160 Q (q_pub Q sk)"

lemma coin_scripts:
  assumes "coin_laws Q"
  shows "is_p2tr ([0x51, 0x20] @ q_xonly Q kp)" and "is_p2wpkh ([0x00, 0x14] @ q_hash160 Q (q_pub Q sk))" and "\<not> is_p2tr ([0x00, 0x14] @ s)"
  using assms by (auto simp: coin_laws_def is_p2tr_def is_p2wpkh_def)

lemma own_proof_verifies:
  assumes "coin_laws Q" and "coin_of_key Q sk spk"
  shows "\<exists>pf. prove Q sk spk m aux = Ok pf \<and> verify_proof Q spk m pf = Ok ()"
proof -
  consider (tr) "spk = [0x51, 0x20] @ q_xonly Q (q_tweak Q sk)" | (wpkh) "spk = [0x00, 0x14] @ q_hash160 Q (q_pub Q sk)"
    using assms(2) by (auto simp: coin_of_key_def)
  thus ?thesis
  proof cases
    case tr
    have "is_p2tr spk" unfolding tr by (rule coin_scripts(1) [OF assms(1)])
    thus ?thesis using assms(1) by (simp add: prove_def verify_proof_def p2tr_output_key_def tr coin_laws_def)
  next
    case wpkh
    have "is_p2wpkh spk" "\<not> is_p2tr spk" unfolding wpkh by (rule coin_scripts(2,3) [OF assms(1)])+
    thus ?thesis using assms(1) by (simp add: prove_def verify_proof_def p2wpkh_pubkey_def wpkh coin_laws_def strict_hex_range_def not_less)
  qed
qed

lemma key_spend_exists:
  assumes "length spent = length (tx_input tx)"
  shows "\<exists>h. key_spend_sighash sha tx i (PrevoutsAll spent) SighashDefault = Ok h"
  using assms by (simp add: key_spend_sighash_def taproot_signing_data_def sighash_common_def prevouts_all_def sighash_input_def)

lemma own_input_verifies:
  assumes "coin_laws Q" and "coin_of_key Q sk (to_script (spent ! i))" and "i < length (tx_input tx)" and "length spent = length (tx_input tx)"
  shows "\<exists>w. sign_input sha Q tx i spent sk aux = Ok w \<and> verify_input sha Q tx i spent w = Ok ()"
proof -
  let ?spk = "to_script (spent ! i)"
  have i: "i < length spent" using assms(3,4) by simp
  consider (tr) "?spk = [0x51, 0x20] @ q_xonly Q (q_tweak Q sk)" | (wpkh) "?spk = [0x00, 0x14] @ q_hash160 Q (q_pub Q sk)"
    using assms(2) by (auto simp: coin_of_key_def)
  thus ?thesis
  proof cases
    case tr
    have "is_p2tr ?spk" unfolding tr by (rule coin_scripts(1) [OF assms(1)])
    thus ?thesis using assms(1) i key_spend_exists [OF assms(4), of sha i]
      by (auto simp: sign_input_def verify_input_def p2tr_output_key_def tr coin_laws_def)
  next
    case wpkh
    have "is_p2wpkh ?spk" "\<not> is_p2tr ?spk" unfolding wpkh by (rule coin_scripts(2,3) [OF assms(1)])+
    then obtain h where h: "p2wpkh_signature_hash sha tx i ?spk (to_value (spent ! i)) EcAll = Ok h"
      using assms(3) by (simp add: p2wpkh_signature_hash_def p2wpkh_script_code_def segwit_v0_signing_data_def Let_def)
    have standard: "from_standard 1 = Ok EcAll" by (simp add: from_standard_def)
    have pub: "p2wpkh_pubkey Q ?spk (q_pub Q sk) = Ok (q_pub Q sk)" using assms(1) wpkh by (simp add: p2wpkh_pubkey_def coin_laws_def)
    have "q_der_ok Q (q_ecdsa Q h sk)" "q_ecdsa_ok Q h (q_ecdsa Q h sk) (q_pub Q sk)" using assms(1) by (auto simp: coin_laws_def)
    thus ?thesis using i \<open>is_p2wpkh ?spk\<close> \<open>\<not> is_p2tr ?spk\<close> h standard pub
      by (simp add: sign_input_def verify_input_def ecdsa_from_slice_def)
  qed
qed

section \<open>Encodings, read from the front\<close>

lemma le_bytes_inj:
  assumes "map (\<lambda>i. of_nat (n div 256 ^ i mod 256) :: u8) [0..<k] = map (\<lambda>i. of_nat (m div 256 ^ i mod 256)) [0..<k]"
  shows "n mod 256 ^ k = m mod 256 ^ k"
  using assms
proof (induction k)
  case (Suc k)
  have byte: "unat (of_nat (x mod 256) :: u8) = x mod 256" for x by (simp add: unsigned_of_nat take_bit_eq_mod)
  from Suc.prems have IH: "n mod 256 ^ k = m mod 256 ^ k" and "of_nat (n div 256 ^ k mod 256) = (of_nat (m div 256 ^ k mod 256) :: u8)"
    using Suc.IH by simp_all
  hence "n div 256 ^ k mod 256 = m div 256 ^ k mod 256" by (metis byte)
  thus ?case using IH by (simp only: power_Suc2 mod_mult2_eq)
qed simp

lemma le_lengths [simp]: "length (u32_le_bytes n) = 4" "length (u64_le_bytes n) = 8"
  by (simp_all add: u32_le_bytes_def u64_le_bytes_def)

lemma var_int_parts:
  "var_int n = of_nat (if n \<le> 252 then n else if n \<le> 65535 then 253 else if n \<le> 4294967295 then 254 else 255) #
     map (\<lambda>i. of_nat (n div 256 ^ i mod 256)) [0..<(if n \<le> 252 then 0 else if n \<le> 65535 then 2 else if n \<le> 4294967295 then 4 else 8)]"
  by (simp add: var_int_def u32_le_bytes_def u64_le_bytes_def)

lemma var_int_front:
  assumes "var_int n @ xs = var_int m @ ys" and "n < 2 ^ 64" and "m < 2 ^ 64"
  shows "n = m \<and> xs = ys"
proof -
  define kind where "kind n = (if n \<le> 252 then n else if n \<le> 65535 then 253 else if n \<le> 4294967295 then 254 else 255)" for n :: nat
  define size where "size n = (if n \<le> 252 then 0 else if n \<le> 65535 then 2 else if n \<le> 4294967295 then 4 else 8 :: nat)" for n :: nat
  let ?bytes = "\<lambda>n. map (\<lambda>i. of_nat (n div 256 ^ i mod 256) :: u8) [0..<size n]"
  have byte: "unat (of_nat (kind x) :: u8) = kind x" for x by (auto simp: kind_def unsigned_of_nat take_bit_nat_eq_self)
  from assms(1) have "of_nat (kind n) = (of_nat (kind m) :: u8)" and tail: "?bytes n @ xs = ?bytes m @ ys"
    unfolding var_int_parts kind_def size_def by simp_all
  hence kinds: "kind n = kind m" by (metis byte)
  hence sizes: "size n = size m" by (auto simp: kind_def size_def split: if_splits)
  hence "?bytes n = ?bytes m" "xs = ys" using tail by simp_all
  hence "n mod 256 ^ size n = m mod 256 ^ size n" using le_bytes_inj [of n "size n" m] sizes by simp
  thus ?thesis using kinds sizes \<open>xs = ys\<close> assms(2,3) by (auto simp: kind_def size_def split: if_splits)
qed

lemma ser_txout_front:
  assumes "ser_txout a @ xs = ser_txout b @ ys" and "length (to_script a) < 2 ^ 64" and "length (to_script b) < 2 ^ 64"
  shows "ser_txout a = ser_txout b"
proof -
  from assms(1) have "u64_le_bytes (to_value a) = u64_le_bytes (to_value b)" and
    "var_int (length (to_script a)) @ to_script a @ xs = var_int (length (to_script b)) @ to_script b @ ys"
    by (simp_all add: ser_txout_def ser_script_def)
  with var_int_front [OF this(2) assms(2,3)] show ?thesis by (auto simp: ser_txout_def ser_script_def)
qed

lemma concat_map_front:
  assumes "concat (map f xs) = concat (map f ys)"
    and "\<And>x y us vs. x \<in> set xs \<Longrightarrow> y \<in> set ys \<Longrightarrow> f x @ us = f y @ vs \<Longrightarrow> f x = f y" and "\<And>x. f x \<noteq> []"
  shows "map f xs = map f ys"
  using assms(1,2)
proof (induction xs arbitrary: ys)
  case Nil
  thus ?case using assms(3) by (cases ys) auto
next
  case (Cons x xs)
  then obtain y ys' where ys: "ys = y # ys'" using assms(3) by (cases ys) auto
  have "f x = f y" using Cons.prems(1) Cons.prems(2) [of x y "concat (map f xs)" "concat (map f ys')"] by (simp add: ys)
  thus ?case using Cons.IH [of ys'] Cons.prems by (simp add: ys)
qed

section \<open>What a funding signature fixes\<close>

text \<open>The hash a funding input's signature is checked against, and the strings that are hashed on the way to it.\<close>

definition funding_hash :: "sha256 \<Rightarrow> transaction \<Rightarrow> nat \<Rightarrow> txout list \<Rightarrow> hash256 outcome" where
  "funding_hash sha tx i spent =
     (let out = spent ! i
      in if is_p2tr (to_script out) then key_spend_sighash sha tx i (PrevoutsAll spent) SighashDefault
         else p2wpkh_signature_hash sha tx i (to_script out) (to_value out) EcAll)"

definition tap_string :: "sha256 \<Rightarrow> bytes \<Rightarrow> bytes" where
  "tap_string sha d = (let t = hash_bytes (sha (str_bytes ''TapSighash'')) in t @ t @ d)"

definition hashed_strings :: "sha256 \<Rightarrow> transaction \<Rightarrow> nat \<Rightarrow> txout list \<Rightarrow> bytes set" where
  "hashed_strings sha tx i spent =
     {concat (map (ser_outpoint \<circ> previous_output) (tx_input tx)), concat (map (\<lambda>i. u32_le_bytes (unat (ti_sequence i))) (tx_input tx)),
      concat (map ser_txout (tx_output tx)), sha_prevouts sha tx, sha_sequences sha tx, sha_outputs sha tx} \<union>
     {tap_string sha d |d. taproot_signing_data sha tx i (PrevoutsAll spent) None None SighashDefault = Ok d} \<union>
     \<Union> {{d, hash_bytes (sha d)} |d code. p2wpkh_script_code (to_script (spent ! i)) = Some code \<and>
          segwit_v0_signing_data sha tx i code (to_value (spent ! i)) EcAll = Ok d}"

text \<open>A transaction as the pool builds it: no input scripts, output scripts that a length can count.\<close>

definition plain_tx :: "transaction \<Rightarrow> bool" where
  "plain_tx tx \<longleftrightarrow> list_all (\<lambda>i. script_sig i = []) (tx_input tx) \<and> list_all (\<lambda>out. length (to_script out) < 2 ^ 64) (tx_output tx)"

lemma hash_bytes_inj [simp]: "hash_bytes a = hash_bytes b \<longleftrightarrow> a = b"
  by (metis bytes_hash_hash)

lemma ser_outpoint_length [simp]: "length (ser_outpoint op) = 36"
  by (simp add: ser_outpoint_def)

lemma parts_fix_txid:
  assumes "plain_tx tx" and "plain_tx tx'" and inj: "inj_on sha (hashed_strings sha tx i spent \<union> hashed_strings sha tx' i' spent')"
    and "u32_le_bytes (tx_version tx) = u32_le_bytes (tx_version tx')" and "u32_le_bytes (unat (tx_lock_time tx)) = u32_le_bytes (unat (tx_lock_time tx'))"
    and "sha_prevouts sha tx = sha_prevouts sha tx'" and "sha_sequences sha tx = sha_sequences sha tx'" and "sha_outputs sha tx = sha_outputs sha tx'"
  shows "compute_txid sha tx = compute_txid sha tx'"
proof -
  let ?op = "ser_outpoint \<circ> previous_output" and ?seq = "\<lambda>i. u32_le_bytes (unat (ti_sequence i))"
  have hashed: "concat (map ?op (tx_input tx)) = concat (map ?op (tx_input tx'))" "concat (map ?seq (tx_input tx)) = concat (map ?seq (tx_input tx'))"
    "concat (map ser_txout (tx_output tx)) = concat (map ser_txout (tx_output tx'))"
    using assms(6-8) by (auto simp: sha_prevouts_def sha_sequences_def sha_outputs_def hashed_strings_def intro!: inj_onD [OF inj])
  have ops: "map ?op (tx_input tx) = map ?op (tx_input tx')"
    by (rule concat_map_front [OF hashed(1)]) (auto simp: append_eq_append_conv simp flip: length_0_conv)
  have seqs: "map ?seq (tx_input tx) = map ?seq (tx_input tx')"
    by (rule concat_map_front [OF hashed(2)]) (auto simp: append_eq_append_conv simp flip: length_0_conv)
  have outs: "map ser_txout (tx_output tx) = map ser_txout (tx_output tx')"
  proof (rule concat_map_front [OF hashed(3)])
    fix x y us vs
    assume "x \<in> set (tx_output tx)" "y \<in> set (tx_output tx')" "ser_txout x @ us = ser_txout y @ vs"
    thus "ser_txout x = ser_txout y" using assms(1,2) by (intro ser_txout_front) (auto simp: plain_tx_def list_all_iff)
  qed (simp add: ser_txout_def flip: length_0_conv)
  have "map ser_txin (tx_input tx) = map (\<lambda>(a, b). a @ ser_script [] @ b) (zip (map ?op (tx_input tx)) (map ?seq (tx_input tx)))" if "plain_tx tx" for tx
    using that by (auto simp: plain_tx_def list_all_iff ser_txin_def zip_map_map zip_same_conv_map)
  hence "map ser_txin (tx_input tx) = map ser_txin (tx_input tx')" using assms(1,2) ops seqs by simp
  moreover have "length (tx_input tx) = length (tx_input tx')" "length (tx_output tx) = length (tx_output tx')"
    using map_eq_imp_length_eq [OF ops] map_eq_imp_length_eq [OF outs] by simp_all
  ultimately show ?thesis using outs assms(4,5) by (simp add: compute_txid_def ser_vec_def)
qed

lemma tap_data:
  assumes "taproot_signing_data sha tx i (PrevoutsAll spent) None None SighashDefault = Ok d"
  shows "d = [0, 0] @ u32_le_bytes (tx_version tx) @ u32_le_bytes (unat (tx_lock_time tx)) @ sha_prevouts sha tx @ sha_amounts sha spent @
    sha_scripts sha spent @ sha_sequences sha tx @ sha_outputs sha tx @ [0] @ u32_le_bytes i"
  using assms by (auto simp: taproot_signing_data_def sighash_common_def prevouts_all_def sighash_input_def ensure_Ok)

lemma segwit_data:
  assumes "segwit_v0_signing_data sha tx i code v EcAll = Ok d"
  shows "d = u32_le_bytes (tx_version tx) @ again sha (sha_prevouts sha tx) @ again sha (sha_sequences sha tx) @
    ser_outpoint (previous_output (tx_input tx ! i)) @ ser_script code @ u64_le_bytes v @ u32_le_bytes (unat (ti_sequence (tx_input tx ! i))) @
    again sha (sha_outputs sha tx) @ u32_le_bytes (unat (tx_lock_time tx)) @ u32_le_bytes 1"
  using assms by (auto simp: segwit_v0_signing_data_def Let_def ensure_Ok)

lemma sha_lengths [simp]:
  "length (sha_prevouts sha tx) = 32" "length (sha_sequences sha tx) = 32" "length (sha_outputs sha tx) = 32"
  "length (sha_amounts sha outs) = 32" "length (sha_scripts sha outs) = 32" "length (again sha h) = 32"
  by (simp_all add: sha_prevouts_def sha_sequences_def sha_outputs_def sha_amounts_def sha_scripts_def again_def)

text \<open>The last string hashed, for each kind of coin.\<close>

lemma funding_hash_cases:
  assumes "funding_hash sha tx i spent = Ok h"
  obtains (tap) d where "taproot_signing_data sha tx i (PrevoutsAll spent) None None SighashDefault = Ok d" "h = sha (tap_string sha d)"
      "tap_string sha d \<in> hashed_strings sha tx i spent"
    | (segwit) d code where "p2wpkh_script_code (to_script (spent ! i)) = Some code" "segwit_v0_signing_data sha tx i code (to_value (spent ! i)) EcAll = Ok d"
      "h = sha (hash_bytes (sha d))" "{d, hash_bytes (sha d)} \<subseteq> hashed_strings sha tx i spent"
proof (cases "is_p2tr (to_script (spent ! i))")
  case True
  then obtain d where d: "taproot_signing_data sha tx i (PrevoutsAll spent) None None SighashDefault = Ok d" "h = sha (tap_string sha d)"
    using assms by (auto simp: funding_hash_def key_spend_sighash_def and_then_Ok tagged_hash_def tap_string_def Let_def)
  moreover from d(1) have "tap_string sha d \<in> hashed_strings sha tx i spent" unfolding hashed_strings_def by blast
  ultimately show ?thesis by (rule tap)
next
  case False
  then obtain d code where d: "p2wpkh_script_code (to_script (spent ! i)) = Some code"
    "segwit_v0_signing_data sha tx i code (to_value (spent ! i)) EcAll = Ok d" "h = sha (hash_bytes (sha d))"
    using assms by (auto simp: funding_hash_def p2wpkh_signature_hash_def and_then_Ok some_or_Ok Let_def)
  moreover from d(1,2) have "{d, hash_bytes (sha d)} \<subseteq> hashed_strings sha tx i spent" unfolding hashed_strings_def by blast
  ultimately show ?thesis by (rule segwit)
qed

lemma equal_hash_equal_txid:
  assumes plain: "plain_tx tx" "plain_tx tx'" and h: "funding_hash sha tx i spent = Ok h" "funding_hash sha tx' i' spent' = Ok h"
    and inj: "inj_on sha (hashed_strings sha tx i spent \<union> hashed_strings sha tx' i' spent')"
  shows "compute_txid sha tx = compute_txid sha tx'"
proof -
  have long: "tap_string sha d \<noteq> hash_bytes x" for d x
    by (rule notI, drule arg_cong [where f = length]) (simp add: tap_string_def Let_def)
  note unhash = inj_onD [OF inj]
  have member: "sha_prevouts sha tx \<in> hashed_strings sha tx i spent" "sha_sequences sha tx \<in> hashed_strings sha tx i spent"
    "sha_outputs sha tx \<in> hashed_strings sha tx i spent" for tx i spent
    by (simp_all add: hashed_strings_def)
  show ?thesis
    using h(1)
  proof (cases rule: funding_hash_cases)
    case (tap d)
    note tap1 = tap
    show ?thesis using h(2)
    proof (cases rule: funding_hash_cases)
      case (tap d')
      have "tap_string sha d = tap_string sha d'" using tap1(2,3) tap(2,3) by (intro unhash) auto
      hence "d = d'" by (simp add: tap_string_def Let_def)
      thus ?thesis using tap_data [OF tap1(1)] tap_data [OF tap(1)] by (intro parts_fix_txid [OF plain inj]) simp_all
    next
      case (segwit d' code)
      have "tap_string sha d = hash_bytes (sha d')" using tap1(2,3) segwit(3,4) by (intro unhash) auto
      thus ?thesis using long by blast
    qed
  next
    case (segwit d code)
    note seg1 = segwit
    show ?thesis using h(2)
    proof (cases rule: funding_hash_cases)
      case (tap d')
      have "tap_string sha d' = hash_bytes (sha d)" using tap(2,3) seg1(3,4) by (intro unhash) auto
      thus ?thesis using long by blast
    next
      case (segwit d' code')
      have "hash_bytes (sha d) = hash_bytes (sha d')" using seg1(3,4) segwit(3,4) by (intro unhash) auto
      hence "d = d'" using seg1(4) segwit(4) by (intro unhash) auto
      moreover have "length code = length code'" using seg1(1) segwit(1) by (auto simp: p2wpkh_script_code_def is_p2wpkh_def split: if_splits)
      ultimately have "again sha (sha_prevouts sha tx) = again sha (sha_prevouts sha tx')" "again sha (sha_sequences sha tx) = again sha (sha_sequences sha tx')"
        "again sha (sha_outputs sha tx) = again sha (sha_outputs sha tx')" "u32_le_bytes (tx_version tx) = u32_le_bytes (tx_version tx')"
        "u32_le_bytes (unat (tx_lock_time tx)) = u32_le_bytes (unat (tx_lock_time tx'))"
        using segwit_data [OF seg1(2)] segwit_data [OF segwit(2)] by (simp_all add: ser_script_def)
      thus ?thesis using member by (intro parts_fix_txid [OF plain inj]) (auto simp: again_def intro!: unhash)
    qed
  qed
qed

section \<open>Properties\<close>

text \<open>C13: A member can prove and spend its own coins: for a taproot or segwit coin of its key the ownership proof it makes verifies,
  and so does the witness it makes for the coin's input of the funding.\<close>

theorem own_coins_are_proved_and_signed:
  assumes "coin_laws Q" and "coin_of_key Q sk (to_script (spent ! i))" and "i < length (tx_input tx)" and "length spent = length (tx_input tx)"
  shows "(\<exists>pf. prove Q sk (to_script (spent ! i)) m aux = Ok pf \<and> verify_proof Q (to_script (spent ! i)) m pf = Ok ()) \<and>
    (\<exists>w. sign_input sha Q tx i spent sk aux = Ok w \<and> verify_input sha Q tx i spent w = Ok ())"
  using own_proof_verifies [OF assms(1,2)] own_input_verifies [OF assms] by blast

text \<open>C12: An accepted funding signature fixes the funding: it is a signature, by the key of the coin, of a hash that no other
  transaction of another id has, whatever input and spent outputs are claimed for it, unless SHA-256 collides on the
  strings hashed.\<close>

theorem accepted_signature_fixes_txid:
  assumes "verify_input sha Q tx i spent w = Ok ()" and "plain_tx tx"
  shows "\<exists>h. funding_hash sha tx i spent = Ok h \<and>
    (if is_p2tr (to_script (spent ! i)) then q_schnorr_ok Q (w ! 0) h (take 32 (drop 2 (to_script (spent ! i))))
     else [0x00, 0x14] @ q_hash160 Q (w ! 1) = to_script (spent ! i) \<and> q_ecdsa_ok Q h (butlast (w ! 0)) (w ! 1)) \<and>
    (\<forall>tx' i' spent'. plain_tx tx' \<and> funding_hash sha tx' i' spent' = Ok h \<and>
       inj_on sha (hashed_strings sha tx i spent \<union> hashed_strings sha tx' i' spent') \<longrightarrow> compute_txid sha tx' = compute_txid sha tx)"
proof -
  from assms(1) obtain h where h: "funding_hash sha tx i spent = Ok h"
    "if is_p2tr (to_script (spent ! i)) then q_schnorr_ok Q (w ! 0) h (take 32 (drop 2 (to_script (spent ! i))))
     else [0x00, 0x14] @ q_hash160 Q (w ! 1) = to_script (spent ! i) \<and> q_ecdsa_ok Q h (butlast (w ! 0)) (w ! 1)"
    by (auto simp: verify_input_def funding_hash_def at_Ok ensure_Ok and_then_Ok p2tr_output_key_def p2wpkh_pubkey_def ecdsa_from_slice_def Let_def
      split: if_splits)
  moreover have "compute_txid sha tx' = compute_txid sha tx"
    if "plain_tx tx'" "funding_hash sha tx' i' spent' = Ok h" "inj_on sha (hashed_strings sha tx i spent \<union> hashed_strings sha tx' i' spent')" for tx' i' spent'
    using equal_hash_equal_txid [OF assms(2) that(1) h(1) that(2,3)] by simp
  ultimately show ?thesis by blast
qed

text \<open>One taproot and one segwit coin, spent together.\<close>

definition example_coins :: coin_ops where
  "example_coins =
     \<lparr>q_pub = (\<lambda>_. replicate 33 2), q_tweak = (\<lambda>sk. sk), q_xonly = (\<lambda>_. replicate 32 7), q_schnorr = (\<lambda>_ _ _. replicate 64 1),
      q_schnorr_ok = (\<lambda>s _ _. s = replicate 64 1), q_ecdsa = (\<lambda>_ _. replicate 70 1), q_ecdsa_ok = (\<lambda>_ s _. s = replicate 70 1),
      q_der_ok = (\<lambda>s. length s = 70), q_xonly_ok = (\<lambda>_. True), q_pub_ok = (\<lambda>_. True), q_hash160 = (\<lambda>_. replicate 20 3)\<rparr>"

definition example_spent :: "txout list" where
  "example_spent = [\<lparr>to_value = 5000, to_script = [0x51, 0x20] @ replicate 32 7\<rparr>, \<lparr>to_value = 7000, to_script = [0x00, 0x14] @ replicate 20 3\<rparr>]"

definition example_funding :: transaction where
  "example_funding =
     \<lparr>tx_version = 2, tx_lock_time = 0,
      tx_input = map (\<lambda>k. \<lparr>previous_output = (of_nat k, 0), script_sig = [], ti_sequence = 0xFFFFFFFD, ti_witness = []\<rparr>) [8, 9],
      tx_output = [\<lparr>to_value = 11000, to_script = [0x51, 0x20] @ replicate 32 4\<rparr>]\<rparr>"

lemma example_coins_laws: "coin_laws example_coins"
  by (simp add: coin_laws_def example_coins_def)

lemma example_coins_own: "i < 2 \<Longrightarrow> coin_of_key example_coins [9] (to_script (example_spent ! i))"
  by (auto simp: coin_of_key_def example_coins_def example_spent_def less_Suc_eq numeral_2_eq_2)

theorem own_coins_are_proved_and_signed_witness:
  "coin_laws example_coins \<and>
   (\<exists>pf. prove example_coins [9] (to_script (example_spent ! 0)) 4 3 = Ok pf \<and> verify_proof example_coins (to_script (example_spent ! 0)) 4 pf = Ok ()) \<and>
   (\<exists>w. sign_input (\<lambda>_. 5) example_coins example_funding 0 example_spent [9] 3 = Ok w \<and>
      verify_input (\<lambda>_. 5) example_coins example_funding 0 example_spent w = Ok ()) \<and>
   (\<exists>w. sign_input (\<lambda>_. 5) example_coins example_funding 1 example_spent [9] 3 = Ok w \<and>
      verify_input (\<lambda>_. 5) example_coins example_funding 1 example_spent w = Ok ())"
proof -
  have len: "length (tx_input example_funding) = 2" "length example_spent = 2" by (simp_all add: example_funding_def example_spent_def)
  note coin = own_coins_are_proved_and_signed [OF example_coins_laws example_coins_own, of _ example_funding]
  show ?thesis using coin [of 0] coin [of 1] len example_coins_laws by simp
qed

theorem accepted_signature_fixes_txid_witness:
  "verify_input (\<lambda>_. 5) example_coins example_funding 0 example_spent [replicate 64 1] = Ok () \<and>
   (\<exists>h. funding_hash (\<lambda>_. 5) example_funding 0 example_spent = Ok h \<and> q_schnorr_ok example_coins (replicate 64 1) h (replicate 32 7))"
proof -
  have tr: "is_p2tr (to_script (example_spent ! 0))" "to_script (example_spent ! 0) = [0x51, 0x20] @ replicate 32 7"
    by (simp_all add: example_spent_def is_p2tr_def)
  have len: "length example_spent = length (tx_input example_funding)" by (simp add: example_spent_def example_funding_def)
  obtain h where "key_spend_sighash (\<lambda>_. 5) example_funding 0 (PrevoutsAll example_spent) SighashDefault = Ok h"
    using key_spend_exists [OF len] by blast
  hence accepted: "verify_input (\<lambda>_. 5) example_coins example_funding 0 example_spent [replicate 64 1] = Ok ()"
    using tr by (simp add: verify_input_def at_def p2tr_output_key_def example_coins_def) (simp add: example_spent_def)
  have "plain_tx example_funding" by (simp add: plain_tx_def example_funding_def)
  from accepted_signature_fixes_txid [OF accepted this] tr accepted show ?thesis by auto
qed

end
