(* ===== verification/Tatara_Peers.thy ===== *)
theory Tatara_Peers
  imports Tatara_Example Ring_Sig Pool_Funding
begin

text \<open>
  Two phones: what one phone's machine posts, another phone's machine takes. Here the ring signature (\<open>ring.rs\<close>), the
  ownership proofs and the input signatures (\<open>funding.rs\<close>) of the machine's argument are the modelled ones, and the
  composition is with the curve and the signature schemes only.
\<close>

section \<open>The schemes of a pool\<close>

definition uses_schemes :: "pool_env \<Rightarrow> secp_ops \<Rightarrow> coin_ops \<Rightarrow> bool" where
  "uses_schemes S C Q \<longleftrightarrow>
     e_point_ok S = s_point C \<and> e_prove S = prove Q \<and> e_verify_proof S = verify_proof Q \<and> e_sign_input S = sign_input (e_sha S) Q \<and>
     (\<forall>ring sk m aux. e_ring_sign S ring sk m aux = ring_sign (e_sha S) C ring (unat (bytes_hash sk)) m aux) \<and>
     (\<forall>ring m sig. e_ring_verify S ring m sig = and_then (ring_verify (e_sha S) C ring m sig) (\<lambda>p. Ok (hex_encode p)))"

text \<open>An address is read back as the script it was made from.\<close>

definition addresses_read_back :: "pool_env \<Rightarrow> string \<Rightarrow> bool" where
  "addresses_read_back S network \<longleftrightarrow> (\<forall>spk t. e_address_of S network spk = Ok t \<longrightarrow> e_script_of S network t = Ok spk)"

section \<open>Registrations\<close>

text \<open>What the registration of a phone says.\<close>

definition registration_of :: "pool_env \<Rightarrow> params \<Rightarrow> my_part \<Rightarrow> input_registration" where
  "registration_of S p me =
     \<lparr>ir_session = mp_session me, ir_amount = cls_amount (hd (p_classes p)), ir_musig = k_point (e_curve S) (mp_musig me),
      ir_ring = k_point (e_curve S) (mp_ring me), ir_inputs = map (\<lambda>(op, out, sk). (op, out)) (mp_coins me), ir_change = mp_change me,
      ir_height = mp_tip me\<rparr>"

lemma coin_script_read: "coin_laws Q \<Longrightarrow> coin_of_key Q sk spk \<Longrightarrow> strict_hex_range (hex_encode spk) 22 34 = Ok spk \<and> (is_p2wpkh spk \<or> is_p2tr spk)"
  by (auto simp: coin_laws_def coin_of_key_def strict_hex_range_def is_p2wpkh_def is_p2tr_def)

lemma proved_coin_read:
  assumes "uses_schemes S C Q" and "coin_laws Q" and "coin_of_key Q sk (to_script out)"
    and "e_prove S sk (to_script out) (ownership_msg (e_sha S) pid s op) aux = Ok pf"
  shows "input_of_msg S pid s \<lparr>im_txid = txid_text (fst op), im_vout = snd op, im_amount = to_value out, im_script = hex_encode (to_script out), im_proof = pf\<rparr> = Ok (op, out)"
proof -
  have "verify_proof Q (to_script out) (ownership_msg (e_sha S) pid s op) pf = Ok ()"
    using own_proof_verifies [OF assms(2,3), of "ownership_msg (e_sha S) pid s op" aux] assms(1,4) by (simp add: uses_schemes_def)
  thus ?thesis using assms(1) coin_script_read [OF assms(2,3)] by (simp add: input_of_msg_def txid_text_facts uses_schemes_def Let_def)
qed

lemma prove_coins_read:
  assumes "uses_schemes S C Q" and "coin_laws Q" and "\<forall>(op, out, sk)\<in>set coins. coin_of_key Q sk (to_script out)"
    and "prove_coins S coins a = (Ok ins, a')"
  shows "collect_ok (input_of_msg S (at_id a) (my_session a)) ins = Ok (map (\<lambda>(op, out, sk). (op, out)) coins) \<and> (\<exists>n. a' = a\<lparr>at_aux_n := n\<rparr>)"
  using assms(3,4)
proof (induction coins arbitrary: a ins a')
  case Nil
  have "a' = a\<lparr>at_aux_n := at_aux_n a\<rparr>" using Nil by simp
  thus ?case using Nil by fastforce
next
  case (Cons c coins)
  obtain op out sk where c: "c = (op, out, sk)" by (cases c)
  obtain aux n where aux: "next_aux S a = (aux, a\<lparr>at_aux_n := n\<rparr>)" by (simp add: next_aux_def Let_def)
  from Cons.prems(2) obtain pf ins' where pf: "e_prove S sk (to_script out) (ownership_msg (e_sha S) (at_id a) (my_session a) op) aux = Ok pf"
    and ins': "prove_coins S coins (a\<lparr>at_aux_n := n\<rparr>) = (Ok ins', a')"
    and ins: "ins = \<lparr>im_txid = txid_text (fst op), im_vout = snd op, im_amount = to_value out, im_script = hex_encode (to_script out), im_proof = pf\<rparr> # ins'"
    by (auto simp: c aux Let_def try_in_def split: outcome.splits prod.splits)
  have "coin_of_key Q sk (to_script out)" using Cons.prems(1) by (simp add: c)
  from proved_coin_read [OF assms(1,2) this pf] Cons.IH [OF _ ins'] Cons.prems(1) show ?case by (auto simp: ins c)
qed

lemma new_attempt_posts:
  assumes "new_attempt S p network me now phase_s = Ok (a, acts)"
  shows "registration_inputs (length (mp_coins me)) = Ok () \<and> (\<exists>a0 msg. my_registration S a0 = (Ok msg, a) \<and> acts = [post msg] \<and>
    at_id a0 = p_id p \<and> at_me a0 = me \<and> at_network a0 = network \<and> at_d a0 = cls_amount (hd (p_classes p)))"
  using assms unfolding new_attempt_def Let_def
  by (clarsimp simp: ensure_Ok and_then_Ok split: prod.splits) (intro exI conjI, assumption, simp_all)

text \<open>C10: Between honest phones a registration arrives as it was meant: whatever a phone posts when it starts, another phone of the
  same pool that has room reads back as exactly that phone's session, keys, coins, change and height, and adds it to its
  registrations; with the last one the registration closes.\<close>

theorem honest_registration_is_taken:
  assumes schemes: "uses_schemes S C Q" and laws: "coin_laws Q" "secp_laws C" and addresses: "addresses_read_back S network"
    and own: "\<forall>(op, out, sk)\<in>set (mp_coins me). coin_of_key Q sk (to_script out)"
    and keys: "s_point C (k_point (e_curve S) (mp_musig me))" "s_point C (k_point (e_curve S) (mp_ring me))"
    and new: "new_attempt S p network me now phase_s = Ok (a, acts)"
    and read: "acts = [post msg]" "message_size (str_bytes json) = Ok ()" "parse_strict S json = Ok msg"
      "\<forall>v. e_json S json = Some v \<longrightarrow> j_str (j_get v ''type'') \<noteq> Some ''lij_view''"
    and pool: "at_id b = p_id p" "at_network b = network" "at_d b = cls_amount (hd (p_classes p))" "at_phase b = PhInputs"
    and room: "map_of (at_regs b) (mp_session me) = None" "length (at_regs b) < p_peers (at_params b)"
      "\<forall>(op, out, sk)\<in>set (mp_coins me). op \<notin> at_refused b"
    and b': "b' = b\<lparr>at_regs := insort_key fst (mp_session me, registration_of S p me, json) (at_regs b)\<rparr>"
  shows "on_msg S (mp_session me) json b = (if length (at_regs b') < p_peers (at_params b) then (Ok [], b') else registration_closed b')"
proof -
  from new_attempt_posts [OF new] obtain a0 msg' where inputs: "registration_inputs (length (mp_coins me)) = Ok ()"
    and a0: "at_id a0 = p_id p" "at_me a0 = me" "at_network a0 = network" "at_d a0 = cls_amount (hd (p_classes p))"
    and reg: "my_registration S a0 = (Ok msg', a)" and "acts = [post msg']" by blast
  with read(1) have msg: "msg' = msg" by (simp add: post_def)
  obtain r a1 where coins: "prove_coins S (mp_coins me) a0 = (r, a1)" by fastforce
  with reg obtain ins where r: "r = Ok ins" by (auto simp: my_registration_def a0 try_in_def split: outcome.splits)
  from prove_coins_read [OF schemes laws(1) own coins [unfolded r]] obtain n where
    ins: "collect_ok (input_of_msg S (p_id p) (mp_session me)) ins = Ok (map (\<lambda>(op, out, sk). (op, out)) (mp_coins me))" and a1: "a1 = a0\<lparr>at_aux_n := n\<rparr>"
    by (auto simp: a0)
  from reg obtain change where
    change: "(case mp_change me of None \<Rightarrow> Ok None | Some c \<Rightarrow> and_then (e_address_of S network (to_script c)) (\<lambda>s. Ok (Some \<lparr>cm_address = s, cm_amount = to_value c\<rparr>))) = Ok change"
    and msg': "msg' = InputsMsg (hex_encode (k_point (e_curve S) (mp_musig me))) (hex_encode (k_point (e_curve S) (mp_ring me))) ins change (mp_tip me) (Some (cls_amount (hd (p_classes p))))"
    by (auto simp: my_registration_def a0 coins r a1 try_in_def split: outcome.splits cong: option.case_cong)
  have "(case change of Some c \<Rightarrow> and_then (e_script_of S (at_network b) (cm_address c)) (\<lambda>spk. Ok (Some \<lparr>to_value = cm_amount c, to_script = spk\<rparr>)) | None \<Rightarrow> Ok None) = Ok (mp_change me)"
    using change addresses pool(2) by (auto simp: and_then_Ok addresses_read_back_def split: option.splits)
  moreover have "point_from_hex (e_point_ok S) (hex_encode k) = Ok k" if "s_point C k" for k
    using secp_lawsD(3) [OF laws(2) that] that schemes by (auto simp: point_from_hex_def uses_schemes_def)
  moreover have "length ins = length (mp_coins me)" using ins by (auto simp: collect_ok_Ok dest: list_all2_lengthD)
  moreover have "\<not> list_ex (\<lambda>(op, _). op \<in> at_refused b) (map (\<lambda>(op, out, sk). (op, out)) (mp_coins me))"
    using room(3) by (auto simp: list_ex_iff)
  ultimately have "on_inputs S (mp_session me) (hex_encode (k_point (e_curve S) (mp_musig me))) (hex_encode (k_point (e_curve S) (mp_ring me))) ins change (mp_tip me)
      (Some (cls_amount (hd (p_classes p)))) json b = (if length (at_regs b') < p_peers (at_params b) then (Ok [], b') else registration_closed b')"
    using room(1,2) pool(1,3,4) inputs ins keys
    by (simp add: on_inputs_def need_def try_in_def b' registration_of_def Let_def)
  moreover have "(case e_json S json of Some v \<Rightarrow> if j_str (j_get v ''type'') = Some ''lij_view'' then Some v else None | None \<Rightarrow> None) = None"
    using read(4) by (auto split: option.splits)
  ultimately show ?thesis using read(2) read(3) [folded msg, unfolded msg'] by (simp add: on_msg_def try_in_def)
qed

section \<open>Payouts\<close>

lemma image_read:
  assumes "uses_schemes S C Q" and "secp_laws C" and "x < curve_order" and "ring_sign (e_sha S) C ring x m aux = Ok sig"
  shows "\<exists>img. key_image (e_sha S) C x = Ok img \<and> e_ring_verify S ring m sig = Ok (hex_encode img)"
  using ring_sign_verifies(1) [OF assms(2-4)] assms(1) by (auto simp: uses_schemes_def)

text \<open>A payout message that a phone can read: its script is of the pool's kind and its signature is by the key \<open>x\<close>.\<close>

definition payout_signed :: "pool_env \<Rightarrow> secp_ops \<Rightarrow> nat \<Rightarrow> attempt \<Rightarrow> string \<Rightarrow> ring_sig \<Rightarrow> script_buf \<Rightarrow> bool" where
  "payout_signed S C x b address sig spk \<longleftrightarrow>
     e_script_of S (at_network b) address = Ok spk \<and>
     (case p_payout_type (at_params b) of P2tr \<Rightarrow> is_p2tr spk | P2wsh \<Rightarrow> is_p2wsh spk) \<and>
     (\<exists>aux. ring_sign (e_sha S) C (sorted_ring b) x (payout_msg (e_sha S) (at_id b) 0 (at_d b) spk) aux = Ok sig)"

text \<open>C9: Between honest phones a payout counts, once: the payout a phone posts is read by another phone with the same
  registrations, which adds its script to the payouts and remembers the image of the signing key; and any second, different
  payout message signed with the same key stops the attempt and names no one, since the signature hides who signed.\<close>

theorem payout_counts_once:
  assumes schemes: "uses_schemes S C Q" and laws: "secp_laws C" and x: "x < curve_order" and addresses: "addresses_read_back S (at_network a)"
    and posts: "register_payout S a = (Ok [PostPayout (EnvelopeJson (OutputMsg address sig priority denomination))], a')" "mp_payout (at_me a) = Some spk"
      "x = unat (bytes_hash (mp_ring (at_me a)))"
    and same: "at_id b = at_id a" "at_d b = at_d a" "at_network b = at_network a" "sorted_ring b = sorted_ring a"
    and kind: "case p_payout_type (at_params b) of P2tr \<Rightarrow> is_p2tr spk | P2wsh \<Rightarrow> is_p2wsh spk"
    and waits: "at_phase b = PhPayouts" "length (at_regs b) = p_peers (at_params b)" "Suc (length (at_payouts b)) < p_peers (at_params b)"
    and fresh: "\<forall>img. key_image (e_sha S) C x = Ok img \<longrightarrow> map_of (at_images b) (hex_encode img) = None" "\<forall>(s, _)\<in>set (at_payouts b). s \<noteq> spk"
  shows "\<exists>img b'. key_image (e_sha S) C x = Ok img \<and>
    b' = b\<lparr>at_images := (hex_encode img, spk, json) # at_images b, at_payouts := at_payouts b @ [(spk, 0)]\<rparr> \<and>
    on_output S address sig priority denomination json b = (Ok [], b') \<and>
    (\<forall>address2 sig2 spk2 json2. payout_signed S C x b address2 sig2 spk2 \<and> json2 \<noteq> json \<longrightarrow>
       on_output S address2 sig2 0 (Some (at_d b)) json2 b' = stopping ''two payouts under one key image'' [] b')"
proof -
  let ?sha = "e_sha S"
  obtain aux n where aux: "next_aux S a = (aux, a\<lparr>at_aux_n := n\<rparr>)" by (simp add: next_aux_def Let_def)
  have frame: "sorted_ring (a\<lparr>at_aux_n := n\<rparr>) = sorted_ring a" by (simp add: sorted_ring_def)
  from posts(1,2) have sig: "e_ring_sign S (sorted_ring a) (mp_ring (at_me a)) (payout_msg ?sha (at_id a) 0 (at_d a) spk) aux = Ok sig"
    and address: "e_address_of S (at_network a) spk = Ok address" and msg: "priority = 0" "denomination = Some (at_d a)"
    by (auto simp: register_payout_def aux frame Let_def try_in_def split: outcome.splits)
  have sig': "ring_sign ?sha C (sorted_ring b) x (payout_msg ?sha (at_id b) 0 (at_d b) spk) aux = Ok sig"
    using sig schemes same by (simp add: uses_schemes_def posts(3))
  from image_read [OF schemes laws x sig'] obtain img where img: "key_image ?sha C x = Ok img"
    "e_ring_verify S (sorted_ring b) (payout_msg ?sha (at_id b) 0 (at_d b) spk) sig = Ok (hex_encode img)" by blast
  have spk: "e_script_of S (at_network b) address = Ok spk" using address addresses same(3) by (simp add: addresses_read_back_def)
  let ?b = "b\<lparr>at_images := (hex_encode img, spk, json) # at_images b, at_payouts := at_payouts b @ [(spk, 0)]\<rparr>"
  have "\<not> list_ex (\<lambda>(s, _). s = spk) (at_payouts b)" using fresh(2) by (auto simp: list_ex_iff)
  hence first: "on_output S address sig priority denomination json b = (Ok [], ?b)"
    using waits kind spk img fresh(1) by (simp add: on_output_def msg same(2) [symmetric] need_def try_in_def Let_def)
  have "on_output S address2 sig2 0 (Some (at_d b)) json2 ?b = stopping ''two payouts under one key image'' [] ?b"
    if "payout_signed S C x b address2 sig2 spk2" "json2 \<noteq> json" for address2 sig2 spk2 json2
  proof -
    from that(1) obtain aux2 where two: "e_script_of S (at_network b) address2 = Ok spk2"
      "case p_payout_type (at_params b) of P2tr \<Rightarrow> is_p2tr spk2 | P2wsh \<Rightarrow> is_p2wsh spk2"
      "ring_sign ?sha C (sorted_ring b) x (payout_msg ?sha (at_id b) 0 (at_d b) spk2) aux2 = Ok sig2" by (auto simp: payout_signed_def)
    have "sorted_ring ?b = sorted_ring b" by (simp add: sorted_ring_def)
    with image_read [OF schemes laws x two(3)] img(1) two(1,2) waits that(2) show ?thesis
      by (auto simp: on_output_def need_def try_in_def)
  qed
  thus ?thesis using img(1) first by blast
qed

section \<open>Two phones of one pool\<close>

text \<open>A segwit coin, a key that is the number 2, and texts that are all read as this phone's registration.\<close>

definition peer_me :: my_part where
  "peer_me =
     \<lparr>mp_coins = [((2, 0), \<lparr>to_value = 200000, to_script = [0x00, 0x14] @ replicate 20 3\<rparr>, [9])], mp_change = None, mp_tip = 800000,
      mp_payout = Some (mix_script 4), mp_session = 7, mp_musig = hash_bytes 2, mp_ring = hash_bytes 2, mp_entropy = 7, mp_rate_at_join = 2\<rparr>"

definition peer_proof :: proof_msg where
  "peer_proof = \<lparr>pf_sig = hex_encode (replicate 70 1), pf_pubkey = Some (hex_encode (replicate 33 2))\<rparr>"

definition peer_msg :: pool_msg where
  "peer_msg = InputsMsg (hex_encode (enc_point 6)) (hex_encode (enc_point 6))
     [\<lparr>im_txid = txid_text 2, im_vout = 0, im_amount = 200000, im_script = hex_encode ([0x00, 0x14] @ replicate 20 3), im_proof = peer_proof\<rparr>]
     None 800000 (Some 100000)"

definition peer_env :: pool_env where
  "peer_env =
     \<lparr>e_sha = (\<lambda>_. 5), e_curve = mix_curve\<lparr>k_point := (\<lambda>_. enc_point 6)\<rparr>,
      e_json = (\<lambda>_. Some (JObject [(''version'', JString ''2''), (''type'', JString ''inputs'')])), e_msg = (\<lambda>_. Some peer_msg),
      e_script_of = (\<lambda>_ t. case hex_decode t of Some s \<Rightarrow> Ok s | None \<Rightarrow> Err []), e_address_of = (\<lambda>_ s. Ok (hex_encode s)),
      e_pool_script = (\<lambda>_ i. Ok (mix_script (i + 100))), e_point_ok = s_point add_group,
      e_prove = prove example_coins, e_verify_proof = verify_proof example_coins,
      e_ring_sign = (\<lambda>ring sk m aux. ring_sign (\<lambda>_. 5) add_group ring (unat (bytes_hash sk)) m aux),
      e_ring_verify = (\<lambda>ring m sig. and_then (ring_verify (\<lambda>_. 5) add_group ring m sig) (\<lambda>p. Ok (hex_encode p))),
      e_sign_input = sign_input (\<lambda>_. 5) example_coins\<rparr>"

lemma peer_schemes: "uses_schemes peer_env add_group example_coins" and peer_addresses: "addresses_read_back peer_env network"
  by (simp_all add: uses_schemes_def addresses_read_back_def peer_env_def)

lemma peer_proves: "prove example_coins [9] ([0x00, 0x14] @ replicate 20 3) m aux = Ok peer_proof"
  by (simp add: prove_def is_p2tr_def is_p2wpkh_def example_coins_def peer_proof_def)

lemma peer_starts: "\<exists>a. new_attempt peer_env (new_params ''ab'' 100000 3 2000) ''bitcoin'' peer_me 1000 120 = Ok (a, [post peer_msg])"
proof -
  have prove: "e_prove peer_env [9] ([0x00, 0x14] @ replicate 20 3) m aux = Ok peer_proof" for m aux using peer_proves by (simp add: peer_env_def)
  have point: "k_point (e_curve peer_env) k = enc_point 6" for k by (simp add: peer_env_def)
  show ?thesis
    by (simp add: new_attempt_def peer_me_def registration_inputs_def MAX_INPUTS_PER_MEMBER_def new_params_def with_classes_def my_registration_def try_in_def
      next_aux_def Let_def prove [unfolded append_Cons append_Nil] point peer_msg_def post_def)
qed

theorem honest_registration_is_taken_witness:
  "on_msg peer_env 7 ''m'' mix_start =
     (Ok [], mix_start\<lparr>at_regs := [(7, registration_of peer_env (new_params ''ab'' 100000 3 2000) peer_me, ''m'')]\<rparr>)"
proof -
  obtain a where new: "new_attempt peer_env (new_params ''ab'' 100000 3 2000) ''bitcoin'' peer_me 1000 120 = Ok (a, [post peer_msg])" using peer_starts by blast
  have own: "\<forall>(op, out, sk)\<in>set (mp_coins peer_me). coin_of_key example_coins sk (to_script out)"
    by (simp add: peer_me_def coin_of_key_def example_coins_def)
  have keys: "s_point add_group (k_point (e_curve peer_env) k)" for k
    using enc_point_valid [of 6] by (simp add: peer_env_def curve_order_value del: add_group_fields)
  have parse: "parse_strict peer_env ''m'' = Ok peer_msg" by (simp add: parse_strict_def peer_env_def j_get_def j_str_def allowed_fields_def)
  show ?thesis
    using honest_registration_is_taken [OF peer_schemes example_coins_laws add_group_laws peer_addresses own keys keys new refl _ parse, of mix_start]
    by (simp add: message_size_def MAX_MESSAGE_BYTES_def str_bytes_def peer_env_def j_get_def j_str_def mix_start_def new_params_def with_classes_def peer_me_def)
qed

definition peer_paying :: attempt where
  "peer_paying = mix_start\<lparr>at_me := peer_me, at_params := (new_params ''ab'' 100000 3 2000)\<lparr>p_peers := 2\<rparr>, at_phase := PhPayouts,
     at_regs := [(1, (example_reg 1)\<lparr>ir_ring := enc_point 6\<rparr>, ''a''), (2, (example_reg 2)\<lparr>ir_ring := enc_point 7\<rparr>, ''b'')]\<rparr>"

theorem payout_counts_once_witness:
  "\<exists>b'. on_output peer_env (hex_encode (mix_script 4)) example_ring_sig 0 (Some 100000) ''p'' peer_paying = (Ok [], b') \<and>
     at_payouts b' = [(mix_script 4, 0)] \<and>
     on_output peer_env (hex_encode (mix_script 8)) example_ring_sig 0 (Some 100000) ''q'' b' = stopping ''two payouts under one key image'' [] b'"
proof -
  have ring: "sorted_ring peer_paying = [enc_point 6, enc_point 7]"
    using less_imp_le [OF enc_points_sorted] by (simp add: sorted_ring_def peer_paying_def)
  have fields: "at_id peer_paying = ''ab''" "at_d peer_paying = 100000" "at_network peer_paying = ''bitcoin''" "at_me peer_paying = peer_me"
    "p_payout_type (at_params peer_paying) = P2tr" "p_peers (at_params peer_paying) = 2" "length (at_regs peer_paying) = 2" "at_payouts peer_paying = []"
    "at_images peer_paying = []" "at_phase peer_paying = PhPayouts"
    by (simp_all add: peer_paying_def mix_start_def new_params_def with_classes_def)
  have me: "mp_payout peer_me = Some (mix_script 4)" "unat (bytes_hash (mp_ring peer_me)) = 2" by (simp_all add: peer_me_def)
  have env: "e_sha peer_env = (\<lambda>_. 5)" "e_address_of peer_env n s = Ok (hex_encode s)" "e_script_of peer_env n (hex_encode s) = Ok s"
    "e_ring_sign peer_env r sk m aux = ring_sign (\<lambda>_. 5) add_group r (unat (bytes_hash sk)) m aux" for n s r sk m aux
    by (simp_all add: peer_env_def)
  have ring': "sorted_ring (peer_paying\<lparr>at_aux_n := n\<rparr>) = [enc_point 6, enc_point 7]" for n using ring by (simp add: sorted_ring_def)
  have "\<exists>a'. register_payout peer_env peer_paying =
      (Ok [PostPayout (EnvelopeJson (OutputMsg (hex_encode (mix_script 4)) example_ring_sig 0 (Some 100000)))], a')"
    by (simp add: register_payout_def fields me env try_in_def next_aux_def Let_def ring' example_ring_signs)
  then obtain a' where pays: "register_payout peer_env peer_paying =
      (Ok [PostPayout (EnvelopeJson (OutputMsg (hex_encode (mix_script 4)) example_ring_sig 0 (Some 100000)))], a')" by blast
  have signed: "payout_signed peer_env add_group 2 peer_paying (hex_encode (mix_script 8)) example_ring_sig (mix_script 8)"
    by (simp add: payout_signed_def env fields ring example_ring_signs)
  have "2 < curve_order" by (simp add: curve_order_value)
  from payout_counts_once [OF peer_schemes add_group_laws this peer_addresses pays _ _ refl refl refl refl, of "mix_script 4" "''p''"] signed
  show ?thesis by (auto simp: fields me)
qed

end
