(* ===== verification/Spec2Isabelle.thy ===== *)
theory Spec2Isabelle
  imports Chain_Coordinator Coin_Select Fee_Estimator Independent_Quorum Sync_State Cooperative_Bridge Persisted_Counter Dead_Opens Tatara_Blame Tatara_Peers
begin

text \<open>
  Lightning in a Jar: a verification development of the wallet engine (\<open>src/lij/lij-core\<close>) and of the coin pool it
  joins (\<open>src/lij/patches/joinstr-v2\<close>).

  \<^bold>\<open>The program.\<close> The engine is a Lightning wallet that runs in a browser. It gets chain data on two paths: a provider's
  peer messages (the cooperative path) and several public explorers (the independent path). A coordinator turns both
  into one stream of calls into LDK; a broadcaster sends LDK's transactions out on both; a fee estimator merges their
  quotes; a cold-start state machine decides from their heights what the wallet may do. Around that stand the rule
  that picks coins, the counter of channel key indices, and the sweeps that throw dead channel opens away. A coin pool
  is a protocol among phones: each registers coins and a payout, all build the same funding transaction and the same
  pre-signed exits, and each signs its coin in only when the exits are signed.

  \<^bold>\<open>Theories and sources.\<close>
  \<^item> \<open>LIJ_Prelude\<close>: integers and Rust arithmetic, the error type (\<open>error.rs\<close>), runs of step functions, and the
    interfaces \<open>step_machine\<close>, \<open>ratchet_machine\<close>, \<open>delivery_machine\<close> and \<open>issuing_machine\<close>, each interpreted by the
    components that implement it.
  \<^item> \<open>Chain_Coordinator\<close> (\<open>chain_coordinator.rs\<close>): the coordinator as a step function over its calls. Best-block heights
    never fall, only an administrator unconfirms, verify-only observations act on nothing, the event log is the end of
    the full history.
  \<^item> \<open>Coin_Select\<close> (\<open>coin_select.rs\<close>): both rules, with optimality against every covering choice.
  \<^item> \<open>Fee_Estimator\<close> (\<open>fee_estimator.rs\<close>): the cache and its floor, escalation flag and snapshots.
  \<^item> \<open>Independent_Quorum\<close> (\<open>independent.rs\<close>, parts of \<open>tier2_sync.rs\<close>): rounds over the endpoints in any order of
    completion, majorities, the coin check, health of endpoints.
  \<^item> \<open>Sync_State\<close> (\<open>sync_state.rs\<close>, \<open>cold_start.rs\<close>, \<open>priority_scan.rs\<close>): the gates, the decision and its settle loop as
    a step relation, the scan of expiring payments.
  \<^item> \<open>Wire_Codec\<close> and \<open>Cooperative_Msg\<close> (\<open>ser.rs\<close> of the patched LDK, \<open>cooperative_chain_msg.rs\<close>): codecs as
    interpretations of one contract, round trips and refused prefixes for every message.
  \<^item> \<open>Broadcaster\<close> (\<open>broadcaster.rs\<close>) and \<open>Cooperative_Bridge\<close> (\<open>chain_filter.rs\<close>, \<open>cooperative_chain_handler.rs\<close>,
    \<open>cooperative_chain_bridge.rs\<close>): queues, parked transactions, watches and confirmations over any calls.
  \<^item> \<open>Persisted_Counter\<close> (\<open>persisted_counter.rs\<close>) and \<open>Dead_Opens\<close> (\<open>cancelled_open.rs\<close>, \<open>jit_funding.rs\<close>, the sweeps of
    \<open>node.rs\<close>): indices never reused over failing stores and restarts; a channel is dropped only when nothing is at stake.
  \<^item> \<open>Pool_Base\<close>, \<open>Pool_Plan\<close>, \<open>Pool_Shapes\<close>, \<open>Pool_Orders\<close> (\<open>pool.rs\<close> of joinstr, up to the exit amounts): outcomes
    with panics, parameters and their validation, fees, and the plans of a chain, of every order of leaving and of a
    tree. Every plan of a validated pool is funded to the satoshi, pays its rate and spends what an earlier one made.
  \<^item> \<open>Pool_Build\<close> (\<open>pool.rs\<close>, from the registrations on): the registration checks, characterised exactly; the builder; and
    that what it builds passes the checks on a built pool.
  \<^item> \<open>Tatara_Rederive\<close> (\<open>tatara/caps.rs\<close>, \<open>rederive.rs\<close>, \<open>checks.rs\<close>, the pool event of joinstr's \<open>msg.rs\<close>): the limits of a mix,
    the phone's own second derivation of the pool, and that it agrees with the builder for every pool the phone accepts.
  \<^item> \<open>Pool_Sign\<close> (\<open>sign.rs\<close>, \<open>keys.rs\<close>, \<open>util.rs\<close>, taproot part of \<open>vendor/bitcoin\<close>'s \<open>sighash.rs\<close>): hex, signature hashes,
    nonces, partial signatures and their aggregation; \<open>Pool_Total\<close>: no panic in what the machine calls.
  \<^item> \<open>Ring_Sig\<close> (\<open>ring.rs\<close>, the scalars of \<open>vendor/secp\<close>): the linkable ring signature, that it verifies, and its key image.
  \<^item> \<open>Pool_Funding\<close> (\<open>funding.rs\<close>, segwit part of \<open>sighash.rs\<close>): ownership proofs and input signatures, that a member's own
    verify, and that an accepted one fixes the id of the funding.
  \<^item> \<open>Tatara_Machine\<close> (\<open>tatara/machine.rs\<close>, the messages of \<open>msg.rs\<close>): one phone's state machine, every event and error path.
    \<open>Tatara_Protocol\<close> states the protocol as a relation \<open>move\<close> on well-formed states and proves that every event refines a
    move; \<open>Tatara_Runs\<close> draws what holds of whole runs (no signature before agreement, no funding signature before the
    saved record of valid exits, each at most once); \<open>Tatara_Blame\<close> shows who can stop an attempt, whom a stop names and
    that silence ends it; \<open>Tatara_Peers\<close> composes two machines with the ring signature and the proofs, so that what one
    posts the other takes. \<open>Tatara_Example\<close> is a complete run, for the witnesses.

  \<^bold>\<open>Conventions.\<close> State is a record and an operation returns the new state with its results; a Rust \<open>Result\<close> is a sum
  or, where code can panic, an \<open>outcome\<close> with \<open>Abort\<close>. Amounts are natural numbers with the wrap-around of \<open>u64\<close>
  written out where the code uses plain operators; the theorems show where it cannot happen. Clock readings and the
  outcomes of network calls are arguments. Runs are lists of calls, so a theorem over runs covers every interleaving of
  atomic calls.

  \<^bold>\<open>Bounds and loops.\<close> No definition uses fuel. The settle loop of the cold start recurses with a measure, and so do the
  loops over 32-bit counters of the ring signature, which never return once all are tried (\<open>Abort\<close>); the tree split
  of a pool is a partial function whose value is \<open>None\<close> when it does not return, and it is shown to return exactly for
  two or more payouts. Pool bounds (100 peers, 100 inputs a peer, 21 million bitcoin) are the source's.

  \<^bold>\<open>Arguments that stand for other code.\<close> SHA-256 and HASH160, the group of the curve, Schnorr, ECDSA and MuSig2 operations,
  key aggregation and derivation, JSON and addresses, the floating-point rate of an announcement, HTTP answers and LDK itself
  are arguments of the definitions that use them. Where a theorem needs something of them (group laws, that a signature
  verifies, that addresses are read back) it is a named hypothesis, and a witness instantiates it. The
  consensus encodings, transaction ids and signature hashes of the pool are modelled, not arguments.

  \<^bold>\<open>Not modelled.\<close> The patched LDK beyond its serialisation primitives, the vendored crates beyond the encodings, script tests,
  weights, signature hashes and scalars the pool uses, and the browser bindings are libraries or bindings the engine
  calls. Curve arithmetic itself (signers, silent payments, MuSig2) is left to its crates. The page side of a pool
  (\<open>tatara/phone.rs\<close> beyond the options of a new attempt, the relay's wire format, records at rest), the provider's HTTP
  clients and storage are input and output around the modelled parts.
\<close>

end
